(* ===== verification/Rush_Prelude.thy ===== *)
theory Rush_Prelude
  imports Complex_Main "HOL-Library.Word" "HOL-Library.Sublist"
begin

text \<open>
  Shared vocabulary of the development: the types of the Go program (UUIDs, instants, floats,
  errors), SQL's row operations on tables kept as lists of rows, JSON values with Go's rules for
  decoding an object into a struct, and the generic lemmas the components use.

  Conventions.  A Go \<^verbatim>\<open>string\<close> is a \<^typ>\<open>string\<close>; a
  \<^verbatim>\<open>time.Time\<close> is the number of nanoseconds since the Unix epoch; a
  \<^verbatim>\<open>float64\<close> is the real number it denotes (comparisons of finite floats are exact;
  arithmetic is used only in the distance and ETA formulas, where rounding is not modelled);
  a \<^verbatim>\<open>uuid.UUID\<close> is its 128 bits.
\<close>

section \<open>Basic types\<close>

type_synonym uuid = "128 word"
type_synonym time = int
type_synonym float64 = real

definition uuid_Nil :: uuid where
  "uuid_Nil = 0"

section \<open>Errors\<close>

text \<open>
  Go's error values.  The sentinels of the packages are constructors of their own, because
  \<^verbatim>\<open>errors.New\<close> values are compared by identity; \<open>ErrorString\<close> is any other leaf error;
  \<open>WrapError\<close> is \<^verbatim>\<open>fmt.Errorf\<close> with one \<^verbatim>\<open>%w\<close> between two literal texts.
\<close>

datatype error =
    OrderErrNotFound
  | OrderErrInvalidRequest
  | RiderErrNotFound
  | RiderErrInvalidRequest
  | ErrNoRiderAvailable
  | PgErrNoRows
  | ErrorString string
  | WrapError string error string

fun Error :: "error \<Rightarrow> string" where
  "Error OrderErrNotFound = ''order not found''"
| "Error OrderErrInvalidRequest = ''invalid request''"
| "Error RiderErrNotFound = ''rider not found''"
| "Error RiderErrInvalidRequest = ''invalid request''"
| "Error ErrNoRiderAvailable = ''no available rider within radius''"
| "Error PgErrNoRows = ''no rows in result set''"
| "Error (ErrorString s) = s"
| "Error (WrapError pre e post) = pre @ Error e @ post"

fun errors_Is :: "error \<Rightarrow> error \<Rightarrow> bool" where
  "errors_Is (WrapError pre e post) target = (WrapError pre e post = target \<or> errors_Is e target)"
| "errors_Is e target = (e = target)"

text \<open>
  The outcome of a call that changes the state of an external service: it succeeds, it fails
  without an effect, or it reports an error after its effect took place.
\<close>

datatype outcome = Done | Failed | Lost

section \<open>Tables as lists of rows\<close>

text \<open>
  \<open>UPDATE t SET f WHERE p\<close> rewrites the rows that satisfy the condition and keeps the others;
  its command tag counts them.  \<open>ORDER BY k DESC LIMIT 1\<close> is a row with the greatest key
  (SQL leaves the choice among equal keys open; the model takes the one inserted last).
\<close>

definition sql_update :: "('r \<Rightarrow> bool) \<Rightarrow> ('r \<Rightarrow> 'r) \<Rightarrow> 'r list \<Rightarrow> 'r list" where
  "sql_update p f rows = map (\<lambda>r. if p r then f r else r) rows"

definition rows_affected :: "('r \<Rightarrow> bool) \<Rightarrow> 'r list \<Rightarrow> nat" where
  "rows_affected p rows = length (filter p rows)"

definition sql_latest :: "('r \<Rightarrow> time) \<Rightarrow> ('r \<Rightarrow> bool) \<Rightarrow> 'r list \<Rightarrow> 'r option" where
  "sql_latest k p rows =
     (case rev (sort_key k (filter p rows)) of [] \<Rightarrow> None | r # _ \<Rightarrow> Some r)"

text \<open>
  \<open>VARCHAR(n)\<close>: a longer value is an error unless the excess is blanks, which are cut off.
  \<open>NUMERIC(10,2)\<close>: rounded to two places, half away from zero; eight integer digits.
\<close>

definition varchar :: "nat \<Rightarrow> string \<Rightarrow> string option" where
  "varchar n s =
     (if length s \<le> n then Some s
      else if list_all (\<lambda>c. c = CHR '' '') (drop n s) then Some (take n s)
      else None)"

definition numeric_10_2 :: "float64 \<Rightarrow> float64 option" where
  "numeric_10_2 x =
     (let c = sgn x * of_int \<lfloor>\<bar>x\<bar> * 100 + 1 / 2\<rfloor> / 100
      in if \<bar>c\<bar> < 10 ^ 8 then Some c else None)"

lemma sql_update_Nil [simp]: "sql_update p f [] = []"
  by (simp add: sql_update_def)

lemma sql_update_Cons [simp]:
  "sql_update p f (r # rs) = (if p r then f r else r) # sql_update p f rs"
  by (simp add: sql_update_def)

lemma length_sql_update [simp]: "length (sql_update p f rows) = length rows"
  by (simp add: sql_update_def)

lemma in_set_sql_update:
  "r' \<in> set (sql_update p f rows) \<longleftrightarrow> (\<exists>r \<in> set rows. r' = (if p r then f r else r))"
  by (auto simp: sql_update_def)

lemma map_sql_update_id:
  "(\<And>r. k (f r) = k r) \<Longrightarrow> map k (sql_update p f rows) = map k rows"
  by (induction rows) auto

lemma sql_update_none: "rows_affected p rows = 0 \<Longrightarrow> sql_update p f rows = rows"
  by (induction rows) (auto simp: rows_affected_def split: if_splits)

lemma rows_affected_pos: "rows_affected p rows \<noteq> 0 \<longleftrightarrow> (\<exists>r \<in> set rows. p r)"
  by (auto simp: rows_affected_def filter_empty_conv)

lemma rows_affected_0: "rows_affected p rows = 0 \<longleftrightarrow> (\<forall>r \<in> set rows. \<not> p r)"
  by (auto simp: rows_affected_def filter_empty_conv)

lemma find_sql_update:
  assumes "\<And>r. q (f r) = q r"
  shows "find q (sql_update p f rows) = map_option (\<lambda>r. if p r then f r else r) (find q rows)"
  using assms by (induction rows) auto

lemma find_in_set: "find p xs = Some x \<Longrightarrow> x \<in> set xs \<and> p x"
  by (induction xs) (auto split: if_splits)

lemma find_append: "find p (xs @ ys) = (case find p xs of None \<Rightarrow> find p ys | Some x \<Rightarrow> Some x)"
  by (induction xs) auto

lemma sql_latest_Some:
  assumes "sql_latest k p rows = Some r"
  shows "r \<in> set rows \<and> p r \<and> (\<forall>s \<in> set rows. p s \<longrightarrow> k s \<le> k r)"
proof -
  let ?xs = "sort_key k (filter p rows)"
  from assms obtain rs where rev: "rev ?xs = r # rs"
    by (auto simp: sql_latest_def split: list.splits)
  then have xs: "?xs = rev rs @ [r]"
    by (metis rev_rev_ident rev.simps(2))
  have "sorted (map k (rev rs @ [r]))"
    by (metis sorted_sort_key xs)
  then have "\<forall>s \<in> set (rev rs @ [r]). k s \<le> k r"
    by (auto simp: sorted_append)
  moreover have "set (rev rs @ [r]) = {s \<in> set rows. p s}"
    by (metis set_filter set_sort xs)
  ultimately show ?thesis by auto
qed

lemma sql_latest_None: "sql_latest k p rows = None \<longleftrightarrow> (\<forall>r \<in> set rows. \<not> p r)"
proof -
  have "sql_latest k p rows = None \<longleftrightarrow> sort_key k (filter p rows) = []"
    by (auto simp: sql_latest_def split: list.splits)
  also have "\<dots> \<longleftrightarrow> filter p rows = []"
    by (metis set_empty set_sort)
  finally show ?thesis by (simp add: filter_empty_conv)
qed

end
