(* ===== verification/Rush_Json.thy ===== *)
theory Rush_Json
  imports Rush_Prelude
begin

text \<open>
  JSON values and Go's \<^verbatim>\<open>encoding/json\<close> at the level of values: a struct is encoded as an
  object with its field tags, and decoded by Go's rules (unknown keys are ignored, keys match a
  tag up to case, \<^verbatim>\<open>null\<close> leaves a plain field and clears a pointer, a value of the wrong kind
  is an error, a missing key leaves the zero value).  The text of UUIDs
  (\<^verbatim>\<open>github.com/google/uuid\<close>) and of instants is a parameter, the record \<open>codec\<close>, whose
  contract is the locale \<open>codec_laws\<close>; the locale is interpreted on the canonical
  hyphenated text of RFC 4122.
\<close>

datatype json =
    JNull
  | JBool bool
  | JNum float64
  | JStr string
  | JArr "json list"
  | JObj "(string \<times> json) list"

record codec =
  uuid_String :: "uuid \<Rightarrow> string"
  uuid_Parse :: "string \<Rightarrow> uuid option"
  time_Format :: "time \<Rightarrow> string"
  time_Parse :: "string \<Rightarrow> time option"

section \<open>Encoding\<close>

definition json_uuid :: "codec \<Rightarrow> uuid \<Rightarrow> json" where
  "json_uuid C u = JStr (uuid_String C u)"

definition json_time :: "codec \<Rightarrow> time \<Rightarrow> json" where
  "json_time C t = JStr (time_Format C t)"

definition json_int :: "int \<Rightarrow> json" where
  "json_int n = JNum (of_int n)"

text \<open>A map of strings (a trace carrier, an error body) becomes an object of strings.\<close>

definition json_strings :: "(string \<times> string) list \<Rightarrow> json" where
  "json_strings kvs = JObj (map (\<lambda>(k, v). (k, JStr v)) kvs)"

section \<open>Decoding an object into a struct\<close>

definition lower_char :: "char \<Rightarrow> char" where
  "lower_char c =
     (let n = (of_char c :: nat) in if 65 \<le> n \<and> n \<le> 90 then char_of (n + 32) else c)"

definition key_matches :: "string \<Rightarrow> string \<Rightarrow> bool" where
  "key_matches k tag \<longleftrightarrow> map lower_char k = map lower_char tag"

type_synonym 's fields = "(string \<times> (json \<Rightarrow> 's \<Rightarrow> error + 's)) list"

definition unmarshal_type_error :: error where
  "unmarshal_type_error = ErrorString ''json: cannot unmarshal value into Go struct field''"

definition field :: "(json \<Rightarrow> error + 'a) \<Rightarrow> ('a \<Rightarrow> 's \<Rightarrow> 's) \<Rightarrow> json \<Rightarrow> 's \<Rightarrow> error + 's" where
  "field dec upd v s =
     (if v = JNull then Inr s
      else case dec v of Inl e \<Rightarrow> Inl e | Inr a \<Rightarrow> Inr (upd a s))"

definition field_ptr ::
  "(json \<Rightarrow> error + 'a) \<Rightarrow> ('a option \<Rightarrow> 's \<Rightarrow> 's) \<Rightarrow> json \<Rightarrow> 's \<Rightarrow> error + 's" where
  "field_ptr dec upd v s =
     (if v = JNull then Inr (upd None s)
      else case dec v of Inl e \<Rightarrow> Inl e | Inr a \<Rightarrow> Inr (upd (Some a) s))"

fun dec_string :: "json \<Rightarrow> error + string" where
  "dec_string (JStr s) = Inr s"
| "dec_string _ = Inl unmarshal_type_error"

fun dec_float :: "json \<Rightarrow> error + float64" where
  "dec_float (JNum x) = Inr x"
| "dec_float _ = Inl unmarshal_type_error"

fun dec_int :: "json \<Rightarrow> error + int" where
  "dec_int (JNum x) = (if x = of_int \<lfloor>x\<rfloor> then Inr \<lfloor>x\<rfloor> else Inl unmarshal_type_error)"
| "dec_int _ = Inl unmarshal_type_error"

fun dec_uuid :: "codec \<Rightarrow> json \<Rightarrow> error + uuid" where
  "dec_uuid C (JStr s) =
     (case uuid_Parse C s of None \<Rightarrow> Inl (ErrorString ''invalid UUID'') | Some u \<Rightarrow> Inr u)"
| "dec_uuid C _ = Inl unmarshal_type_error"

fun dec_time :: "codec \<Rightarrow> json \<Rightarrow> error + time" where
  "dec_time C (JStr s) =
     (case time_Parse C s of None \<Rightarrow> Inl (ErrorString ''parsing time'') | Some t \<Rightarrow> Inr t)"
| "dec_time C _ = Inl unmarshal_type_error"

definition decode_entry :: "'s fields \<Rightarrow> string \<Rightarrow> json \<Rightarrow> 's \<Rightarrow> error + 's" where
  "decode_entry fs k v s =
     (case find (\<lambda>(tag, _). key_matches k tag) fs of
        None \<Rightarrow> Inr s
      | Some (_, f) \<Rightarrow> f v s)"

fun decode_entries :: "'s fields \<Rightarrow> (string \<times> json) list \<Rightarrow> 's \<Rightarrow> error + 's" where
  "decode_entries fs [] s = Inr s"
| "decode_entries fs ((k, v) # kvs) s =
     (case decode_entry fs k v s of Inl e \<Rightarrow> Inl e | Inr s' \<Rightarrow> decode_entries fs kvs s')"

fun json_unmarshal :: "'s fields \<Rightarrow> json \<Rightarrow> 's \<Rightarrow> error + 's" where
  "json_unmarshal fs (JObj kvs) s = decode_entries fs kvs s"
| "json_unmarshal fs JNull s = Inr s"
| "json_unmarshal fs _ s = Inl unmarshal_type_error"

lemmas decode_simps = decode_entry_def key_matches_def lower_char_def field_def field_ptr_def

lemma dec_int_json_int [simp]: "dec_int (json_int n) = Inr n"
  by (simp add: json_int_def)

lemma json_leaf_not_null [simp]:
  "json_uuid C u \<noteq> JNull" "json_time C t \<noteq> JNull" "json_int n \<noteq> JNull"
  by (simp_all add: json_uuid_def json_time_def json_int_def)

section \<open>The contract of the text codec\<close>

locale codec_laws =
  fixes C :: codec
  assumes uuid_Parse_String: "uuid_Parse C (uuid_String C u) = Some u"
    and time_Parse_Format: "time_Parse C (time_Format C t) = Some t"
    and uuid_String_length: "length (uuid_String C u) = 36"
begin

lemma dec_uuid_json [simp]: "dec_uuid C (json_uuid C u) = Inr u"
  by (simp add: json_uuid_def uuid_Parse_String)

lemma dec_time_json [simp]: "dec_time C (json_time C t) = Inr t"
  by (simp add: json_time_def time_Parse_Format)

lemma uuid_String_inj: "uuid_String C u = uuid_String C v \<longleftrightarrow> u = v"
  by (metis option.inject uuid_Parse_String)

end

section \<open>A concrete codec\<close>

text \<open>
  Hexadecimal text of a UUID with its four hyphens, read back digit by digit, and the decimal
  text of an instant.  They show that the contract can be met and serve the concrete examples.
\<close>

fun hex_text :: "nat \<Rightarrow> nat \<Rightarrow> string" where
  "hex_text 0 n = ''''"
| "hex_text (Suc k) n =
     hex_text k (n div 16) @ [char_of (if n mod 16 < 10 then 48 + n mod 16 else 87 + n mod 16 :: nat)]"

definition hex_value :: "char \<Rightarrow> nat option" where
  "hex_value c =
     (let n = of_char c in
      if 48 \<le> n \<and> n \<le> 57 then Some (n - 48)
      else if 97 \<le> n \<and> n \<le> 102 then Some (n - 87) else None)"

fun hex_read :: "string \<Rightarrow> nat \<Rightarrow> nat option" where
  "hex_read [] acc = Some acc"
| "hex_read (c # cs) acc =
     (case hex_value c of None \<Rightarrow> None | Some d \<Rightarrow> hex_read cs (16 * acc + d))"

definition rfc4122_text :: "uuid \<Rightarrow> string" where
  "rfc4122_text u =
     (let h = hex_text 32 (unat u)
      in take 8 h @ ''-'' @ take 4 (drop 8 h) @ ''-'' @ take 4 (drop 12 h) @ ''-'' @
         take 4 (drop 16 h) @ ''-'' @ drop 20 h)"

definition rfc4122_read :: "string \<Rightarrow> uuid option" where
  "rfc4122_read s =
     (if length s = 36 \<and> s ! 8 = CHR ''-'' \<and> s ! 13 = CHR ''-'' \<and> s ! 18 = CHR ''-'' \<and> s ! 23 = CHR ''-''
      then map_option of_nat
        (hex_read (take 8 s @ take 4 (drop 9 s) @ take 4 (drop 14 s) @ take 4 (drop 19 s) @ drop 24 s) 0)
      else None)"

fun digits_text :: "nat \<Rightarrow> string" where
  "digits_text n =
     (if n < 10 then [char_of (48 + n)] else digits_text (n div 10) @ [char_of (48 + n mod 10)])"

declare digits_text.simps [simp del]

fun digits_read :: "string \<Rightarrow> nat \<Rightarrow> nat option" where
  "digits_read [] acc = Some acc"
| "digits_read (c # cs) acc =
     (let n = of_char c in
      if 48 \<le> n \<and> n \<le> 57 then digits_read cs (10 * acc + (n - 48)) else None)"

definition instant_text :: "time \<Rightarrow> string" where
  "instant_text t = (if t < 0 then CHR ''-'' # digits_text (nat (- t)) else digits_text (nat t))"

definition instant_read :: "string \<Rightarrow> time option" where
  "instant_read s =
     (if s \<noteq> [] \<and> hd s = CHR ''-'' then map_option (\<lambda>n. - int n) (digits_read (tl s) 0)
      else map_option int (digits_read s 0))"

definition canonical_codec :: codec where
  "canonical_codec =
     \<lparr>uuid_String = rfc4122_text, uuid_Parse = rfc4122_read,
      time_Format = instant_text, time_Parse = instant_read\<rparr>"

lemma length_hex_text [simp]: "length (hex_text k n) = k"
  by (induction k arbitrary: n) auto

lemma hex_read_append:
  "hex_read (xs @ ys) acc = (case hex_read xs acc of None \<Rightarrow> None | Some a \<Rightarrow> hex_read ys a)"
  by (induction xs arbitrary: acc) (auto split: option.splits)

lemma hex_value_digit:
  assumes "d < 16"
  shows "hex_value (char_of (if d < 10 then 48 + d else 87 + d :: nat)) = Some d"
  using assms by (auto simp: hex_value_def Let_def take_bit_nat_eq_self)

lemma hex_read_text: "n < 16 ^ k \<Longrightarrow> hex_read (hex_text k n) 0 = Some n"
proof (induction k arbitrary: n)
  case 0
  then show ?case by simp
next
  case (Suc k)
  then have "n div 16 < 16 ^ k"
    by (simp add: less_mult_imp_div_less mult.commute)
  then have "hex_read (hex_text k (n div 16)) 0 = Some (n div 16)"
    by (rule Suc.IH)
  moreover have "n mod 16 < 16" by simp
  ultimately show ?case
    using hex_value_digit [of "n mod 16"] by (simp add: hex_read_append)
qed

lemma split_8_4_4_4_12:
  fixes h :: "'a list"
  shows "take 8 h @ take 4 (drop 8 h) @ take 4 (drop 12 h) @ take 4 (drop 16 h) @ drop 20 h = h"
proof -
  have "take 4 (drop 16 h) @ drop 20 h = drop 16 h"
    using append_take_drop_id [of 4 "drop 16 h"] by simp
  moreover have "take 4 (drop 12 h) @ drop 16 h = drop 12 h"
    using append_take_drop_id [of 4 "drop 12 h"] by simp
  moreover have "take 4 (drop 8 h) @ drop 12 h = drop 8 h"
    using append_take_drop_id [of 4 "drop 8 h"] by simp
  ultimately show ?thesis by simp
qed

lemma rfc4122_read_text: "rfc4122_read (rfc4122_text u) = Some u"
proof -
  define h where "h = hex_text 32 (unat u)"
  have len: "length h = 32" unfolding h_def by (rule length_hex_text)
  have "unat u < 16 ^ 32"
    using unsigned_less [of u] by simp
  then have "hex_read h 0 = Some (unat u)"
    unfolding h_def by (rule hex_read_text)
  then have "hex_read (take 8 h @ take 4 (drop 8 h) @ take 4 (drop 12 h) @ take 4 (drop 16 h) @ drop 20 h) 0
      = Some (unat u)"
    by (simp only: split_8_4_4_4_12)
  then show ?thesis
    unfolding rfc4122_read_def rfc4122_text_def h_def [symmetric] Let_def
    by (simp add: len nth_append)
qed

lemma length_rfc4122_text: "length (rfc4122_text u) = 36"
  by (simp add: rfc4122_text_def Let_def del: hex_text.simps)

lemma digits_read_append:
  "digits_read (xs @ ys) acc = (case digits_read xs acc of None \<Rightarrow> None | Some a \<Rightarrow> digits_read ys a)"
  by (induction xs arbitrary: acc) (auto simp: Let_def)

lemma digits_read_text: "digits_read (digits_text n) 0 = Some n"
proof (induction n rule: digits_text.induct)
  case (1 n)
  show ?case
  proof (cases "n < 10")
    case True
    then show ?thesis
      by (simp add: digits_text.simps [of n] take_bit_nat_eq_self)
  next
    case False
    with 1 have "digits_read (digits_text (n div 10)) 0 = Some (n div 10)" by simp
    moreover have "n mod 10 < 10" by simp
    then have "48 + n mod 10 < 256" by linarith
    ultimately show ?thesis using False
      by (simp add: digits_text.simps [of n] digits_read_append take_bit_nat_eq_self)
  qed
qed

lemma digits_text_hd: "digits_text n \<noteq> [] \<and> hd (digits_text n) \<noteq> CHR ''-''"
proof (cases "digits_text n")
  case Nil
  then show ?thesis by (simp add: digits_text.simps [of n] split: if_splits)
next
  case (Cons c cs)
  with digits_read_text [of n] show ?thesis by (auto simp: Let_def)
qed

lemma instant_read_text: "instant_read (instant_text t) = Some t"
  using digits_text_hd [of "nat t"]
  by (auto simp: instant_read_def instant_text_def digits_read_text)

interpretation canonical: codec_laws canonical_codec
  by unfold_locales (simp_all add: canonical_codec_def rfc4122_read_text instant_read_text length_rfc4122_text)

end
