(* ===== verification/Order_State_Machine.thy ===== *)
theory Order_State_Machine
  imports Rush_Prelude
begin

text \<open>
  The order lifecycle: \<^verbatim>\<open>internal/order/statemachine.go\<close> and the status constants of
  \<^verbatim>\<open>internal/order/model.go\<close>.  A Go \<^verbatim>\<open>Status\<close> is a string, so the transition table is
  asked about any two strings.  The abstract lifecycle is a datatype with an inductive step
  relation; the table is shown to implement exactly that relation, and the shape of every run is
  derived from it.
\<close>

section \<open>The transition table\<close>

type_synonym Status = string

definition StatusPlaced :: Status where "StatusPlaced = ''PLACED''"
definition StatusAccepted :: Status where "StatusAccepted = ''ACCEPTED''"
definition StatusPreparing :: Status where "StatusPreparing = ''PREPARING''"
definition StatusPickedUp :: Status where "StatusPickedUp = ''PICKED_UP''"
definition StatusDelivered :: Status where "StatusDelivered = ''DELIVERED''"
definition StatusCancelled :: Status where "StatusCancelled = ''CANCELLED''"

lemmas status_defs = StatusPlaced_def StatusAccepted_def StatusPreparing_def
  StatusPickedUp_def StatusDelivered_def StatusCancelled_def

definition validTransitions :: "(Status \<times> Status list) list" where
  "validTransitions =
     [(StatusPlaced, [StatusAccepted, StatusCancelled]),
      (StatusAccepted, [StatusPreparing, StatusCancelled]),
      (StatusPreparing, [StatusPickedUp, StatusCancelled]),
      (StatusPickedUp, [StatusDelivered, StatusCancelled]),
      (StatusDelivered, []),
      (StatusCancelled, [])]"

text \<open>The arrow of the message is the three bytes of U+2192.\<close>

definition ValidateTransition :: "Status \<Rightarrow> Status \<Rightarrow> error option" where
  "ValidateTransition from to =
     (case map_of validTransitions from of
        None \<Rightarrow> Some (ErrorString (''unknown state: '' @ from))
      | Some allowed \<Rightarrow>
          if to \<in> set allowed then None
          else Some (ErrorString (''illegal transition: '' @ from @
                 [CHR '' '', CHR 0xE2, CHR 0x86, CHR 0x92, CHR '' ''] @ to)))"

text \<open>The statuses an order has gone through, every step accepted by the table.\<close>

fun legal_history :: "Status list \<Rightarrow> bool" where
  "legal_history [] = True"
| "legal_history [s] = (s \<in> set (map fst validTransitions))"
| "legal_history (s # t # ss) = (ValidateTransition s t = None \<and> legal_history (t # ss))"

section \<open>The abstract lifecycle\<close>

datatype order_state = Placed | Accepted | Preparing | PickedUp | Delivered | Cancelled

inductive lifecycle :: "order_state \<Rightarrow> order_state \<Rightarrow> bool" where
  accept: "lifecycle Placed Accepted"
| prepare: "lifecycle Accepted Preparing"
| pick_up: "lifecycle Preparing PickedUp"
| deliver: "lifecycle PickedUp Delivered"
| cancel: "s \<noteq> Delivered \<Longrightarrow> s \<noteq> Cancelled \<Longrightarrow> lifecycle s Cancelled"

inductive_cases lifecycleE: "lifecycle a b"

inductive_simps lifecycle_from [simp]:
  "lifecycle Placed b" "lifecycle Accepted b" "lifecycle Preparing b"
  "lifecycle PickedUp b" "lifecycle Delivered b" "lifecycle Cancelled b"

text \<open>Progress orders the states; every step goes strictly forward.\<close>

fun progress :: "order_state \<Rightarrow> nat" where
  "progress Placed = 0"
| "progress Accepted = 1"
| "progress Preparing = 2"
| "progress PickedUp = 3"
| "progress Delivered = 4"
| "progress Cancelled = 5"

lemma progress_inj: "progress a = progress b \<longleftrightarrow> a = b"
  by (cases a; cases b) simp_all

instantiation order_state :: linorder
begin

definition less_eq_order_state :: "order_state \<Rightarrow> order_state \<Rightarrow> bool" where
  "less_eq_order_state a b \<longleftrightarrow> progress a \<le> progress b"

definition less_order_state :: "order_state \<Rightarrow> order_state \<Rightarrow> bool" where
  "less_order_state a b \<longleftrightarrow> progress a < progress b"

instance
  by standard (auto simp: less_eq_order_state_def less_order_state_def progress_inj)

end

lemma lifecycle_forward: "lifecycle a b \<Longrightarrow> a < b"
  by (cases a) (auto simp: less_order_state_def)

text \<open>The representation of an abstract state in the program and in the database.\<close>

fun status_text :: "order_state \<Rightarrow> Status" where
  "status_text Placed = StatusPlaced"
| "status_text Accepted = StatusAccepted"
| "status_text Preparing = StatusPreparing"
| "status_text PickedUp = StatusPickedUp"
| "status_text Delivered = StatusDelivered"
| "status_text Cancelled = StatusCancelled"

definition known_status :: "Status \<Rightarrow> bool" where
  "known_status s \<longleftrightarrow>
     s \<in> set [''PLACED'', ''ACCEPTED'', ''PREPARING'', ''PICKED_UP'', ''DELIVERED'', ''CANCELLED'']"

definition terminal_status :: "Status \<Rightarrow> bool" where
  "terminal_status s \<longleftrightarrow> s = ''DELIVERED'' \<or> s = ''CANCELLED''"

lemma status_text_inj: "status_text a = status_text b \<longleftrightarrow> a = b"
  by (cases a; cases b) (simp_all add: status_defs)

lemma known_status_iff: "known_status s \<longleftrightarrow> (\<exists>a. s = status_text a)"
proof
  show "known_status s \<Longrightarrow> \<exists>a. s = status_text a"
    unfolding known_status_def
    by (auto simp: status_defs intro: exI [of _ Placed] exI [of _ Accepted] exI [of _ Preparing]
        exI [of _ PickedUp] exI [of _ Delivered] exI [of _ Cancelled])
  show "known_status s" if "\<exists>a. s = status_text a"
  proof -
    from that obtain a where "s = status_text a" ..
    then show ?thesis by (cases a) (simp_all add: known_status_def status_defs)
  qed
qed

lemma known_status_text [simp]: "known_status (status_text a)"
  by (auto simp: known_status_iff)

lemma map_of_validTransitions:
  "map_of validTransitions s \<noteq> None \<longleftrightarrow> known_status s"
  by (simp add: validTransitions_def known_status_def status_defs)

lemma ValidateTransition_text:
  "ValidateTransition (status_text a) (status_text b) = None \<longleftrightarrow> lifecycle a b"
  by (cases a; cases b)
    (simp_all add: ValidateTransition_def validTransitions_def status_defs)

lemma ValidateTransition_known:
  assumes "ValidateTransition f t = None"
  shows "known_status f \<and> known_status t"
proof -
  from assms obtain allowed where al: "map_of validTransitions f = Some allowed" "t \<in> set allowed"
    by (auto simp: ValidateTransition_def split: option.splits if_splits)
  then have "known_status f" by (metis map_of_validTransitions option.distinct(1))
  moreover from al have "known_status t"
    by (auto simp: validTransitions_def known_status_def status_defs split: if_splits)
  ultimately show ?thesis ..
qed

lemma ValidateTransition_iff:
  "ValidateTransition f t = None \<longleftrightarrow> (\<exists>a b. f = status_text a \<and> t = status_text b \<and> lifecycle a b)"
  using ValidateTransition_known [of f t]
  by (metis known_status_iff ValidateTransition_text)

text \<open>A legal history is the text of a chain of lifecycle steps, hence of an ascending list.\<close>

lemma legal_history_states:
  "legal_history ss \<Longrightarrow> \<exists>as. ss = map status_text as \<and> successively lifecycle as"
proof (induction ss rule: legal_history.induct)
  case (2 s)
  then have "known_status s"
    by (simp add: validTransitions_def known_status_def status_defs)
  then obtain a where "s = status_text a" by (auto simp: known_status_iff)
  then show ?case by (intro exI [of _ "[a]"]) simp
next
  case (3 s t ss)
  then obtain as where as: "t # ss = map status_text as" "successively lifecycle as"
    by (metis legal_history.simps(3))
  then obtain b bs where b: "as = b # bs" by (cases as) auto
  from 3 obtain a where "s = status_text a" "lifecycle a b"
    using as b by (auto simp: ValidateTransition_iff status_text_inj)
  with as b show ?case by (intro exI [of _ "a # as"]) simp
qed simp

lemma successively_lifecycle_sorted: "successively lifecycle as \<Longrightarrow> sorted_wrt (<) as"
  by (rule successively_conv_sorted_wrt [THEN iffD1])
    (auto intro: transpI successively_mono lifecycle_forward)

lemma lifecycle_to_delivered:
  "successively lifecycle (a # as) \<Longrightarrow> last (a # as) = Delivered \<Longrightarrow>
     a # as = drop (progress a) [Placed, Accepted, Preparing, PickedUp, Delivered]"
proof (induction as arbitrary: a)
  case (Cons b bs)
  then have "b # bs = drop (progress b) [Placed, Accepted, Preparing, PickedUp, Delivered]"
    by simp
  with Cons.prems show ?case by (cases a; cases b) auto
qed simp

lemma lifecycle_length: "successively lifecycle (a # as) \<Longrightarrow> min (progress a) 4 + length as \<le> 4"
proof (induction as arbitrary: a)
  case (Cons b bs)
  then have "min (progress b) 4 + length bs \<le> 4" by simp
  with Cons.prems show ?case by (cases a; cases b) auto
qed simp

lemma legal_history_map: "successively lifecycle (a # as) \<Longrightarrow> legal_history (map status_text (a # as))"
proof (induction as arbitrary: a)
  case Nil
  show ?case by (cases a) (simp_all add: validTransitions_def)
qed (simp add: ValidateTransition_text)

text \<open>
  C19: the transition table is the order lifecycle: \<open>ValidateTransition\<close> accepts a pair of
  strings exactly when they are the texts of two states with a lifecycle step between them, and
  its error names an unknown source state or the illegal pair.
\<close>

theorem ValidateTransition_refines_lifecycle:
  "ValidateTransition f t =
     (if \<exists>a b. f = status_text a \<and> t = status_text b \<and> lifecycle a b then None
      else if known_status f then
        Some (ErrorString (''illegal transition: '' @ f @
          [CHR '' '', CHR 0xE2, CHR 0x86, CHR 0x92, CHR '' ''] @ t))
      else Some (ErrorString (''unknown state: '' @ f)))"
proof (cases "ValidateTransition f t = None")
  case True
  then show ?thesis using ValidateTransition_iff [of f t] by simp
next
  case False
  moreover have "\<not> (\<exists>a b. f = status_text a \<and> t = status_text b \<and> lifecycle a b)"
    using False ValidateTransition_iff [of f t] by simp
  ultimately show ?thesis
    using map_of_validTransitions [of f]
    by (auto simp: ValidateTransition_def split: option.splits if_splits)
qed

text \<open>
  A history from PLACED to DELIVERED is legal exactly when it passes through ACCEPTED,
  PREPARING and PICKED_UP, in this order and with nothing else between.
\<close>

lemma delivered_history_unique:
  "legal_history (StatusPlaced # ss @ [StatusDelivered]) \<longleftrightarrow>
     ss = [StatusAccepted, StatusPreparing, StatusPickedUp]"
proof
  assume "legal_history (StatusPlaced # ss @ [StatusDelivered])"
  then obtain as where as: "StatusPlaced # ss @ [StatusDelivered] = map status_text as"
      "successively lifecycle as"
    by (metis legal_history_states)
  then obtain b bs where b: "as = b # bs" "status_text b = StatusPlaced" by (cases as) auto
  then have bP: "b = Placed" by (metis status_text.simps(1) status_text_inj)
  have "status_text (last as) = StatusDelivered"
    using as(1) b by (metis last.simps last_map last_snoc list.distinct(1) snoc_eq_iff_butlast)
  then have "last as = Delivered" by (metis status_text.simps(5) status_text_inj)
  then have "as = [Placed, Accepted, Preparing, PickedUp, Delivered]"
    using lifecycle_to_delivered [of Placed bs] as(2) b bP by simp
  with as(1) show "ss = [StatusAccepted, StatusPreparing, StatusPickedUp]" by simp
next
  assume "ss = [StatusAccepted, StatusPreparing, StatusPickedUp]"
  then show "legal_history (StatusPlaced # ss @ [StatusDelivered])"
    using legal_history_map [of Placed "[Accepted, Preparing, PickedUp, Delivered]"] by simp
qed

text \<open>
  The lifecycle terminates: a legal history never repeats a status and has at most five of
  them.
\<close>

lemma legal_history_bounded:
  "legal_history ss \<Longrightarrow> distinct ss \<and> length ss \<le> 5"
proof -
  assume "legal_history ss"
  then obtain as where as: "ss = map status_text as" "successively lifecycle as"
    by (metis legal_history_states)
  have "distinct as"
    using successively_lifecycle_sorted [OF as(2)] by (simp add: strict_sorted_iff)
  then have "distinct ss"
    unfolding as(1) by (simp add: distinct_map inj_on_def status_text_inj)
  moreover have "length as \<le> 5"
    using as(2) lifecycle_length by (cases as) fastforce+
  ultimately show ?thesis by (simp add: as(1))
qed

end
