(* ===== verification/Rush_Database.thy ===== *)
theory Rush_Database
  imports Rush_Json Order_State_Machine
begin

text \<open>
  The Postgres side of the model: the rows of the four tables of \<^verbatim>\<open>migrations/\<close> as records (the
  Go structs of \<^verbatim>\<open>internal/order/model.go\<close> and \<^verbatim>\<open>internal/rider/model.go\<close> have the columns
  of their tables), the database as a record of tables, the environment's answers to one
  transaction (which calls fail, \<open>NOW()\<close>, \<open>gen_random_uuid()\<close>), and transactions with their
  deferred rollback.  A transaction is one step: Postgres runs it on a snapshot and publishes its
  writes at commit.  An error of \<^verbatim>\<open>Commit\<close> may hide a commit that took place (\<open>Lost\<close>).

  A \<open>BIGSERIAL\<close> id is the position of the row: the two tables that have one are never
  deleted from (gaps left by rolled-back transactions are not modelled; ids are only compared).
\<close>

section \<open>Rows\<close>

record Order =
  order_ID :: uuid
  order_CustomerID :: uuid
  order_RiderID :: "uuid option"
  order_RestaurantID :: uuid
  order_Status :: Status
  order_TotalAmount :: float64
  order_DeliveryAddress :: string
  order_PickupLat :: float64
  order_PickupLng :: float64
  order_DropoffLat :: float64
  order_DropoffLng :: float64
  order_ETAMinutes :: "int option"
  order_CreatedAt :: time
  order_UpdatedAt :: time

record Rider =
  rider_ID :: uuid
  rider_Name :: string
  rider_Phone :: string
  rider_Status :: string
  rider_CreatedAt :: time
  rider_UpdatedAt :: time

record order_event =
  ev_id :: int
  ev_order_id :: uuid
  ev_event_type :: string
  ev_payload :: json
  ev_created_at :: time

record outbox_row =
  ob_id :: int
  ob_aggregate_id :: uuid
  ob_topic :: string
  ob_partition_key :: string
  ob_payload :: json
  ob_trace_context :: "json option"
  ob_created_at :: time
  ob_sent_at :: "time option"

record db =
  riders :: "Rider list"
  orders :: "Order list"
  order_events :: "order_event list"
  outbox :: "outbox_row list"

definition empty_db :: db where
  "empty_db = \<lparr>riders = [], orders = [], order_events = [], outbox = []\<rparr>"

section \<open>Transactions and the environment\<close>

record pg_env =
  begin_ok :: bool
  stmt_ok :: "nat \<Rightarrow> bool"
  commit_outcome :: outcome
  pg_now :: time
  pg_uuid :: uuid

definition pg_begin_error :: error where "pg_begin_error = ErrorString ''begin tx''"
definition pg_stmt_error :: error where "pg_stmt_error = ErrorString ''statement failed''"
definition pg_commit_error :: error where "pg_commit_error = ErrorString ''commit failed''"

text \<open>How a Go function leaves its transaction: by a return before the commit, which the deferred
  \<^verbatim>\<open>tx.Rollback\<close> undoes, or through \<^verbatim>\<open>tx.Commit\<close>.\<close>

datatype 'a tx_exit = Rollback "error + 'a" | Commit 'a

definition stmt :: "pg_env \<Rightarrow> nat \<Rightarrow> (db \<Rightarrow> error + 'a \<times> db) \<Rightarrow> db \<Rightarrow> error + 'a \<times> db" where
  "stmt e n s d = (if stmt_ok e n then s d else Inl pg_stmt_error)"

definition run_tx :: "pg_env \<Rightarrow> (db \<Rightarrow> 'a tx_exit \<times> db) \<Rightarrow> db \<Rightarrow> (error + 'a) \<times> db" where
  "run_tx e body d =
     (if \<not> begin_ok e then (Inl pg_begin_error, d)
      else case body d of
          (Rollback r, _) \<Rightarrow> (r, d)
        | (Commit x, d') \<Rightarrow>
            (case commit_outcome e of
               Done \<Rightarrow> (Inr x, d')
             | Failed \<Rightarrow> (Inl pg_commit_error, d)
             | Lost \<Rightarrow> (Inl pg_commit_error, d')))"

text \<open>A statement outside a transaction commits by itself; its error too may hide its effect.\<close>

definition autocommit :: "pg_env \<Rightarrow> (db \<Rightarrow> error + 'a \<times> db) \<Rightarrow> db \<Rightarrow> (error + 'a) \<times> db" where
  "autocommit e s d =
     (case s d of
        Inl err \<Rightarrow> (Inl err, d)
      | Inr (x, d') \<Rightarrow>
          (case commit_outcome e of
             Done \<Rightarrow> (Inr x, d')
           | Failed \<Rightarrow> (Inl pg_stmt_error, d)
           | Lost \<Rightarrow> (Inl pg_stmt_error, d')))"

section \<open>Constraints of the schema\<close>

definition known_rider_status :: "string \<Rightarrow> bool" where
  "known_rider_status s \<longleftrightarrow> s \<in> set [''OFFLINE'', ''AVAILABLE'', ''BUSY'']"

definition rider_exists :: "uuid \<Rightarrow> db \<Rightarrow> bool" where
  "rider_exists r d \<longleftrightarrow> list_ex (\<lambda>x. rider_ID x = r) (riders d)"

definition order_by_id :: "uuid \<Rightarrow> db \<Rightarrow> Order option" where
  "order_by_id i d = find (\<lambda>x. order_ID x = i) (orders d)"

definition rider_by_id :: "uuid \<Rightarrow> db \<Rightarrow> Rider option" where
  "rider_by_id i d = find (\<lambda>x. rider_ID x = i) (riders d)"

definition wf_db :: "db \<Rightarrow> bool" where
  "wf_db d \<longleftrightarrow>
     distinct (map rider_ID (riders d)) \<and>
     distinct (map rider_Phone (riders d)) \<and>
     list_all (\<lambda>r. known_rider_status (rider_Status r)) (riders d) \<and>
     distinct (map order_ID (orders d)) \<and>
     list_all (\<lambda>x. known_status (order_Status x)) (orders d) \<and>
     list_all (\<lambda>x. pred_option (\<lambda>r. rider_exists r d) (order_RiderID x)) (orders d) \<and>
     map ev_id (order_events d) = [1..int (length (order_events d))] \<and>
     map ob_id (outbox d) = [1..int (length (outbox d))]"

text \<open>Appending to the two tables with serial ids, as \<open>INSERT\<close> does.\<close>

definition insert_order_event ::
  "pg_env \<Rightarrow> uuid \<Rightarrow> string \<Rightarrow> json \<Rightarrow> db \<Rightarrow> error + unit \<times> db" where
  "insert_order_event e oid typ payload d =
     (case varchar 50 typ of
        None \<Rightarrow> Inl (ErrorString ''value too long for type character varying(50)'')
      | Some typ' \<Rightarrow>
          Inr ((), d\<lparr>order_events := order_events d @
            [\<lparr>ev_id = int (length (order_events d)) + 1, ev_order_id = oid,
              ev_event_type = typ', ev_payload = payload, ev_created_at = pg_now e\<rparr>]\<rparr>))"

definition insert_outbox ::
  "pg_env \<Rightarrow> uuid \<Rightarrow> string \<Rightarrow> string \<Rightarrow> json \<Rightarrow> json \<Rightarrow> db \<Rightarrow> error + unit \<times> db" where
  "insert_outbox e agg topic key payload tctx d =
     (case (varchar 100 topic, varchar 100 key) of
        (Some topic', Some key') \<Rightarrow>
          Inr ((), d\<lparr>outbox := outbox d @
            [\<lparr>ob_id = int (length (outbox d)) + 1, ob_aggregate_id = agg, ob_topic = topic',
              ob_partition_key = key', ob_payload = payload, ob_trace_context = Some tctx,
              ob_created_at = pg_now e, ob_sent_at = None\<rparr>]\<rparr>)
      | _ \<Rightarrow> Inl (ErrorString ''value too long for type character varying(100)''))"

section \<open>Lemmas\<close>

lemma wf_empty_db: "wf_db empty_db"
  by (simp add: wf_db_def empty_db_def)

lemma upto_snoc: "[1..1 + int n] = [1..int n] @ [int n + 1]"
  using upto_rec2 [of 1 "int n + 1"] by (simp add: add.commute)

lemma stmt_InrD: "stmt e n s d = Inr r \<Longrightarrow> s d = Inr r"
  by (auto simp: stmt_def split: if_splits)

lemma insert_order_event_wf:
  "insert_order_event e oid typ p d = Inr ((), d') \<Longrightarrow> wf_db d \<Longrightarrow> wf_db d'"
  by (auto simp: insert_order_event_def wf_db_def rider_exists_def upto_snoc split: option.splits)

lemma insert_outbox_wf:
  "insert_outbox e agg t k p c d = Inr ((), d') \<Longrightarrow> wf_db d \<Longrightarrow> wf_db d'"
  by (auto simp: insert_outbox_def wf_db_def rider_exists_def upto_snoc split: option.splits)

text \<open>The result of a transaction is the state before it or the whole effect of its body.\<close>

lemma run_tx_cases:
  assumes "run_tx e body d = (r, d')"
  obtains (kept) "d' = d"
  | (applied) x where "body d = (Commit x, d')"
  using assms
  by (auto simp: run_tx_def split: if_splits tx_exit.splits prod.splits outcome.splits)

lemma run_tx_Inr:
  assumes "run_tx e body d = (Inr x, d')"
  shows "body d = (Commit x, d') \<or> (d' = d \<and> (\<exists>d''. body d = (Rollback (Inr x), d'')))"
  using assms
  by (auto simp: run_tx_def split: if_splits tx_exit.splits prod.splits outcome.splits)

lemma autocommit_cases:
  assumes "autocommit e s d = (r, d')"
  obtains (kept) "d' = d"
  | (applied) x where "s d = Inr (x, d')"
  using assms by (auto simp: autocommit_def split: sum.splits prod.splits outcome.splits)

lemma autocommit_Inr: "autocommit e s d = (Inr x, d') \<Longrightarrow> s d = Inr (x, d')"
  by (auto simp: autocommit_def split: sum.splits prod.splits outcome.splits)

text \<open>
  The contract of a transaction body with respect to an invariant of the database; what
  every transaction of the program inherits from it.
\<close>

locale tx_contract =
  fixes body :: "db \<Rightarrow> 'a tx_exit \<times> db" and inv :: "db \<Rightarrow> bool"
  assumes commit_inv: "inv d \<Longrightarrow> body d = (Commit x, d') \<Longrightarrow> inv d'"
begin

lemma run_tx_inv: "inv d \<Longrightarrow> run_tx e body d = (r, d') \<Longrightarrow> inv d'"
  by (erule run_tx_cases) (auto intro: commit_inv)

lemma snd_run_tx_inv: "inv d \<Longrightarrow> inv (snd (run_tx e body d))"
  by (rule run_tx_inv [of d e "fst (run_tx e body d)"]) auto

end


section \<open>The active order of a rider\<close>

text \<open>
  \<^verbatim>\<open>WHERE rider_id = $1 AND status NOT IN ('DELIVERED','CANCELLED') ORDER BY created_at DESC LIMIT 1\<close>,
  which three services ask.
\<close>

definition latest_active_order :: "uuid \<Rightarrow> db \<Rightarrow> Order option" where
  "latest_active_order rid d =
     sql_latest order_CreatedAt
       (\<lambda>x. order_RiderID x = Some rid \<and> order_Status x \<notin> set [''DELIVERED'', ''CANCELLED'']) (orders d)"

lemma latest_active_order_Some:
  "latest_active_order rid d = Some x \<Longrightarrow>
     x \<in> set (orders d) \<and> order_RiderID x = Some rid \<and> \<not> terminal_status (order_Status x)
     \<and> (\<forall>y \<in> set (orders d). order_RiderID y = Some rid \<and> \<not> terminal_status (order_Status y)
          \<longrightarrow> order_CreatedAt y \<le> order_CreatedAt x)"
  unfolding latest_active_order_def by (drule sql_latest_Some) (auto simp: terminal_status_def)

lemma latest_active_order_None:
  "latest_active_order rid d = None \<longleftrightarrow>
     (\<forall>x \<in> set (orders d). order_RiderID x = Some rid \<longrightarrow> terminal_status (order_Status x))"
  by (auto simp: latest_active_order_def sql_latest_None terminal_status_def)

end
