(* ===== verification/Kafka_Bus.thy ===== *)
theory Kafka_Bus
  imports Rush_Json
begin

text \<open>
  \<^verbatim>\<open>pkg/kafka\<close>: the topic names, the header carrier that ferries the trace context, the producer,
  the consumer loop and the topic set-up.  The Kafka client \<^verbatim>\<open>segmentio/kafka-go\<close> is a parameter:
  its writer, its reader and its administrative connection are arguments of the definitions, and
  what their documentation promises is the content of the locales \<open>kafka_writer\<close> and
  \<open>kafka_reader\<close>.  A message body is kept as the JSON value it encodes.  Spans are
  opened in \<open>Tracing\<close>; here a context is the list of pairs the propagator writes for it.
\<close>

section \<open>Topics\<close>

definition TopicOrderPlaced :: string where "TopicOrderPlaced = ''order.placed''"
definition TopicOrderAssigned :: string where "TopicOrderAssigned = ''order.assigned''"
definition TopicOrderStatusUpdated :: string where "TopicOrderStatusUpdated = ''order.status.updated''"
definition TopicRiderLocationUpdate :: string where "TopicRiderLocationUpdate = ''rider.location.updated''"
definition TopicETAUpdated :: string where "TopicETAUpdated = ''eta.updated''"

lemmas topic_defs = TopicOrderPlaced_def TopicOrderAssigned_def TopicOrderStatusUpdated_def
  TopicRiderLocationUpdate_def TopicETAUpdated_def

definition AllTopics :: "string list" where
  "AllTopics = [TopicOrderPlaced, TopicOrderAssigned, TopicOrderStatusUpdated,
     TopicRiderLocationUpdate, TopicETAUpdated]"

section \<open>Messages and the header carrier\<close>

record header =
  hdr_Key :: string
  hdr_Value :: string

record message =
  msg_Topic :: string
  msg_Key :: string
  msg_Value :: json
  msg_Time :: time
  msg_Headers :: "header list"
  msg_Offset :: nat

fun carrier_Get :: "header list \<Rightarrow> string \<Rightarrow> string" where
  "carrier_Get [] key = ''''"
| "carrier_Get (h # hs) key = (if hdr_Key h = key then hdr_Value h else carrier_Get hs key)"

fun carrier_Set :: "header list \<Rightarrow> string \<Rightarrow> string \<Rightarrow> header list" where
  "carrier_Set [] key value = [\<lparr>hdr_Key = key, hdr_Value = value\<rparr>]"
| "carrier_Set (h # hs) key value =
     (if hdr_Key h = key then h\<lparr>hdr_Value := value\<rparr> # hs else h # carrier_Set hs key value)"

definition carrier_Keys :: "header list \<Rightarrow> string list" where
  "carrier_Keys hs = map hdr_Key hs"

text \<open>
  A trace context is the list of key/value pairs the OpenTelemetry propagator writes for it;
  \<^verbatim>\<open>Inject\<close> calls \<^verbatim>\<open>Set\<close> once per pair.
\<close>

type_synonym carrier = "(string \<times> string) list"

definition inject_headers :: "carrier \<Rightarrow> header list \<Rightarrow> header list" where
  "inject_headers tc hs = foldl (\<lambda>hs (k, v). carrier_Set hs k v) hs tc"

section \<open>Producer\<close>

type_synonym 'k writer = "message \<Rightarrow> 'k \<Rightarrow> error option \<times> 'k"

definition PublishRaw ::
  "'k writer \<Rightarrow> time \<Rightarrow> carrier \<Rightarrow> string \<Rightarrow> string \<Rightarrow> json \<Rightarrow> 'k \<Rightarrow> error option \<times> 'k" where
  "PublishRaw wr now tc topic key body k =
     wr \<lparr>msg_Topic = topic, msg_Key = key, msg_Value = body, msg_Time = now,
            msg_Headers = inject_headers tc [], msg_Offset = 0\<rparr> k"

text \<open>\<^verbatim>\<open>Publish\<close> marshals first; the payload argument is the outcome of \<^verbatim>\<open>json.Marshal\<close>.\<close>

definition Publish ::
  "'k writer \<Rightarrow> time \<Rightarrow> carrier \<Rightarrow> string \<Rightarrow> string \<Rightarrow> error + json \<Rightarrow> 'k \<Rightarrow> error option \<times> 'k" where
  "Publish wr now tc topic key payload k =
     (case payload of
        Inl e \<Rightarrow> (Some e, k)
      | Inr body \<Rightarrow> PublishRaw wr now tc topic key body k)"

section \<open>Consumer\<close>

datatype fetched = Fetched message | FetchError bool  \<comment> \<open>the flag: the context is done\<close>

record 'r reader =
  FetchMessage :: "'r \<Rightarrow> fetched \<times> 'r"
  CommitMessages :: "message \<Rightarrow> 'r \<Rightarrow> error option \<times> 'r"

type_synonym 's handler = "message \<Rightarrow> 's \<Rightarrow> error option \<times> 's"

text \<open>
  One round of the loop of \<^verbatim>\<open>Consumer.Run\<close>: \<open>True\<close> when it returns.  The loop itself has no
  bound; \<open>consumer_Run n\<close> is its first \<open>n\<close> rounds, with \<open>Some None\<close> the return of a nil error.
\<close>

definition consumer_round :: "'r reader \<Rightarrow> 's handler \<Rightarrow> 'r \<times> 's \<Rightarrow> bool \<times> 'r \<times> 's" where
  "consumer_round R h = (\<lambda>(r, s).
     (case FetchMessage R r of
        (FetchError done, r') \<Rightarrow> (done, r', s)
      | (Fetched m, r') \<Rightarrow>
          (case h m s of
             (Some err, s') \<Rightarrow> (False, r', s')
           | (None, s') \<Rightarrow> (case CommitMessages R m r' of (_, r'') \<Rightarrow> (False, r'', s')))))"

fun consumer_Run :: "nat \<Rightarrow> 'r reader \<Rightarrow> 's handler \<Rightarrow> 'r \<times> 's \<Rightarrow> error option option \<times> 'r \<times> 's" where
  "consumer_Run 0 R h rs = (None, rs)"
| "consumer_Run (Suc n) R h rs =
     (case consumer_round R h rs of
        (True, rs') \<Rightarrow> (Some None, rs')
      | (False, rs') \<Rightarrow> consumer_Run n R h rs')"

section \<open>Topic set-up\<close>

record topic_config =
  tc_Topic :: string
  tc_NumPartitions :: int
  tc_ReplicationFactor :: int

record 'k admin =
  adm_dial :: "string \<Rightarrow> 'k \<Rightarrow> error option"
  adm_ReadPartitions :: "'k \<Rightarrow> error + string list"
  adm_Controller :: "'k \<Rightarrow> error + string"
  adm_CreateTopics :: "topic_config list \<Rightarrow> 'k \<Rightarrow> error option \<times> 'k"

definition missing_topics :: "string list \<Rightarrow> string list \<Rightarrow> topic_config list" where
  "missing_topics existing topics =
     map (\<lambda>t. \<lparr>tc_Topic = t, tc_NumPartitions = 1, tc_ReplicationFactor = 1\<rparr>)
       (filter (\<lambda>t. t \<notin> set existing) topics)"

definition EnsureTopics :: "'k admin \<Rightarrow> string list \<Rightarrow> string list \<Rightarrow> 'k \<Rightarrow> error option \<times> 'k" where
  "EnsureTopics A brokers topics k =
     (case brokers of
        [] \<Rightarrow> (Some (ErrorString ''no brokers configured''), k)
      | b # _ \<Rightarrow>
          (case adm_dial A b k of
             Some e \<Rightarrow> (Some (WrapError ''dial broker: '' e ''''), k)
           | None \<Rightarrow>
               (case adm_ReadPartitions A k of
                  Inl e \<Rightarrow> (Some (WrapError ''read partitions: '' e ''''), k)
                | Inr parts \<Rightarrow>
                    let missing = missing_topics parts topics in
                    if missing = [] then (None, k)
                    else (case adm_Controller A k of
                        Inl e \<Rightarrow> (Some (WrapError ''get controller: '' e ''''), k)
                      | Inr addr \<Rightarrow>
                          (case adm_dial A addr k of
                             Some e \<Rightarrow> (Some (WrapError ''dial controller: '' e ''''), k)
                           | None \<Rightarrow>
                               (case adm_CreateTopics A missing k of
                                  (Some e, k') \<Rightarrow> (Some (WrapError ''create topics: '' e ''''), k')
                                | (None, k') \<Rightarrow> (None, k')))))))"

section \<open>Header carrier lemmas\<close>

lemma carrier_Get_Set:
  "carrier_Get (carrier_Set hs k v) k' = (if k' = k then v else carrier_Get hs k')"
  by (induction hs) auto

lemma carrier_Keys_Set:
  "carrier_Keys (carrier_Set hs k v) =
     (if k \<in> set (carrier_Keys hs) then carrier_Keys hs else carrier_Keys hs @ [k])"
  by (induction hs) (auto simp: carrier_Keys_def)

lemma inject_headers_Get:
  "distinct (map fst tc) \<Longrightarrow>
     carrier_Get (inject_headers tc hs) k =
       (case map_of tc k of Some v \<Rightarrow> v | None \<Rightarrow> carrier_Get hs k)"
proof (induction tc arbitrary: hs)
  case (Cons kv tc)
  obtain k1 v1 where kv: "kv = (k1, v1)" by (cases kv)
  from Cons.prems have "map_of tc k1 = None"
    by (auto simp: kv map_of_eq_None_iff)
  moreover have "carrier_Get (inject_headers (kv # tc) hs) k =
      (case map_of tc k of Some v \<Rightarrow> v | None \<Rightarrow> carrier_Get (carrier_Set hs k1 v1) k)"
    using Cons.IH [of "carrier_Set hs k1 v1"] Cons.prems by (simp add: inject_headers_def kv)
  ultimately show ?case
    by (auto simp: kv carrier_Get_Set split: option.splits)
qed (simp add: inject_headers_def)

lemma inject_headers_Keys:
  "set (carrier_Keys (inject_headers tc hs)) = set (carrier_Keys hs) \<union> fst ` set tc"
  by (induction tc arbitrary: hs) (auto simp: inject_headers_def carrier_Keys_Set split: if_splits)

lemma inject_headers_distinct:
  "distinct (carrier_Keys hs) \<Longrightarrow> distinct (carrier_Keys (inject_headers tc hs))"
  by (induction tc arbitrary: hs) (auto simp: inject_headers_def carrier_Keys_Set)

section \<open>Contracts of the Kafka client\<close>

text \<open>
  The writer: a nil error means the broker has the message (\<^verbatim>\<open>RequireAll\<close>); after an error it
  may or may not have it.  The view \<open>sent\<close> is the list of topic, key and body written so far.
\<close>

type_synonym event = "string \<times> string \<times> json"

definition event_of :: "message \<Rightarrow> event" where
  "event_of m = (msg_Topic m, msg_Key m, msg_Value m)"

locale publisher =
  fixes publish :: "'c \<Rightarrow> string \<Rightarrow> string \<Rightarrow> json \<Rightarrow> 'k \<Rightarrow> error option \<times> 'k"
    and sent :: "'k \<Rightarrow> event list"
  assumes publish_ok: "publish tc t key b k = (None, k') \<Longrightarrow> sent k' = sent k @ [(t, key, b)]"
    and publish_err: "publish tc t key b k = (Some e, k') \<Longrightarrow>
      sent k' = sent k \<or> sent k' = sent k @ [(t, key, b)]"

locale kafka_writer =
  fixes wr :: "'k writer" and written :: "'k \<Rightarrow> message list"
  assumes write_ok: "wr m k = (None, k') \<Longrightarrow>
      \<exists>off. written k' = written k @ [m\<lparr>msg_Offset := off\<rparr>]"
    and write_err: "wr m k = (Some e, k') \<Longrightarrow>
      written k' = written k \<or> (\<exists>off. written k' = written k @ [m\<lparr>msg_Offset := off\<rparr>])"
begin

lemma PublishRaw_ok:
  "PublishRaw wr now tc t key b k = (None, k') \<Longrightarrow>
     \<exists>off. written k' = written k @
       [\<lparr>msg_Topic = t, msg_Key = key, msg_Value = b, msg_Time = now,
         msg_Headers = inject_headers tc [], msg_Offset = off\<rparr>]"
  using write_ok by (fastforce simp: PublishRaw_def)

end

text \<open>The Go interface \<^verbatim>\<open>outbox.Publisher\<close> is implemented by \<^verbatim>\<open>Producer.PublishRaw\<close>.\<close>

sublocale kafka_writer \<subseteq> producer: publisher "PublishRaw wr now" "\<lambda>k. map event_of (written k)" for now
  by unfold_locales (use write_ok write_err in \<open>fastforce simp: PublishRaw_def event_of_def\<close>)+

context kafka_writer
begin

lemma is_publisher: "publisher (PublishRaw wr now) (\<lambda>k. map event_of (written k))"
  by (rule producer.publisher_axioms)

end

text \<open>
  The reader of one partition (\<^verbatim>\<open>EnsureTopics\<close> creates every topic with one): fetching returns
  the message at the read position and advances it, whatever the handler does later; committing a
  message commits every offset up to it.  The partition's log only grows.
\<close>

locale kafka_reader =
  fixes R :: "'r reader" and plog :: "'r \<Rightarrow> message list" and pos :: "'r \<Rightarrow> nat"
    and committed :: "'r \<Rightarrow> nat"
  assumes fetch_ok: "FetchMessage R r = (Fetched m, r') \<Longrightarrow>
      pos r < length (plog r') \<and> m = plog r' ! pos r \<and> msg_Offset m = pos r \<and>
      pos r' = Suc (pos r) \<and> committed r' = committed r \<and> prefix (plog r) (plog r')"
    and fetch_err: "FetchMessage R r = (FetchError c, r') \<Longrightarrow>
      pos r' = pos r \<and> committed r' = committed r \<and> prefix (plog r) (plog r')"
    and commit_ok: "CommitMessages R m r = (None, r') \<Longrightarrow>
      committed r' = max (committed r) (Suc (msg_Offset m)) \<and> pos r' = pos r \<and> plog r' = plog r"
    and commit_err: "CommitMessages R m r = (Some e, r') \<Longrightarrow>
      committed r' = committed r \<and> pos r' = pos r \<and> plog r' = plog r"

text \<open>The administrative connection: what it lists exists, and what it creates exists after.\<close>

locale kafka_admin =
  fixes A :: "'k admin" and topics_of :: "'k \<Rightarrow> string set"
  assumes read_ok: "adm_ReadPartitions A k = Inr ps \<Longrightarrow> set ps = topics_of k"
    and create_ok: "adm_CreateTopics A cfgs k = (None, k') \<Longrightarrow>
      topics_of k' = topics_of k \<union> tc_Topic ` set cfgs"
begin

lemma EnsureTopics_ok:
  assumes "EnsureTopics A bs ts k = (None, k')"
  shows "topics_of k' = topics_of k \<union> set ts \<and> (set ts \<subseteq> topics_of k \<longrightarrow> k' = k)"
proof -
  from assms obtain ps where ps: "adm_ReadPartitions A k = Inr ps"
    by (auto simp: EnsureTopics_def split: list.splits option.splits sum.splits)
  note read = read_ok [OF ps]
  have miss: "tc_Topic ` set (missing_topics ps ts) = set ts - topics_of k"
    by (auto simp: missing_topics_def read image_image)
  show ?thesis
  proof (cases "missing_topics ps ts = []")
    case True
    then have "set ts \<subseteq> topics_of k" using miss by auto
    with assms ps True show ?thesis
      by (auto simp: EnsureTopics_def Let_def split: list.splits option.splits)
  next
    case False
    with assms ps have "adm_CreateTopics A (missing_topics ps ts) k = (None, k')"
      by (auto simp: EnsureTopics_def Let_def split: list.splits option.splits sum.splits prod.splits)
    from create_ok [OF this] miss have "topics_of k' = topics_of k \<union> set ts" by auto
    moreover from False have "\<not> set ts \<subseteq> topics_of k"
      by (auto simp: missing_topics_def read filter_empty_conv)
    ultimately show ?thesis by simp
  qed
qed

end

context kafka_reader
begin

lemma round_advances:
  assumes "consumer_round R h (r, s) = (b, r', s')"
  shows "pos r \<le> pos r' \<and> committed r \<le> committed r' \<and> prefix (plog r) (plog r')"
proof (cases "FetchMessage R r")
  case (Pair f r1)
  show ?thesis
  proof (cases f)
    case (FetchError c)
    then show ?thesis using assms Pair fetch_err [of r c r1] by (simp add: consumer_round_def)
  next
    case (Fetched m)
    note f = fetch_ok [of r m r1, unfolded Pair Fetched, OF refl]
    obtain v s1 where h: "h m s = (v, s1)" by (cases "h m s")
    obtain c r2 where cm: "CommitMessages R m r1 = (c, r2)" by (cases "CommitMessages R m r1")
    have "committed r1 \<le> committed r2 \<and> pos r2 = pos r1 \<and> plog r2 = plog r1"
      using cm commit_ok [of m r1 r2] commit_err [of m r1 _ r2] by (cases c) auto
    then show ?thesis using assms f h cm Pair Fetched
      by (auto simp: consumer_round_def split: option.splits)
  qed
qed

lemma round_records:
  assumes "consumer_round R (\<lambda>m seen. (v m, seen @ [msg_Offset m])) (r, seen) = (b, r', seen')"
  shows "seen' = seen \<and> pos r' = pos r \<or> seen' = seen @ [pos r] \<and> pos r' = Suc (pos r)"
proof (cases "FetchMessage R r")
  case (Pair f r1)
  show ?thesis
  proof (cases f)
    case (FetchError c)
    then show ?thesis using assms Pair fetch_err [of r c r1] by (simp add: consumer_round_def)
  next
    case (Fetched m)
    note f = fetch_ok [of r m r1, unfolded Pair Fetched, OF refl]
    obtain c r2 where cm: "CommitMessages R m r1 = (c, r2)" by (cases "CommitMessages R m r1")
    have "pos r2 = pos r1"
      using cm commit_ok [of m r1 r2] commit_err [of m r1 _ r2] by (cases c) auto
    then show ?thesis using assms f cm Pair Fetched
      by (auto simp: consumer_round_def split: option.splits)
  qed
qed

lemma Run_records:
  assumes "consumer_Run n R (\<lambda>m seen. (v m, seen @ [msg_Offset m])) (r, seen) = (res, r', seen')"
  shows "\<exists>k. seen' = seen @ [pos r..<k] \<and> pos r' = k \<and> pos r \<le> k"
  using assms
proof (induction n arbitrary: r seen)
  case (Suc n)
  let ?h = "\<lambda>m seen. (v m, seen @ [msg_Offset m])"
  obtain b r1 seen1 where rd: "consumer_round R ?h (r, seen) = (b, r1, seen1)"
    by (cases "consumer_round R ?h (r, seen)") auto
  note one = round_records [OF rd]
  show ?case
  proof (cases b)
    case True
    with Suc.prems rd one show ?thesis
      by (auto intro: exI [of _ "Suc (pos r)"])
  next
    case False
    with Suc.prems rd have "consumer_Run n R ?h (r1, seen1) = (res, r', seen')" by simp
    from Suc.IH [OF this] obtain k where k: "seen' = seen1 @ [pos r1..<k]" "pos r' = k" "pos r1 \<le> k"
      by blast
    with one show ?thesis
      by (auto simp: upt_conv_Cons intro!: exI [of _ k])
  qed
qed auto

text \<open>
  The reference semantics of the loop: as long as messages are there and fetching works, it is a
  fold of the handler over the log from the read position, whatever the handler answers.
\<close>

lemma prefix_take_drop:
  "prefix L L' \<Longrightarrow> n + p \<le> length L \<Longrightarrow> take n (drop p L') = take n (drop p L)"
  by (auto simp: prefix_def)

lemma round_folds:
  assumes "FetchMessage R r = (Fetched m, r1)"
  shows "\<exists>r2. consumer_round R h (r, s) = (False, r2, snd (h m s)) \<and> pos r2 = Suc (pos r) \<and> prefix (plog r) (plog r2)"
proof -
  note f = fetch_ok [OF assms]
  obtain v s1 where h: "h m s = (v, s1)" by fastforce
  obtain c r2 where cm: "CommitMessages R m r1 = (c, r2)" by fastforce
  have "pos r2 = pos r1 \<and> plog r2 = plog r1"
    using cm commit_ok [of m r1 r2] commit_err [of m r1 _ r2] by (cases c) auto
  with assms f h cm show ?thesis by (cases v) (auto simp: consumer_round_def)
qed

lemma Run_folds:
  assumes fetches: "\<And>r. pos r < length (plog r) \<Longrightarrow> \<exists>m r'. FetchMessage R r = (Fetched m, r')"
  shows "pos r + n \<le> length (plog r) \<Longrightarrow>
     \<exists>r'. consumer_Run n R h (r, s) = (None, r', fold (\<lambda>m s. snd (h m s)) (take n (drop (pos r) (plog r))) s)
       \<and> pos r' = pos r + n"
proof (induction n arbitrary: r s)
  case (Suc n)
  then have lt: "pos r < length (plog r)" by simp
  then obtain m r1 where f: "FetchMessage R r = (Fetched m, r1)" using fetches by blast
  have m: "m = plog r ! pos r"
    using fetch_ok [OF f] lt by (auto simp: prefix_def nth_append)
  from round_folds [OF f, of h s] obtain r2 where
    r2: "consumer_round R h (r, s) = (False, r2, snd (h m s))" "pos r2 = Suc (pos r)" "prefix (plog r) (plog r2)"
    by (elim exE conjE)
  have "pos r2 + n \<le> length (plog r2)"
    using prefix_length_le [OF r2(3)] r2(2) Suc.prems by linarith
  from Suc.IH [OF this, of "snd (h m s)"] obtain r' where r':
    "consumer_Run n R h (r2, snd (h m s)) =
       (None, r', fold (\<lambda>m s. snd (h m s)) (take n (drop (pos r2) (plog r2))) (snd (h m s)))" "pos r' = pos r2 + n"
    by blast
  have "take n (drop (pos r2) (plog r2)) = take n (drop (Suc (pos r)) (plog r))"
    using prefix_take_drop [OF r2(3), of n "Suc (pos r)"] r2(2) Suc.prems by simp
  moreover have "take (Suc n) (drop (pos r) (plog r)) = m # take n (drop (Suc (pos r)) (plog r))"
    using lt m by (simp add: Cons_nth_drop_Suc [symmetric])
  moreover have "consumer_Run (Suc n) R h (r, s) = consumer_Run n R h (r2, snd (h m s))"
    using r2(1) by simp
  ultimately show ?case
    using r' r2(2) by (intro exI [of _ r']) (simp only: fold_simps add_Suc add_Suc_right simp_thms)
qed simp

lemma Run_return_nil:
  "consumer_Run n R h rs = (Some res, rs') \<Longrightarrow> res = None"
  by (induction n arbitrary: rs) (auto split: prod.splits bool.splits)

lemma Run_commit_monotone:
  "consumer_Run n R h (r, s) = (res, r', s') \<Longrightarrow> committed r \<le> committed r' \<and> pos r \<le> pos r'"
proof (induction n arbitrary: r s)
  case (Suc n)
  obtain b r1 s1 where rd: "consumer_round R h (r, s) = (b, r1, s1)"
    by (cases "consumer_round R h (r, s)") auto
  note one = round_advances [OF rd]
  show ?case
  proof (cases b)
    case True
    with Suc.prems rd one show ?thesis by simp
  next
    case False
    with Suc.prems rd have "consumer_Run n R h (r1, s1) = (res, r', s')" by simp
    from Suc.IH [OF this] one show ?thesis by simp
  qed
qed simp

end

text \<open>
  A consumer group over its restarts: a process that stops or is killed is replaced by one that
  starts at the committed offset.  \<open>consumer_epochs ns\<close> is a sequence of processes, each stopped after some
  rounds of its loop; \<open>recording\<close> notes the offsets whose handling succeeded.
\<close>

locale kafka_group = kafka_reader +
  fixes restart :: "'a \<Rightarrow> 'a"
  assumes restart_ok: "pos (restart r) = committed r \<and> committed (restart r) = committed r
      \<and> prefix (plog r) (plog (restart r))"

fun consumer_epochs :: "nat list \<Rightarrow> 'r reader \<Rightarrow> ('r \<Rightarrow> 'r) \<Rightarrow> 's handler \<Rightarrow> 'r \<times> 's \<Rightarrow> 'r \<times> 's" where
  "consumer_epochs [] R restart h rs = rs"
| "consumer_epochs (n # ns) R restart h rs =
     (case consumer_Run n R h rs of (_, r', s') \<Rightarrow> consumer_epochs ns R restart h (restart r', s'))"

definition recording :: "'s handler \<Rightarrow> ('s \<times> nat list) handler" where
  "recording h m = (\<lambda>(s, seen).
     (case h m s of (None, s') \<Rightarrow> (None, s', seen @ [msg_Offset m]) | (Some e, s') \<Rightarrow> (Some e, s', seen)))"

text \<open>Every offset from \<open>c0\<close> up to the read position has been handled.\<close>

definition handled_up_to :: "nat \<Rightarrow> nat \<Rightarrow> nat \<Rightarrow> nat list \<Rightarrow> bool" where
  "handled_up_to c0 c p seen \<longleftrightarrow> c \<le> p \<and> {c0..<p} \<subseteq> set seen"

context kafka_reader
begin

lemma round_handles:
  assumes ok: "\<And>m s. fst (h m s) = None" and "handled_up_to c0 (committed r) (pos r) seen"
    and "consumer_round R (recording h) (r, s, seen) = (b, r', s', seen')"
  shows "handled_up_to c0 (committed r') (pos r') seen'"
proof (cases "FetchMessage R r")
  case (Pair f r1)
  show ?thesis
  proof (cases f)
    case (FetchError c)
    with assms Pair fetch_err [of r c r1] show ?thesis by (simp add: consumer_round_def)
  next
    case (Fetched m)
    note f = fetch_ok [of r m r1, unfolded Pair Fetched, OF refl]
    obtain s1 where h: "h m s = (None, s1)" using ok [of m s] by (metis prod.collapse)
    obtain c r2 where cm: "CommitMessages R m r1 = (c, r2)" by fastforce
    have res: "r' = r2" "seen' = seen @ [pos r]"
      using assms(3) h cm f Pair Fetched by (auto simp: consumer_round_def recording_def)
    have "committed r2 \<le> Suc (pos r)" "pos r2 = Suc (pos r)"
      using cm commit_ok [of m r1 r2] commit_err [of m r1 _ r2] f assms(2)
      by (cases c; simp add: handled_up_to_def)+
    with assms(2) show ?thesis unfolding res handled_up_to_def by (auto simp: less_Suc_eq)
  qed
qed

lemma Run_handles:
  assumes ok: "\<And>m s. fst (h m s) = None"
  shows "handled_up_to c0 (committed r) (pos r) seen \<Longrightarrow>
     consumer_Run n R (recording h) (r, s, seen) = (v, r', s', seen') \<Longrightarrow>
     handled_up_to c0 (committed r') (pos r') seen'"
proof (induction n arbitrary: r s seen)
  case (Suc n)
  obtain b r1 s1 seen1 where rd: "consumer_round R (recording h) (r, s, seen) = (b, r1, s1, seen1)"
    by (metis prod_cases4)
  from round_handles [OF ok Suc.prems(1) rd] have one: "handled_up_to c0 (committed r1) (pos r1) seen1" .
  show ?case
  proof (cases b)
    case True
    with Suc.prems(2) rd one show ?thesis by simp
  next
    case False
    with Suc.prems(2) rd have "consumer_Run n R (recording h) (r1, s1, seen1) = (v, r', s', seen')" by simp
    from Suc.IH [OF one this] show ?thesis .
  qed
qed simp

end

context kafka_group
begin

lemma epochs_handle:
  assumes ok: "\<And>m s. fst (h m s) = None"
  shows "handled_up_to c0 (committed r) (pos r) seen \<Longrightarrow>
     consumer_epochs ns R restart (recording h) (r, s, seen) = (r', s', seen') \<Longrightarrow>
     handled_up_to c0 (committed r') (pos r') seen'"
proof (induction ns arbitrary: r s seen)
  case (Cons n ns)
  obtain v r1 s1 seen1 where run: "consumer_Run n R (recording h) (r, s, seen) = (v, r1, s1, seen1)"
    by (metis prod_cases4)
  from Run_handles [OF ok Cons.prems(1) run] have "handled_up_to c0 (committed r1) (pos r1) seen1" .
  then have "handled_up_to c0 (committed (restart r1)) (pos (restart r1)) seen1"
    using restart_ok [of r1] by (auto simp: handled_up_to_def)
  from Cons.IH [OF this] Cons.prems(2) run show ?case by simp
qed simp

end

text \<open>
  The contract of a message handler with respect to an invariant of the state it works on; the
  consumer loop keeps the invariant for any reader.
\<close>

locale message_handler =
  fixes h :: "'s handler" and inv :: "'s \<Rightarrow> bool"
  assumes handler_inv: "inv s \<Longrightarrow> inv (snd (h m s))"
begin

lemma round_inv: "inv s \<Longrightarrow> inv (snd (snd (consumer_round R h (r, s))))"
  using handler_inv [of s]
  by (auto simp: consumer_round_def split: prod.splits fetched.splits option.splits)
    (metis snd_conv)+

lemma Run_inv: "inv s \<Longrightarrow> inv (snd (snd (consumer_Run n R h (r, s))))"
proof (induction n arbitrary: r s)
  case (Suc n)
  obtain b r1 s1 where rd: "consumer_round R h (r, s) = (b, r1, s1)"
    by (cases "consumer_round R h (r, s)") auto
  with round_inv [OF Suc.prems, of R r] have "inv s1" by simp
  with Suc.IH rd show ?case by (cases b) auto
qed simp

end

section \<open>A concrete broker\<close>

text \<open>
  An in-memory partition and broker that meet the contracts: an append-only log, a read position,
  a committed offset, and a script of write outcomes.
\<close>

record partition =
  p_log :: "message list"
  p_pos :: nat
  p_committed :: nat

definition p_messages :: "partition \<Rightarrow> message list" where
  "p_messages p = map (\<lambda>(i, m). m\<lparr>msg_Offset := i\<rparr>) (enumerate 0 (p_log p))"

definition partition_reader :: "partition reader" where
  "partition_reader =
     \<lparr>FetchMessage = (\<lambda>p. if p_pos p < length (p_log p)
        then (Fetched (p_messages p ! p_pos p), p\<lparr>p_pos := Suc (p_pos p)\<rparr>)
        else (FetchError True, p)),
      CommitMessages = (\<lambda>m p. (None, p\<lparr>p_committed := max (p_committed p) (Suc (msg_Offset m))\<rparr>))\<rparr>"

record broker =
  b_log :: "message list"
  b_script :: "outcome list"

definition broker_write :: "broker writer" where
  "broker_write m b =
     (let stored = b\<lparr>b_log := b_log b @ [m\<lparr>msg_Offset := length (b_log b)\<rparr>], b_script := tl (b_script b)\<rparr>
      in case b_script b of
           Failed # rest \<Rightarrow> (Some (ErrorString ''kafka unavailable''), b\<lparr>b_script := rest\<rparr>)
         | Lost # rest \<Rightarrow> (Some (ErrorString ''kafka timeout''), stored)
         | _ \<Rightarrow> (None, stored))"

interpretation broker: kafka_writer broker_write b_log
  by unfold_locales
    (auto simp: broker_write_def Let_def split: list.splits outcome.splits)

interpretation partition: kafka_reader partition_reader p_messages p_pos p_committed
  by unfold_locales
    (auto simp: partition_reader_def p_messages_def nth_enumerate_eq split: if_splits)

text \<open>A process that takes over starts at the committed offset.\<close>

definition partition_restart :: "partition \<Rightarrow> partition" where
  "partition_restart p = p\<lparr>p_pos := p_committed p\<rparr>"

interpretation partition_group: kafka_group partition_reader p_messages p_pos p_committed partition_restart
  by unfold_locales (simp add: partition_restart_def p_messages_def)

definition topic_list_admin :: "string list admin" where
  "topic_list_admin =
     \<lparr>adm_dial = (\<lambda>_ _. None), adm_ReadPartitions = Inr, adm_Controller = (\<lambda>_. Inr ''kafka:9092''),
      adm_CreateTopics = (\<lambda>cfgs ts. (None, ts @ map tc_Topic cfgs))\<rparr>"

interpretation topic_list: kafka_admin topic_list_admin set
  by unfold_locales (auto simp: topic_list_admin_def)

section \<open>Examples and remarks\<close>

definition example_message :: message where
  "example_message = \<lparr>msg_Topic = TopicOrderPlaced, msg_Key = ''k'', msg_Value = JNull, msg_Time = 0,
     msg_Headers = [], msg_Offset = 0\<rparr>"

definition example_partition :: partition where
  "example_partition = \<lparr>p_log = [example_message, example_message], p_pos = 0, p_committed = 0\<rparr>"

lemmas example_partition_simps = example_partition_def example_message_def partition_reader_def
  p_messages_def consumer_round_def numeral_2_eq_2

text \<open>
  A message whose handler failed is lost as soon as the next one succeeds: the commit of the
  later message moves the committed offset past the failed one, so not even a restarted consumer
  group receives it again.
\<close>

lemma commit_skips_failed_message:
  assumes "kafka_reader R plog pos committed"
    and "FetchMessage R r = (Fetched m, r1)" and "h m s = (Some err, s1)"
    and "FetchMessage R r1 = (Fetched m2, r2)" and "h m2 s1 = (None, s2)"
    and "CommitMessages R m2 r2 = (None, r3)"
  shows "consumer_Run 2 R h (r, s) = (None, r3, s2) \<and> msg_Offset m < committed r3 \<and> msg_Offset m < pos r3"
proof -
  note f1 = kafka_reader.fetch_ok [OF assms(1) assms(2)]
  note f2 = kafka_reader.fetch_ok [OF assms(1) assms(4)]
  note c = kafka_reader.commit_ok [OF assms(1) assms(6)]
  have "consumer_Run 2 R h (r, s) = (None, r3, s2)"
    using assms(2-) by (simp add: consumer_round_def numeral_2_eq_2)
  with f1 f2 c show ?thesis by auto
qed

text \<open>
  A published message carries the trace context: its topic, key and body are the caller's, a
  consumer reads back every propagated value by its key, and no header key occurs twice.
\<close>

lemma published_message_carries_trace:
  assumes "kafka_writer wr written" and "distinct (map fst tc)"
    and "PublishRaw wr now tc t key b k = (None, k')"
  shows "\<exists>m. written k' = written k @ [m] \<and> event_of m = (t, key, b)
     \<and> (\<forall>x. carrier_Get (msg_Headers m) x = (case map_of tc x of Some v \<Rightarrow> v | None \<Rightarrow> ''''))
     \<and> distinct (carrier_Keys (msg_Headers m))"
proof -
  from kafka_writer.PublishRaw_ok [OF assms(1,3)] obtain off where
    w: "written k' = written k @ [\<lparr>msg_Topic = t, msg_Key = key, msg_Value = b, msg_Time = now,
         msg_Headers = inject_headers tc [], msg_Offset = off\<rparr>]" by blast
  have "distinct (carrier_Keys (inject_headers tc []))"
    by (rule inject_headers_distinct) (simp add: carrier_Keys_def)
  with w show ?thesis
    by (auto simp: event_of_def inject_headers_Get [OF assms(2)] split: option.splits)
qed

text \<open>
  A running consumer hands every message of the partition to its handler exactly once, in
  offset order, whether or not the handler fails: the offsets handled by any number of rounds are
  the consecutive ones from the starting position.  A message whose handler failed is not seen
  again by the loop.
\<close>

lemma consumer_handles_each_offset_once:
  assumes "kafka_reader R plog pos committed"
    and "consumer_Run n R (\<lambda>m seen. (verdict m, seen @ [msg_Offset m])) (r, []) = (res, r', seen)"
  shows "seen = [pos r..<pos r']"
  using kafka_reader.Run_records [OF assms(1), OF assms(2)] by auto

section \<open>Properties\<close>

text \<open>
  C22: the consumer loop is a fold of its handler over the partition's log: while fetching works,
  \<open>n\<close> rounds from a position with \<open>n\<close> messages ahead give the handler exactly these messages, in order and
  each under the state the previous one left, whether handling or committing them fails or not, and
  the loop goes on.
\<close>

theorem consumer_folds_log:
  assumes "kafka_reader R plog pos committed"
    and "\<And>r. pos r < length (plog r) \<Longrightarrow> \<exists>m r'. FetchMessage R r = (Fetched m, r')"
    and "pos r + n \<le> length (plog r)"
  shows "\<exists>r'. consumer_Run n R h (r, s) = (None, r', fold (\<lambda>m s. snd (h m s)) (take n (drop (pos r) (plog r))) s)
     \<and> pos r' = pos r + n"
  by (rule kafka_reader.Run_folds [OF assms])

theorem consumer_folds_log_witness:
  "\<exists>r'. consumer_Run 2 partition_reader (\<lambda>m n. (Some (ErrorString ''db down''), n + 1)) (example_partition, 0)
     = (None, r', 2 :: nat) \<and> p_pos r' = 2"
  using consumer_folds_log [OF partition.kafka_reader_axioms, of example_partition 2
      "\<lambda>m n. (Some (ErrorString ''db down''), n + 1)" 0]
  by (simp add: example_partition_simps enumerate_eq_zip)



end
