(* ===== verification/Outbox.thy ===== *)
theory Outbox
  imports Rush_Database Kafka_Bus
begin

text \<open>
  \<^verbatim>\<open>internal/outbox\<close>: the writer that stores an event in the caller's transaction
  (\<^verbatim>\<open>outbox.go\<close>) and the relay that polls unsent rows and publishes them (\<^verbatim>\<open>relay.go\<close>).  The relay
  is proved against the contract \<open>publisher\<close> of the Go interface \<^verbatim>\<open>Publisher\<close>: no row is
  marked sent without its event being published, a failed batch leaves every row unsent, a
  successful one publishes its rows in id order, and successful ticks drain the table.
\<close>

section \<open>Writing\<close>

text \<open>
  \<open>outbox_Write e n\<close> uses statement \<open>n\<close> of the transaction.  The payload argument is the outcome of
  \<^verbatim>\<open>json.Marshal\<close>; the carrier is what the propagator injects for the request's context.
\<close>

definition outbox_Write ::
  "pg_env \<Rightarrow> nat \<Rightarrow> carrier \<Rightarrow> uuid \<Rightarrow> string \<Rightarrow> string \<Rightarrow> error + json \<Rightarrow> db \<Rightarrow> error + unit \<times> db" where
  "outbox_Write e n tc aggregateID topic partitionKey payload d =
     (case payload of
        Inl err \<Rightarrow> Inl err
      | Inr body \<Rightarrow>
          stmt e n (insert_outbox e aggregateID topic partitionKey body (json_strings tc)) d)"

section \<open>The relay\<close>

text \<open>
  \<^verbatim>\<open>SELECT ... WHERE sent_at IS NULL ORDER BY id LIMIT n FOR UPDATE SKIP LOCKED\<close>: \<open>locked\<close> tells
  which ids other transactions hold locks on.
\<close>

definition select_unsent :: "(int \<Rightarrow> bool) \<Rightarrow> nat \<Rightarrow> db \<Rightarrow> outbox_row list" where
  "select_unsent locked n d =
     take n (filter (\<lambda>r. ob_sent_at r = None \<and> \<not> locked (ob_id r)) (sort_key ob_id (outbox d)))"

text \<open>A stored trace context is used when it decodes to a map of strings; \<open>extract\<close> is the
  propagator's \<^verbatim>\<open>Extract\<close>.\<close>

fun dec_carrier :: "(string \<times> json) list \<Rightarrow> carrier option" where
  "dec_carrier [] = Some []"
| "dec_carrier ((k, JStr v) # kvs) = map_option ((#) (k, v)) (dec_carrier kvs)"
| "dec_carrier ((k, JNull) # kvs) = map_option ((#) (k, '''')) (dec_carrier kvs)"
| "dec_carrier _ = None"

definition publish_context :: "('c \<Rightarrow> carrier \<Rightarrow> 'c) \<Rightarrow> 'c \<Rightarrow> json option \<Rightarrow> 'c" where
  "publish_context extract ctx tctx =
     (case tctx of
        Some (JObj kvs) \<Rightarrow> (case dec_carrier kvs of Some c \<Rightarrow> extract ctx c | None \<Rightarrow> ctx)
      | Some JNull \<Rightarrow> extract ctx []
      | _ \<Rightarrow> ctx)"

type_synonym ('c, 'k) publish = "'c \<Rightarrow> string \<Rightarrow> string \<Rightarrow> json \<Rightarrow> 'k \<Rightarrow> error option \<times> 'k"

fun publish_batch ::
  "(json option \<Rightarrow> 'c) \<Rightarrow> ('c, 'k) publish \<Rightarrow> outbox_row list \<Rightarrow> 'k \<Rightarrow> (error + int list) \<times> 'k" where
  "publish_batch pctx pub [] k = (Inr [], k)"
| "publish_batch pctx pub (it # rest) k =
     (case pub (pctx (ob_trace_context it)) (ob_topic it) (ob_partition_key it) (ob_payload it) k of
        (Some err, k') \<Rightarrow>
          (Inl (WrapError (''publish id='' @ instant_text (ob_id it) @ '' topic='' @ ob_topic it @ '': '') err ''''), k')
      | (None, k') \<Rightarrow>
          (case publish_batch pctx pub rest k' of
             (Inl err, k'') \<Rightarrow> (Inl err, k'')
           | (Inr ids, k'') \<Rightarrow> (Inr (ob_id it # ids), k'')))"

definition mark_sent :: "time \<Rightarrow> int list \<Rightarrow> db \<Rightarrow> db" where
  "mark_sent now ids d =
     d\<lparr>outbox := sql_update (\<lambda>r. ob_id r \<in> set ids) (\<lambda>r. r\<lparr>ob_sent_at := Some now\<rparr>) (outbox d)\<rparr>"

definition dispatch ::
  "pg_env \<Rightarrow> (int \<Rightarrow> bool) \<Rightarrow> nat \<Rightarrow> (json option \<Rightarrow> 'c) \<Rightarrow> ('c, 'k) publish \<Rightarrow> db \<times> 'k
     \<Rightarrow> error option \<times> db \<times> 'k" where
  "dispatch e locked batchSize pctx pub = (\<lambda>(d, k).
     (if \<not> begin_ok e then (Some (WrapError ''begin: '' pg_begin_error ''''), d, k)
      else if \<not> stmt_ok e 0 then (Some (WrapError ''select unsent: '' pg_stmt_error ''''), d, k)
      else if \<not> stmt_ok e 1 then (Some (WrapError ''scan: '' pg_stmt_error ''''), d, k)
      else if \<not> stmt_ok e 2 then (Some (WrapError ''rows err: '' pg_stmt_error ''''), d, k)
      else let batch = select_unsent locked batchSize d in
        if batch = [] then (None, d, k)
        else (case publish_batch pctx pub batch k of
            (Inl err, k') \<Rightarrow> (Some err, d, k')
          | (Inr ids, k') \<Rightarrow>
              if \<not> stmt_ok e 3 then (Some (WrapError ''mark sent: '' pg_stmt_error ''''), d, k')
              else (case commit_outcome e of
                  Done \<Rightarrow> (None, mark_sent (pg_now e) ids d, k')
                | Failed \<Rightarrow> (Some (WrapError ''commit: '' pg_commit_error ''''), d, k')
                | Lost \<Rightarrow> (Some (WrapError ''commit: '' pg_commit_error ''''),
                             mark_sent (pg_now e) ids d, k')))))"

text \<open>\<^verbatim>\<open>NewRelay\<close> fixes the batch size.  \<^verbatim>\<open>Run\<close> dispatches at every tick until the context is
  done, whatever the outcome; its ticks come with the answers of the environment.\<close>

definition relay_batchSize :: nat where
  "relay_batchSize = 100"

record tick =
  tick_env :: pg_env
  tick_locked :: "int \<Rightarrow> bool"

fun relay_Run :: "(json option \<Rightarrow> 'c) \<Rightarrow> ('c, 'k) publish \<Rightarrow> tick list \<Rightarrow> db \<times> 'k \<Rightarrow> db \<times> 'k" where
  "relay_Run pctx pub [] dk = dk"
| "relay_Run pctx pub (t # ts) dk =
     relay_Run pctx pub ts
       (snd (dispatch (tick_env t) (tick_locked t) relay_batchSize pctx pub dk))"

section \<open>Views of the outbox table\<close>

definition row_event :: "outbox_row \<Rightarrow> event" where
  "row_event r = (ob_topic r, ob_partition_key r, ob_payload r)"

definition unsent :: "db \<Rightarrow> outbox_row list" where
  "unsent d = filter (\<lambda>r. ob_sent_at r = None) (outbox d)"

definition sent_rows :: "db \<Rightarrow> outbox_row list" where
  "sent_rows d = filter (\<lambda>r. ob_sent_at r \<noteq> None) (outbox d)"

section \<open>Lemmas\<close>

lemma dec_carrier_strings: "dec_carrier (map (\<lambda>(k, v). (k, JStr v)) tc) = Some tc"
  by (induction tc) auto

lemma publish_context_strings: "publish_context extract ctx (Some (json_strings tc)) = extract ctx tc"
  by (simp add: publish_context_def json_strings_def dec_carrier_strings)

lemma wf_outbox_sorted: "wf_db d \<Longrightarrow> sort_key ob_id (outbox d) = outbox d"
  by (rule sort_key_id_if_sorted) (simp add: wf_db_def)

lemma wf_outbox_distinct: "wf_db d \<Longrightarrow> distinct (map ob_id (outbox d))"
  by (simp add: wf_db_def)

lemma select_unsent_wf:
  "wf_db d \<Longrightarrow> select_unsent locked n d = take n (filter (\<lambda>r. \<not> locked (ob_id r)) (unsent d))"
  by (simp add: select_unsent_def wf_outbox_sorted unsent_def conj_commute)

lemma select_unsent_unlocked: "wf_db d \<Longrightarrow> select_unsent (\<lambda>_. False) n d = take n (unsent d)"
  by (simp add: select_unsent_wf)

lemma select_unsent_subset: "set (select_unsent locked n d) \<subseteq> set (unsent d)"
  by (auto simp: select_unsent_def unsent_def dest: in_set_takeD)

lemma mark_sent_Nil [simp]: "mark_sent now [] d = d"
  by (simp add: mark_sent_def sql_update_def)

lemma mark_sent_frame [simp]:
  "riders (mark_sent now ids d) = riders d" "orders (mark_sent now ids d) = orders d"
  "order_events (mark_sent now ids d) = order_events d"
  by (simp_all add: mark_sent_def)

lemma mark_sent_rows [simp]:
  "map row_event (outbox (mark_sent now ids d)) = map row_event (outbox d)"
  "map ob_id (outbox (mark_sent now ids d)) = map ob_id (outbox d)"
  "map ob_aggregate_id (outbox (mark_sent now ids d)) = map ob_aggregate_id (outbox d)"
  by (simp_all add: mark_sent_def map_sql_update_id row_event_def)

lemma mark_sent_wf: "wf_db d \<Longrightarrow> wf_db (mark_sent now ids d)"
proof -
  assume wf: "wf_db d"
  have "length (outbox (mark_sent now ids d)) = length (outbox d)" by (simp add: mark_sent_def)
  with wf show ?thesis
    unfolding wf_db_def by (simp add: rider_exists_def)
qed

lemma mark_sent_unsent:
  "unsent (mark_sent now ids d) = filter (\<lambda>r. ob_id r \<notin> set ids) (unsent d)"
proof -
  have "filter (\<lambda>r. ob_sent_at r = None) (sql_update (\<lambda>r. ob_id r \<in> set ids) (\<lambda>r. r\<lparr>ob_sent_at := Some now\<rparr>) rows)
      = filter (\<lambda>r. ob_id r \<notin> set ids) (filter (\<lambda>r. ob_sent_at r = None) rows)" for rows
    by (induction rows) auto
  then show ?thesis by (simp add: unsent_def mark_sent_def)
qed

lemma mark_sent_sent_rows:
  "r \<in> set (sent_rows (mark_sent now ids d)) \<Longrightarrow>
     \<exists>r0 \<in> set (outbox d). row_event r = row_event r0 \<and> (ob_sent_at r0 \<noteq> None \<or> ob_id r0 \<in> set ids)"
  by (auto simp: sent_rows_def mark_sent_def in_set_sql_update row_event_def split: if_splits)

text \<open>Marking a prefix of the unsent rows leaves the rest.\<close>

lemma filter_ids_take:
  assumes "distinct (map ob_id rows)"
  shows "filter (\<lambda>r. ob_id r \<notin> set (map ob_id (take n rows))) rows = drop n rows"
proof -
  have split: "rows = take n rows @ drop n rows" by simp
  have disj: "ob_id ` set (take n rows) \<inter> ob_id ` set (drop n rows) = {}"
    using assms by (metis append_take_drop_id distinct_append list.set_map map_append)
  let ?P = "\<lambda>r. ob_id r \<notin> set (map ob_id (take n rows))"
  have "filter ?P (take n rows) = []" by (simp add: filter_empty_conv)
  moreover have "filter ?P (drop n rows) = drop n rows"
    using disj by (auto simp: filter_id_conv)
  ultimately show ?thesis by (metis append_Nil filter_append split)
qed

lemma mark_sent_take:
  assumes "wf_db d"
  shows "unsent (mark_sent now (map ob_id (take n (unsent d))) d) = drop n (unsent d)"
proof -
  have "distinct (map ob_id (unsent d))"
    using wf_outbox_distinct [OF assms] by (simp add: unsent_def distinct_map_filter)
  then show ?thesis by (simp only: mark_sent_unsent filter_ids_take)
qed

text \<open>The two shapes of a dispatch: it fails before it has a batch, or it works on the selected one.\<close>

lemma dispatch_early:
  "\<not> (begin_ok e \<and> stmt_ok e 0 \<and> stmt_ok e 1 \<and> stmt_ok e 2) \<Longrightarrow>
     \<exists>err. dispatch e locked n pctx pub (d, k) = (Some err, d, k)"
  by (auto simp: dispatch_def)

lemma dispatch_selected:
  "begin_ok e \<and> stmt_ok e 0 \<and> stmt_ok e 1 \<and> stmt_ok e 2 \<Longrightarrow>
     dispatch e locked n pctx pub (d, k) =
       (if select_unsent locked n d = [] then (None, d, k)
        else (case publish_batch pctx pub (select_unsent locked n d) k of
            (Inl err, k') \<Rightarrow> (Some err, d, k')
          | (Inr ids, k') \<Rightarrow>
              if \<not> stmt_ok e 3 then (Some (WrapError ''mark sent: '' pg_stmt_error ''''), d, k')
              else (case commit_outcome e of
                  Done \<Rightarrow> (None, mark_sent (pg_now e) ids d, k')
                | Failed \<Rightarrow> (Some (WrapError ''commit: '' pg_commit_error ''''), d, k')
                | Lost \<Rightarrow> (Some (WrapError ''commit: '' pg_commit_error ''''),
                             mark_sent (pg_now e) ids d, k'))))"
  by (simp add: dispatch_def Let_def)

text \<open>
  A tick without faults or foreign locks.  A log overtakes nothing when each event in it is that of
  some row and the events of all earlier rows occur before it.
\<close>

definition clean_tick :: "tick \<Rightarrow> bool" where
  "clean_tick t \<longleftrightarrow> begin_ok (tick_env t) \<and> (\<forall>i. stmt_ok (tick_env t) i)
     \<and> commit_outcome (tick_env t) = Done \<and> tick_locked t = (\<lambda>_. False)"

definition no_overtaking :: "outbox_row list \<Rightarrow> event list \<Rightarrow> bool" where
  "no_overtaking U L \<longleftrightarrow>
     (\<forall>p < length L. \<exists>j < length U. L ! p = row_event (U ! j)
        \<and> (\<forall>i < j. row_event (U ! i) \<in> set (take p L)))"

lemma in_take_drop:
  assumes "s \<le> i" "i < s + m" "i < length U"
  shows "row_event (U ! i) \<in> row_event ` set (take m (drop s U))"
proof -
  have "take m (drop s U) ! (i - s) = U ! i" "i - s < length (take m (drop s U))"
    using assms by auto
  then show ?thesis by (metis image_eqI nth_mem)
qed

lemma no_overtaking_append:
  assumes "no_overtaking U L0" and seen: "\<And>i. i < s \<Longrightarrow> i < length U \<Longrightarrow> row_event (U ! i) \<in> set L0"
  shows "no_overtaking U (L0 @ map row_event (take m (drop s U)))"
  unfolding no_overtaking_def
proof (intro allI impI)
  let ?X = "map row_event (take m (drop s U))"
  fix p assume p: "p < length (L0 @ ?X)"
  show "\<exists>j < length U. (L0 @ ?X) ! p = row_event (U ! j)
      \<and> (\<forall>i < j. row_event (U ! i) \<in> set (take p (L0 @ ?X)))"
  proof (cases "p < length L0")
    case True
    with assms(1) show ?thesis by (auto simp: no_overtaking_def nth_append)
  next
    case False
    define q where "q = p - length L0"
    have q: "q < m" "s + q < length U" using False p by (auto simp: q_def)
    have tk: "take p (L0 @ ?X) = L0 @ map row_event (take q (drop s U))"
      using False q by (simp add: q_def take_map min_def)
    have "row_event (U ! i) \<in> set (take p (L0 @ ?X))" if "i < s + q" for i
      using that q seen [of i] in_take_drop [of s i q U] unfolding tk by (cases "i < s") auto
    moreover have "(L0 @ ?X) ! p = row_event (U ! (s + q))"
      using False q by (simp add: nth_append q_def)
    ultimately show ?thesis using q by blast
  qed
qed

text \<open>What every publication keeps of the bus, the relay keeps.\<close>

lemma publish_batch_bus_inv:
  assumes pub: "\<And>c t key b k e k'. I k \<Longrightarrow> pub c t key b k = (e, k') \<Longrightarrow> I k'"
  shows "I k \<Longrightarrow> I (snd (publish_batch pctx pub rows k))"
proof (induction rows arbitrary: k)
  case (Cons it rest)
  obtain e k1 where
    p: "pub (pctx (ob_trace_context it)) (ob_topic it) (ob_partition_key it) (ob_payload it) k = (e, k1)"
    by fastforce
  from pub [OF Cons.prems p] Cons.IH [of k1] p show ?case
    by (auto split: option.splits prod.splits sum.splits)
qed simp

lemma relay_Run_bus_inv:
  assumes pub: "\<And>c t key b k e k'. I k \<Longrightarrow> pub c t key b k = (e, k') \<Longrightarrow> I k'"
  shows "I (snd dk) \<Longrightarrow> I (snd (relay_Run pctx pub ticks dk))"
proof (induction ticks arbitrary: dk)
  case (Cons t ts)
  obtain d k where dk: "dk = (d, k)" by fastforce
  have "I (snd (snd (dispatch e locked n pctx pub (d, k))))" for e locked n
  proof -
    have "I (snd (publish_batch pctx pub (select_unsent locked n d) k))"
      by (rule publish_batch_bus_inv [where I = I and pub = pub, OF pub]) (use Cons.prems dk in simp_all)
    then show ?thesis
      using Cons.prems dk by (auto simp: dispatch_def Let_def split: prod.splits sum.splits outcome.splits)
  qed
  then have "I (snd (snd (dispatch (tick_env t) (tick_locked t) relay_batchSize pctx pub dk)))" by (simp only: dk)
  from Cons.IH [OF this] show ?case by simp
qed simp

text \<open>Not overtaking survives cutting off the end of the log and looking at a selection of the events only.\<close>

lemma no_overtaking_snoc:
  "no_overtaking U (L @ [x]) \<longleftrightarrow> no_overtaking U L
     \<and> (\<exists>j < length U. x = row_event (U ! j) \<and> (\<forall>i < j. row_event (U ! i) \<in> set L))"
proof -
  have "(L @ [x]) ! p = L ! p" "take p (L @ [x]) = take p L" if "p < length L" for p
    using that by (simp_all add: nth_append)
  then show ?thesis
    unfolding no_overtaking_def length_append_singleton All_less_Suc by auto
qed

lemma no_overtaking_prefix: "no_overtaking U L \<Longrightarrow> prefix L' L \<Longrightarrow> no_overtaking U L'"
proof (induction L rule: rev_induct)
  case (snoc x L)
  from snoc.prems(1) have "no_overtaking U L" by (simp only: no_overtaking_snoc)
  with snoc show ?case by (metis prefix_snoc)
qed simp

lemma no_overtaking_filter:
  "no_overtaking U L \<Longrightarrow> no_overtaking (filter (\<lambda>r. P (row_event r)) U) (filter P L)"
proof (induction L rule: rev_induct)
  case (snoc x L)
  let ?Q = "\<lambda>r. P (row_event r)"
  from snoc.prems have L: "no_overtaking U L" by (simp add: no_overtaking_snoc)
  from snoc.prems obtain j where j: "j < length U" "x = row_event (U ! j)"
      "\<And>i. i < j \<Longrightarrow> row_event (U ! i) \<in> set L"
    by (auto simp: no_overtaking_snoc)
  show ?case
  proof (cases "P x")
    case True
    let ?a = "filter ?Q (take j U)"
    have split: "filter ?Q U = ?a @ U ! j # filter ?Q (drop (Suc j) U)"
      using True j(2) id_take_nth_drop [OF j(1)] by (metis filter.simps(2) filter_append)
    have "row_event (?a ! i) \<in> set (filter P L)" if "i < length ?a" for i
    proof -
      note mem = nth_mem [OF that]
      obtain l where l: "l < j" "U ! l = ?a ! i" "?Q (?a ! i)"
        using mem by (auto simp: in_set_conv_nth)
      from j(3) [OF l(1)] l(2,3) show ?thesis by simp
    qed
    with snoc.IH [OF L] True j(2) show ?thesis
      unfolding split by (simp add: no_overtaking_snoc) (intro exI [of _ "length ?a"], simp add: nth_append)
  qed (use snoc.IH L in simp)
qed (simp add: no_overtaking_def)

section \<open>The relay against the publisher's contract\<close>

context publisher
begin

lemma publish_batch_ok:
  "publish_batch pctx publish rows k = (Inr ids, k') \<Longrightarrow>
     ids = map ob_id rows \<and> sent k' = sent k @ map row_event rows"
proof (induction rows arbitrary: k ids)
  case (Cons it rest)
  from Cons.prems obtain k1 ids1 where
    p: "publish (pctx (ob_trace_context it)) (ob_topic it) (ob_partition_key it) (ob_payload it) k = (None, k1)"
    and r: "publish_batch pctx publish rest k1 = (Inr ids1, k')" "ids = ob_id it # ids1"
    by (auto split: prod.splits option.splits sum.splits)
  with Cons.IH [OF r(1)] publish_ok [OF p] show ?case by (simp add: row_event_def)
qed simp

lemma publish_batch_err:
  "publish_batch pctx publish rows k = (Inl err, k') \<Longrightarrow>
     \<exists>m \<le> length rows. sent k' = sent k @ map row_event (take m rows)"
proof (induction rows arbitrary: k)
  case (Cons it rest)
  obtain v k1 where
    p: "publish (pctx (ob_trace_context it)) (ob_topic it) (ob_partition_key it) (ob_payload it) k = (v, k1)"
    by fastforce
  show ?case
  proof (cases v)
    case (Some e)
    with p Cons.prems have "k' = k1" by auto
    with publish_err [OF p [unfolded Some]] have
      "sent k' = sent k @ map row_event (take 0 (it # rest)) \<or>
       sent k' = sent k @ map row_event (take 1 (it # rest))"
      by (auto simp: row_event_def)
    then show ?thesis by (auto intro: exI [of _ 0] exI [of _ 1])
  next
    case None
    with p Cons.prems have "publish_batch pctx publish rest k1 = (Inl err, k')"
      by (auto split: prod.splits sum.splits)
    from Cons.IH [OF this] obtain m where
      "m \<le> length rest" "sent k' = sent k1 @ map row_event (take m rest)" by blast
    with publish_ok [OF p [unfolded None]] show ?thesis
      by (auto simp: row_event_def intro!: exI [of _ "Suc m"])
  qed
qed simp

lemma dispatch_effect:
  assumes "dispatch e locked n pctx publish (d, k) = (r, d', k')"
  defines "B \<equiv> select_unsent locked n d"
  shows "r \<noteq> None \<and> d' = d \<and> (\<exists>m \<le> length B. sent k' = sent k @ map row_event (take m B))
     \<or> (r = None \<or> commit_outcome e = Lost) \<and> d' = mark_sent (pg_now e) (map ob_id B) d
         \<and> sent k' = sent k @ map row_event B"
proof -
  consider (early) "\<not> (begin_ok e \<and> stmt_ok e 0 \<and> stmt_ok e 1 \<and> stmt_ok e 2)"
    | (idle) "begin_ok e \<and> stmt_ok e 0 \<and> stmt_ok e 1 \<and> stmt_ok e 2" "B = []"
    | (busy) "begin_ok e \<and> stmt_ok e 0 \<and> stmt_ok e 1 \<and> stmt_ok e 2" "B \<noteq> []"
    by blast
  then show ?thesis
  proof cases
    case early
    then have "r \<noteq> None \<and> d' = d \<and> k' = k"
      using dispatch_early [of e locked n pctx publish d k] assms(1) by auto
    then show ?thesis by (intro disjI1) auto
  next
    case idle
    with assms show ?thesis by (simp add: dispatch_selected)
  next
    case busy
    obtain o1 k1 where pb: "publish_batch pctx publish B k = (o1, k1)" by fastforce
    note dp = assms(1) [unfolded dispatch_selected [OF busy(1)] B_def [symmetric]]
    show ?thesis
    proof (cases o1)
      case (Inl err)
      with busy pb dp have "r = Some err \<and> d' = d \<and> k' = k1" by simp
      with publish_batch_err [OF pb [unfolded Inl]] show ?thesis by auto
    next
      case (Inr ids)
      note ok = publish_batch_ok [OF pb [unfolded Inr]]
      have full: "\<exists>m \<le> length B. sent k @ map row_event B = sent k @ map row_event (take m B)"
        by (intro exI [of _ "length B"]) simp
      show ?thesis
        using dp full ok unfolding pb Inr
        by (auto simp: busy(2) split: if_splits outcome.splits)
    qed
  qed
qed

lemma dispatch_wf:
  "wf_db d \<Longrightarrow> dispatch e locked n pctx publish (d, k) = (r, d', k') \<Longrightarrow>
     wf_db d' \<and> map row_event (outbox d') = map row_event (outbox d)"
  using dispatch_effect [of e locked n pctx d k r d' k'] by (auto intro: mark_sent_wf)

lemma dispatch_no_loss:
  assumes "dispatch e locked n pctx publish (d, k) = (r, d', k')"
    and "\<forall>x \<in> set (sent_rows d). row_event x \<in> set (sent k)"
    and wf: "wf_db d"
  shows "\<forall>x \<in> set (sent_rows d'). row_event x \<in> set (sent k')"
proof -
  let ?B = "select_unsent locked n d"
  consider (kept) m where "d' = d" "sent k' = sent k @ map row_event (take m ?B)"
    | (marked) "d' = mark_sent (pg_now e) (map ob_id ?B) d" "sent k' = sent k @ map row_event ?B"
    using dispatch_effect [OF assms(1)] by blast
  then show ?thesis
  proof cases
    case kept
    with assms(2) show ?thesis by auto
  next
    case marked
    note d' = marked(1) and k' = marked(2)
    show ?thesis
    proof
      fix x assume "x \<in> set (sent_rows d')"
      then obtain x0 where x0: "x0 \<in> set (outbox d)" "row_event x = row_event x0"
          "ob_sent_at x0 \<noteq> None \<or> ob_id x0 \<in> set (map ob_id ?B)"
        using mark_sent_sent_rows unfolding d' by blast
      show "row_event x \<in> set (sent k')"
      proof (cases "ob_sent_at x0 \<noteq> None")
        case True
        with x0 assms(2) k' show ?thesis by (auto simp: sent_rows_def)
      next
        case False
        with x0 obtain b where b: "b \<in> set ?B" "ob_id b = ob_id x0" by auto
        then have "b \<in> set (outbox d)"
          using select_unsent_subset by (fastforce simp: unsent_def)
        with b x0 wf_outbox_distinct [OF wf] have "b = x0"
          by (metis distinct_map inj_onD)
        with b x0 k' show ?thesis by auto
      qed
    qed
  qed
qed

lemma publish_batch_total:
  assumes up: "\<And>tc t key b k. up k \<Longrightarrow> \<exists>k'. publish tc t key b k = (None, k') \<and> up k'"
  shows "up k \<Longrightarrow> \<exists>ids k'. publish_batch pctx publish rows k = (Inr ids, k') \<and> up k'"
proof (induction rows arbitrary: k)
  case (Cons it rest)
  obtain k1 where
    p: "publish (pctx (ob_trace_context it)) (ob_topic it) (ob_partition_key it) (ob_payload it) k = (None, k1)"
    and "up k1"
    using up [OF Cons.prems] by blast
  with Cons.IH obtain ids k' where "publish_batch pctx publish rest k1 = (Inr ids, k')" "up k'" by blast
  with p show ?case by simp
qed simp

lemma dispatch_clean:
  assumes wf: "wf_db d" and clean: "clean_tick t"
    and up: "\<And>tc t key b k. up k \<Longrightarrow> \<exists>k'. publish tc t key b k = (None, k') \<and> up k'" and "up k"
    and dp: "dispatch (tick_env t) (tick_locked t) n pctx publish (d, k) = (r, d', k')"
  shows "r = None \<and> wf_db d' \<and> unsent d' = drop n (unsent d)
     \<and> sent k' = sent k @ map row_event (take n (unsent d)) \<and> up k'"
proof -
  let ?e = "tick_env t" and ?B = "take n (unsent d)"
  have ok: "begin_ok ?e \<and> stmt_ok ?e 0 \<and> stmt_ok ?e 1 \<and> stmt_ok ?e 2" "stmt_ok ?e 3"
      "commit_outcome ?e = Done"
    and B: "select_unsent (tick_locked t) n d = ?B"
    using clean by (auto simp: clean_tick_def select_unsent_unlocked [OF wf])
  obtain ids k1 where pb: "publish_batch pctx publish ?B k = (Inr ids, k1)" and "up k1"
    using publish_batch_total [where up = up, OF up \<open>up k\<close>] by blast
  note eff = publish_batch_ok [OF pb]
  have "(r, d', k') = (if ?B = [] then (None, d, k) else (None, mark_sent (pg_now ?e) ids d, k1))"
    using dp ok pb unfolding dispatch_selected [OF ok(1)] B by (auto split: if_splits)
  moreover have "d = mark_sent (pg_now ?e) [] d" by simp
  ultimately show ?thesis
    using eff mark_sent_take [OF wf] mark_sent_wf [OF wf] wf \<open>up k\<close> \<open>up k1\<close>
    by (cases "?B = []") auto
qed

lemma relay_Run_clean:
  assumes "wf_db d" and "list_all clean_tick ticks"
    and up: "\<And>tc t key b k. up k \<Longrightarrow> \<exists>k'. publish tc t key b k = (None, k') \<and> up k'"
    and "up k" and "relay_Run pctx publish ticks (d, k) = (d', k')"
  shows "unsent d' = drop (relay_batchSize * length ticks) (unsent d)
     \<and> sent k' = sent k @ map row_event (take (relay_batchSize * length ticks) (unsent d))"
  using assms(1,2,4,5)
proof (induction ticks arbitrary: d k)
  case (Cons t ts)
  obtain r d1 k1 where
    dp: "dispatch (tick_env t) (tick_locked t) relay_batchSize pctx publish (d, k) = (r, d1, k1)"
    by (metis prod_cases3)
  note one = dispatch_clean [where up = up, OF Cons.prems(1) _ up Cons.prems(3) dp]
  from Cons.prems dp have rest: "relay_Run pctx publish ts (d1, k1) = (d', k')" by simp
  have "take relay_batchSize (unsent d) @ take (relay_batchSize * length ts) (drop relay_batchSize (unsent d))
      = take (relay_batchSize * length (t # ts)) (unsent d)"
    by (simp add: take_add)
  with one Cons.IH [OF _ _ _ rest] Cons.prems show ?case
    by (auto simp: add.commute simp flip: map_append)
qed simp

lemma relay_Run_no_overtaking:
  assumes "wf_db d" and "list_all (\<lambda>t. tick_locked t = (\<lambda>_. False)) ticks"
    and "relay_Run pctx publish ticks (d, k) = (d', k')"
    and "unsent d = drop s U" and "\<And>i. i < s \<Longrightarrow> i < length U \<Longrightarrow> row_event (U ! i) \<in> set L0"
    and "no_overtaking U L0"
  shows "\<exists>L. sent k' = sent k @ L \<and> no_overtaking U (L0 @ L)"
  using assms
proof (induction ticks arbitrary: d k s L0)
  case (Cons t ts)
  let ?n = relay_batchSize and ?e = "tick_env t"
  obtain r d1 k1 where dp: "dispatch ?e (tick_locked t) ?n pctx publish (d, k) = (r, d1, k1)"
    by (metis prod_cases3)
  have B: "select_unsent (tick_locked t) ?n d = take ?n (drop s U)"
    using Cons.prems(1,2,4) by (simp add: select_unsent_unlocked)
  from Cons.prems dp have rest: "relay_Run pctx publish ts (d1, k1) = (d', k')" by simp
  note wf1 = dispatch_wf [OF Cons.prems(1) dp, THEN conjunct1]
  have unl: "list_all (\<lambda>t. tick_locked t = (\<lambda>_. False)) ts" using Cons.prems(2) by simp
  from dispatch_effect [OF dp] obtain m s' where
    eff: "sent k1 = sent k @ map row_event (take m (drop s U))" "unsent d1 = drop s' U"
      "s' = s \<or> s' = s + m"
    unfolding B
  proof (elim disjE conjE exE)
    fix m assume "d1 = d" "sent k1 = sent k @ map row_event (take m (take ?n (drop s U)))"
    then show thesis using that [of "min m ?n" s] Cons.prems(4) by simp
  next
    assume "d1 = mark_sent (pg_now ?e) (map ob_id (take ?n (drop s U))) d"
      "sent k1 = sent k @ map row_event (take ?n (drop s U))"
    then show thesis
      using that [of ?n "s + ?n"] mark_sent_take [OF Cons.prems(1), of "pg_now ?e" ?n] Cons.prems(4)
      by (simp add: add.commute)
  next
    assume "d1 = mark_sent (pg_now ?e) (map ob_id (take ?n (drop s U))) d"
      "sent k1 = sent k @ map row_event (take ?n (drop s U))"
    then show thesis
      using that [of ?n "s + ?n"] mark_sent_take [OF Cons.prems(1), of "pg_now ?e" ?n] Cons.prems(4)
      by (simp add: add.commute)
  qed
  let ?X = "map row_event (take m (drop s U))"
  have no: "no_overtaking U (L0 @ ?X)"
    using Cons.prems(5,6) by (intro no_overtaking_append) auto
  have seen: "row_event (U ! i) \<in> set (L0 @ ?X)" if "i < s'" "i < length U" for i
    using that eff(3) Cons.prems(5) [of i] in_take_drop [of s i m U] by (cases "i < s") auto
  from Cons.IH [OF wf1 unl rest eff(2) seen no] obtain L where
    "sent k' = sent k1 @ L" "no_overtaking U ((L0 @ ?X) @ L)" by blast
  then show ?case using eff(1) by (intro exI [of _ "?X @ L"]) simp
qed auto

lemma relay_Run_no_loss:
  assumes "wf_db d" and "\<forall>x \<in> set (sent_rows d). row_event x \<in> set (sent k)"
    and "relay_Run pctx publish ticks (d, k) = (d', k')"
  shows "wf_db d' \<and> map row_event (outbox d') = map row_event (outbox d)
     \<and> (\<forall>x \<in> set (sent_rows d'). row_event x \<in> set (sent k'))"
  using assms
proof (induction ticks arbitrary: d k)
  case (Cons t ts)
  obtain r d1 k1 where
    dp: "dispatch (tick_env t) (tick_locked t) relay_batchSize pctx publish (d, k) = (r, d1, k1)"
    by (metis prod_cases3)
  with Cons.prems have "relay_Run pctx publish ts (d1, k1) = (d', k')" by simp
  with Cons.IH [of d1 k1] dispatch_wf [OF Cons.prems(1) dp]
    dispatch_no_loss [OF dp Cons.prems(2) Cons.prems(1)]
  show ?case by auto
qed simp

end

section \<open>Examples and remarks\<close>

definition example_env :: pg_env where
  "example_env = \<lparr>begin_ok = True, stmt_ok = (\<lambda>_. True), commit_outcome = Done, pg_now = 5, pg_uuid = 9\<rparr>"

definition example_row :: "int \<Rightarrow> string \<Rightarrow> outbox_row" where
  "example_row i t = \<lparr>ob_id = i, ob_aggregate_id = 1, ob_topic = t, ob_partition_key = ''o1'',
     ob_payload = JNull, ob_trace_context = None, ob_created_at = 0, ob_sent_at = None\<rparr>"

definition example_outbox :: db where
  "example_outbox = empty_db\<lparr>outbox := [example_row 1 ''a'', example_row 2 ''b'']\<rparr>"

abbreviation example_publish :: "(carrier, broker) publish" where
  "example_publish \<equiv> PublishRaw broker_write 0"

lemma example_outbox_wf: "wf_db example_outbox"
  by (simp add: wf_db_def example_outbox_def empty_db_def example_row_def upto_rec1)

lemmas example_outbox_simps = example_outbox_def empty_db_def example_row_def example_env_def
  select_unsent_def PublishRaw_def broker_write_def mark_sent_def unsent_def sent_rows_def
  row_event_def event_of_def dispatch_def relay_batchSize_def publish_context_def Let_def
  take_Cons' inject_headers_def



text \<open>
  With two relays order is not kept: while one relay holds the lock on the first of two rows
  with the same partition key, the dispatch of the other publishes the second row alone.
\<close>

lemma second_relay_overtakes:
  "case dispatch example_env (\<lambda>i. i = 1) relay_batchSize (\<lambda>_. []) example_publish
      (example_outbox, \<lparr>b_log = [], b_script = []\<rparr>) of
     (r, d', k') \<Rightarrow> r = None
       \<and> ob_partition_key (example_row 1 ''a'') = ob_partition_key (example_row 2 ''b'')
       \<and> map event_of (b_log k') = [row_event (example_row 2 ''b'')]
       \<and> unsent d' = [example_row 1 ''a'']"
  by (simp add: example_outbox_simps)



section \<open>Properties\<close>

text \<open>
  C7: no event is lost: whatever calls fail and whatever other relays hold, after any number of
  ticks every row marked sent has had its event published, and the table still holds exactly the
  events it held.
\<close>

theorem relay_never_loses_events:
  assumes "publisher pub sent" and "wf_db d"
    and "\<forall>x \<in> set (sent_rows d). row_event x \<in> set (sent k)"
    and "relay_Run pctx pub ticks (d, k) = (d', k')"
  shows "wf_db d' \<and> map row_event (outbox d') = map row_event (outbox d)
     \<and> (\<forall>x \<in> set (sent_rows d'). row_event x \<in> set (sent k'))"
  by (rule publisher.relay_Run_no_loss [OF assms])

theorem relay_never_loses_events_witness:
  "row_event ` set (sent_rows (fst (relay_Run (\<lambda>_. []) example_publish
       [\<lparr>tick_env = example_env, tick_locked = (\<lambda>_. False)\<rparr>]
       (example_outbox, \<lparr>b_log = [], b_script = [Done, Failed]\<rparr>))))
     \<subseteq> set (map event_of (b_log (snd (relay_Run (\<lambda>_. []) example_publish
       [\<lparr>tick_env = example_env, tick_locked = (\<lambda>_. False)\<rparr>]
       (example_outbox, \<lparr>b_log = [], b_script = [Done, Failed]\<rparr>)))))"
proof -
  have "\<forall>x \<in> set (sent_rows example_outbox). row_event x \<in> set (map event_of (b_log k))" for k
    by (simp add: example_outbox_simps)
  from relay_never_loses_events [OF broker.producer.publisher_axioms example_outbox_wf this
      prod.collapse [symmetric]]
  show ?thesis by blast
qed

text \<open>
  C8: the outbox drains: when Postgres, Kafka and the locks do not interfere, enough ticks publish
  every unsent event exactly once and in the order of the ids, and leave no row unsent.
\<close>

theorem relay_drains_outbox:
  assumes "publisher pub sent"
    and "\<And>tc t key b k. up k \<Longrightarrow> \<exists>k'. pub tc t key b k = (None, k') \<and> up k'" and "up k"
    and "wf_db d" and "list_all clean_tick ticks"
    and "length (unsent d) \<le> relay_batchSize * length ticks"
    and "relay_Run pctx pub ticks (d, k) = (d', k')"
  shows "unsent d' = [] \<and> sent k' = sent k @ map row_event (unsent d)"
  using publisher.relay_Run_clean [where up = up, OF assms(1,4,5,2,3,7)] assms(6) by simp

theorem relay_drains_outbox_witness:
  "unsent (fst (relay_Run (\<lambda>_. []) example_publish
       [\<lparr>tick_env = example_env, tick_locked = (\<lambda>_. False)\<rparr>] (example_outbox, \<lparr>b_log = [], b_script = []\<rparr>))) = []"
proof -
  have up: "b_script b = [] \<Longrightarrow> \<exists>b'. example_publish tc t key v b = (None, b') \<and> b_script b' = []"
    for tc t key v b
    by (simp add: PublishRaw_def broker_write_def Let_def)
  have "list_all clean_tick [\<lparr>tick_env = example_env, tick_locked = (\<lambda>_. False)\<rparr>]"
    by (simp add: clean_tick_def example_env_def)
  moreover have "length (unsent example_outbox)
      \<le> relay_batchSize * length [\<lparr>tick_env = example_env, tick_locked = (\<lambda>_. False)\<rparr>]"
    by (simp add: example_outbox_simps)
  ultimately show ?thesis
    using relay_drains_outbox [where up = "\<lambda>b. b_script b = []", OF broker.producer.publisher_axioms up _
        example_outbox_wf _ _ prod.collapse [symmetric]]
    by (simp del: relay_Run.simps)
qed

text \<open>
  C9: a single relay never lets an event overtake an earlier one: however its ticks fail, each event
  it publishes is that of a row that was unsent, and by then the events of all earlier unsent rows
  have been published too (retries may repeat events, but only in this order).
\<close>

theorem relay_preserves_order:
  assumes "publisher pub sent" and "wf_db d"
    and "list_all (\<lambda>t. tick_locked t = (\<lambda>_. False)) ticks"
    and "relay_Run pctx pub ticks (d, k) = (d', k')"
  shows "\<exists>L. sent k' = sent k @ L \<and> no_overtaking (unsent d) L"
  using publisher.relay_Run_no_overtaking [OF assms, of 0 "unsent d" "[]"]
  by (simp add: no_overtaking_def)

theorem relay_preserves_order_witness:
  "\<exists>L. map event_of (b_log (snd (relay_Run (\<lambda>_. []) example_publish
       [\<lparr>tick_env = example_env, tick_locked = (\<lambda>_. False)\<rparr>,
        \<lparr>tick_env = example_env, tick_locked = (\<lambda>_. False)\<rparr>]
       (example_outbox, \<lparr>b_log = [], b_script = [Done, Failed]\<rparr>)))) = [] @ L
     \<and> no_overtaking (unsent example_outbox) L"
  using relay_preserves_order [OF broker.producer.publisher_axioms example_outbox_wf _
      prod.collapse [symmetric], of "[\<lparr>tick_env = example_env, tick_locked = (\<lambda>_. False)\<rparr>,
        \<lparr>tick_env = example_env, tick_locked = (\<lambda>_. False)\<rparr>]" "\<lambda>_. []" 0
        "\<lparr>b_log = [], b_script = [Done, Failed]\<rparr>"]
  by simp

end
