(* ===== verification/Metrics.thy ===== *)
theory Metrics
  imports Rush_Json
begin

text \<open>
  \<^verbatim>\<open>pkg/metrics\<close>: the business-event counter, the response writer that records the status code, and
  the middleware that counts requests; and the JSON responses every handler writes.  A handler's
  use of its \<^verbatim>\<open>http.ResponseWriter\<close> is the list of its calls.
\<close>

section \<open>Counters\<close>

record metrics =
  businessEvents :: "string \<Rightarrow> nat"
  httpRequestsTotal :: "string list \<Rightarrow> nat"
  httpRequestDuration :: "(string list \<times> float64) list"

definition no_metrics :: metrics where
  "no_metrics = \<lparr>businessEvents = (\<lambda>_. 0), httpRequestsTotal = (\<lambda>_. 0), httpRequestDuration = []\<rparr>"

definition IncEvent :: "string \<Rightarrow> metrics \<Rightarrow> metrics" where
  "IncEvent ev m = m\<lparr>businessEvents := (businessEvents m)(ev := Suc (businessEvents m ev))\<rparr>"

section \<open>Response writers\<close>

datatype write_call = WriteHeader int | WriteBody json

text \<open>\<^verbatim>\<open>statusRecorder\<close> starts at 200 and overwrites its status at every \<^verbatim>\<open>WriteHeader\<close>.\<close>

fun statusRecorder :: "int \<Rightarrow> write_call list \<Rightarrow> int" where
  "statusRecorder status [] = status"
| "statusRecorder status (WriteHeader code # calls) = statusRecorder code calls"
| "statusRecorder status (WriteBody _ # calls) = statusRecorder status calls"

text \<open>
  The wrapped writer may be a \<^verbatim>\<open>Hijacker\<close> and a \<^verbatim>\<open>Flusher\<close> or not; the recorder always is both, and
  passes the calls on.  A WebSocket upgrade needs the first.
\<close>

record ('w, 'c) writer_ext =
  rw_Hijack :: "('w \<Rightarrow> (error + 'c) \<times> 'w) option"
  rw_Flush :: "('w \<Rightarrow> 'w) option"

definition recorder_Hijack :: "('w, 'c) writer_ext \<Rightarrow> 'w \<Rightarrow> (error + 'c) \<times> 'w" where
  "recorder_Hijack W w =
     (case rw_Hijack W of None \<Rightarrow> (Inl (ErrorString ''feature not supported''), w) | Some h \<Rightarrow> h w)"

definition recorder_Flush :: "('w, 'c) writer_ext \<Rightarrow> 'w \<Rightarrow> 'w" where
  "recorder_Flush W w = (case rw_Flush W of None \<Rightarrow> w | Some f \<Rightarrow> f w)"

text \<open>The recorder as the writer the next handler sees.\<close>

definition recorder_writer :: "('w, 'c) writer_ext \<Rightarrow> ('w, 'c) writer_ext" where
  "recorder_writer W = \<lparr>rw_Hijack = Some (recorder_Hijack W), rw_Flush = Some (recorder_Flush W)\<rparr>"

text \<open>What \<^verbatim>\<open>net/http\<close> sends: the first \<^verbatim>\<open>WriteHeader\<close>, or 200 if the body or the end comes first.\<close>

fun sent_status :: "write_call list \<Rightarrow> int" where
  "sent_status (WriteHeader code # _) = code"
| "sent_status _ = 200"

definition HTTPMiddleware ::
  "string \<Rightarrow> string \<Rightarrow> string \<Rightarrow> float64 \<Rightarrow> write_call list \<Rightarrow> metrics \<Rightarrow> metrics" where
  "HTTPMiddleware service method routePattern elapsed calls m =
     (let route = (if routePattern = '''' then ''unknown'' else routePattern);
          key = [service, method, route, instant_text (statusRecorder 200 calls)]
      in m\<lparr>httpRequestDuration := httpRequestDuration m @ [([service, method, route], elapsed)],
           httpRequestsTotal := (httpRequestsTotal m)(key := Suc (httpRequestsTotal m key))\<rparr>)"

section \<open>JSON responses\<close>

record response =
  resp_code :: int
  resp_headers :: "(string \<times> string) list"
  resp_body :: json

definition writeJSON :: "int \<Rightarrow> json \<Rightarrow> response" where
  "writeJSON code v =
     \<lparr>resp_code = code, resp_headers = [(''Content-Type'', ''application/json'')], resp_body = v\<rparr>"

definition writeErr :: "int \<Rightarrow> string \<Rightarrow> response" where
  "writeErr code msg = writeJSON code (json_strings [(''error'', msg)])"

definition response_calls :: "response \<Rightarrow> write_call list" where
  "response_calls r = [WriteHeader (resp_code r), WriteBody (resp_body r)]"

section \<open>Lemmas\<close>

lemma resp_code_writeJSON [simp]: "resp_code (writeJSON c v) = c"
  by (simp add: writeJSON_def)

lemma resp_code_writeErr [simp]: "resp_code (writeErr c msg) = c"
  by (simp add: writeErr_def)

lemma resp_body_writeErr [simp]: "resp_body (writeErr c msg) = json_strings [(''error'', msg)]"
  by (simp add: writeErr_def writeJSON_def)

lemma IncEvent_count [simp]:
  "businessEvents (IncEvent ev m) ev' = businessEvents m ev' + (if ev' = ev then 1 else 0)"
  by (simp add: IncEvent_def)

lemma IncEvent_frame [simp]:
  "httpRequestsTotal (IncEvent ev m) = httpRequestsTotal m"
  "httpRequestDuration (IncEvent ev m) = httpRequestDuration m"
  by (simp_all add: IncEvent_def)

lemma recorder_hijacks: "rw_Hijack W = Some h \<Longrightarrow> rw_Hijack (recorder_writer W) = Some h"
  by (simp add: recorder_writer_def recorder_Hijack_def fun_eq_iff)

lemma recorder_flushes: "rw_Flush W = Some f \<Longrightarrow> rw_Flush (recorder_writer W) = Some f"
  by (simp add: recorder_writer_def recorder_Flush_def fun_eq_iff)

lemma recorder_not_hijackable:
  "rw_Hijack W = None \<Longrightarrow> recorder_Hijack (recorder_writer W) w = (Inl (ErrorString ''feature not supported''), w)"
  by (simp add: recorder_writer_def recorder_Hijack_def)

lemma statusRecorder_response: "statusRecorder s (response_calls r) = resp_code r"
  by (simp add: response_calls_def)

lemma sent_status_response: "sent_status (response_calls r) = resp_code r"
  by (simp add: response_calls_def)

lemma HTTPMiddleware_total:
  "httpRequestsTotal (HTTPMiddleware svc meth route t calls m) key = httpRequestsTotal m key
     + (if key = [svc, meth, if route = '''' then ''unknown'' else route, instant_text (statusRecorder 200 calls)]
        then 1 else 0)"
  by (simp add: HTTPMiddleware_def Let_def)

lemma HTTPMiddleware_duration:
  "httpRequestDuration (HTTPMiddleware svc meth route t calls m) =
     httpRequestDuration m @ [([svc, meth, if route = '''' then ''unknown'' else route], t)]"
  by (simp add: HTTPMiddleware_def Let_def)

end
