(* ===== verification/Order_Service.thy ===== *)
theory Order_Service
  imports Outbox Metrics
begin

text \<open>
  \<^verbatim>\<open>internal/order\<close>: the repository with its SQL, the service, the validation of a placement, and
  the HTTP handlers.  The repository's contract for the service is the locale \<open>order_store\<close>,
  interpreted on the SQL model.  HTTP bodies are JSON values, with \<open>None\<close> for a body that is not
  JSON; a response is a status code and a JSON value.
\<close>

section \<open>Requests and events\<close>

record PlaceOrderRequest =
  req_CustomerID :: uuid
  req_RestaurantID :: uuid
  req_TotalAmount :: float64
  req_DeliveryAddress :: string
  req_PickupLat :: float64
  req_PickupLng :: float64
  req_DropoffLat :: float64
  req_DropoffLng :: float64

definition zero_place_request :: PlaceOrderRequest where
  "zero_place_request = \<lparr>req_CustomerID = uuid_Nil, req_RestaurantID = uuid_Nil, req_TotalAmount = 0,
     req_DeliveryAddress = '''', req_PickupLat = 0, req_PickupLng = 0, req_DropoffLat = 0, req_DropoffLng = 0\<rparr>"

definition place_request_fields :: "codec \<Rightarrow> PlaceOrderRequest fields" where
  "place_request_fields C =
     [(''customer_id'', field (dec_uuid C) (\<lambda>v r. r\<lparr>req_CustomerID := v\<rparr>)),
      (''restaurant_id'', field (dec_uuid C) (\<lambda>v r. r\<lparr>req_RestaurantID := v\<rparr>)),
      (''total_amount'', field dec_float (\<lambda>v r. r\<lparr>req_TotalAmount := v\<rparr>)),
      (''delivery_address'', field dec_string (\<lambda>v r. r\<lparr>req_DeliveryAddress := v\<rparr>)),
      (''pickup_lat'', field dec_float (\<lambda>v r. r\<lparr>req_PickupLat := v\<rparr>)),
      (''pickup_lng'', field dec_float (\<lambda>v r. r\<lparr>req_PickupLng := v\<rparr>)),
      (''dropoff_lat'', field dec_float (\<lambda>v r. r\<lparr>req_DropoffLat := v\<rparr>)),
      (''dropoff_lng'', field dec_float (\<lambda>v r. r\<lparr>req_DropoffLng := v\<rparr>))]"

record OrderPlacedEvent =
  placed_OrderID :: uuid
  placed_CustomerID :: uuid
  placed_RestaurantID :: uuid
  placed_PickupLat :: float64
  placed_PickupLng :: float64
  placed_DropoffLat :: float64
  placed_DropoffLng :: float64
  placed_PlacedAt :: time

definition placed_event_json :: "codec \<Rightarrow> OrderPlacedEvent \<Rightarrow> json" where
  "placed_event_json C ev = JObj
     [(''order_id'', json_uuid C (placed_OrderID ev)),
      (''customer_id'', json_uuid C (placed_CustomerID ev)),
      (''restaurant_id'', json_uuid C (placed_RestaurantID ev)),
      (''pickup_lat'', JNum (placed_PickupLat ev)),
      (''pickup_lng'', JNum (placed_PickupLng ev)),
      (''dropoff_lat'', JNum (placed_DropoffLat ev)),
      (''dropoff_lng'', JNum (placed_DropoffLng ev)),
      (''placed_at'', json_time C (placed_PlacedAt ev))]"

definition zero_placed_event :: OrderPlacedEvent where
  "zero_placed_event = \<lparr>placed_OrderID = uuid_Nil, placed_CustomerID = uuid_Nil,
     placed_RestaurantID = uuid_Nil, placed_PickupLat = 0, placed_PickupLng = 0,
     placed_DropoffLat = 0, placed_DropoffLng = 0, placed_PlacedAt = 0\<rparr>"

definition placed_event_fields :: "codec \<Rightarrow> OrderPlacedEvent fields" where
  "placed_event_fields C =
     [(''order_id'', field (dec_uuid C) (\<lambda>v s. s\<lparr>placed_OrderID := v\<rparr>)),
      (''customer_id'', field (dec_uuid C) (\<lambda>v s. s\<lparr>placed_CustomerID := v\<rparr>)),
      (''restaurant_id'', field (dec_uuid C) (\<lambda>v s. s\<lparr>placed_RestaurantID := v\<rparr>)),
      (''pickup_lat'', field dec_float (\<lambda>v s. s\<lparr>placed_PickupLat := v\<rparr>)),
      (''pickup_lng'', field dec_float (\<lambda>v s. s\<lparr>placed_PickupLng := v\<rparr>)),
      (''dropoff_lat'', field dec_float (\<lambda>v s. s\<lparr>placed_DropoffLat := v\<rparr>)),
      (''dropoff_lng'', field dec_float (\<lambda>v s. s\<lparr>placed_DropoffLng := v\<rparr>)),
      (''placed_at'', field (dec_time C) (\<lambda>v s. s\<lparr>placed_PlacedAt := v\<rparr>))]"

section \<open>Repository\<close>

text \<open>
  \<^verbatim>\<open>INSERT INTO orders ... RETURNING id, created_at, updated_at\<close>: the stored amount is the
  \<open>NUMERIC(10,2)\<close> value; the Go struct keeps the amount it was given and gets the three returned
  columns.
\<close>

definition insert_order :: "pg_env \<Rightarrow> Order \<Rightarrow> db \<Rightarrow> error + Order \<times> db" where
  "insert_order e o1 d =
     (case numeric_10_2 (order_TotalAmount o1) of
        None \<Rightarrow> Inl (ErrorString ''numeric field overflow'')
      | Some amount \<Rightarrow>
          if \<not> known_status (order_Status o1) then Inl (ErrorString ''orders_status_chk'')
          else if order_by_id (pg_uuid e) d \<noteq> None then Inl (ErrorString ''orders_pkey'')
          else let o2 = o1\<lparr>order_ID := pg_uuid e, order_CreatedAt := pg_now e, order_UpdatedAt := pg_now e\<rparr>
               in Inr (o2, d\<lparr>orders := orders d @ [o2\<lparr>order_TotalAmount := amount\<rparr>]\<rparr>))"

definition order_of_request :: "PlaceOrderRequest \<Rightarrow> Order" where
  "order_of_request req =
     \<lparr>order_ID = uuid_Nil, order_CustomerID = req_CustomerID req, order_RiderID = None,
      order_RestaurantID = req_RestaurantID req, order_Status = StatusPlaced,
      order_TotalAmount = req_TotalAmount req, order_DeliveryAddress = req_DeliveryAddress req,
      order_PickupLat = req_PickupLat req, order_PickupLng = req_PickupLng req,
      order_DropoffLat = req_DropoffLat req, order_DropoffLng = req_DropoffLng req,
      order_ETAMinutes = None, order_CreatedAt = 0, order_UpdatedAt = 0\<rparr>"

definition placed_event_of :: "time \<Rightarrow> Order \<Rightarrow> OrderPlacedEvent" where
  "placed_event_of now o1 =
     \<lparr>placed_OrderID = order_ID o1, placed_CustomerID = order_CustomerID o1,
      placed_RestaurantID = order_RestaurantID o1, placed_PickupLat = order_PickupLat o1,
      placed_PickupLng = order_PickupLng o1, placed_DropoffLat = order_DropoffLat o1,
      placed_DropoffLng = order_DropoffLng o1, placed_PlacedAt = now\<rparr>"

definition order_create_body ::
  "codec \<Rightarrow> pg_env \<Rightarrow> time \<Rightarrow> carrier \<Rightarrow> PlaceOrderRequest \<Rightarrow> db \<Rightarrow> Order tx_exit \<times> db" where
  "order_create_body C e now tc req d =
     (case stmt e 0 (insert_order e (order_of_request req)) d of
        Inl err \<Rightarrow> (Rollback (Inl (WrapError ''insert order: '' err '''')), d)
      | Inr (o1, d1) \<Rightarrow>
          (case stmt e 1 (insert_order_event e (order_ID o1) ''order.placed''
                  (JObj [(''restaurant_id'', json_uuid C (order_RestaurantID o1)),
                         (''status'', JStr (order_Status o1)),
                         (''total_amount'', JNum (order_TotalAmount o1))])) d1 of
             Inl err \<Rightarrow> (Rollback (Inl (WrapError ''insert event: '' err '''')), d1)
           | Inr (_, d2) \<Rightarrow>
               (case outbox_Write e 2 tc (order_ID o1) TopicOrderPlaced (uuid_String C (order_ID o1))
                       (Inr (placed_event_json C (placed_event_of now o1))) d2 of
                  Inl err \<Rightarrow> (Rollback (Inl (WrapError ''write outbox: '' err '''')), d2)
                | Inr (_, d3) \<Rightarrow> (Commit o1, d3))))"

definition order_Create ::
  "codec \<Rightarrow> pg_env \<Rightarrow> time \<Rightarrow> carrier \<Rightarrow> PlaceOrderRequest \<Rightarrow> db \<Rightarrow> (error + Order) \<times> db" where
  "order_Create C e now tc req d = run_tx e (order_create_body C e now tc req) d"

definition order_GetByID :: "pg_env \<Rightarrow> uuid \<Rightarrow> db \<Rightarrow> error + Order" where
  "order_GetByID e i d =
     (if \<not> stmt_ok e 0 then Inl pg_stmt_error
      else case order_by_id i d of None \<Rightarrow> Inl OrderErrNotFound | Some o1 \<Rightarrow> Inr o1)"

definition update_order_status :: "pg_env \<Rightarrow> Status \<Rightarrow> uuid \<Rightarrow> db \<Rightarrow> error + nat \<times> db" where
  "update_order_status e to i d =
     (let n = rows_affected (\<lambda>x. order_ID x = i) (orders d) in
      if n \<noteq> 0 \<and> \<not> known_status to then Inl (ErrorString ''orders_status_chk'')
      else Inr (n, d\<lparr>orders := sql_update (\<lambda>x. order_ID x = i)
                         (\<lambda>x. x\<lparr>order_Status := to, order_UpdatedAt := pg_now e\<rparr>) (orders d)\<rparr>))"

definition status_event_json :: "codec \<Rightarrow> time \<Rightarrow> uuid \<Rightarrow> Status \<Rightarrow> json" where
  "status_event_json C now i to =
     JObj [(''changed_at'', json_time C now), (''order_id'', json_uuid C i), (''status'', JStr to)]"

definition order_update_body ::
  "codec \<Rightarrow> pg_env \<Rightarrow> time \<Rightarrow> carrier \<Rightarrow> uuid \<Rightarrow> Status \<Rightarrow> db \<Rightarrow> unit tx_exit \<times> db" where
  "order_update_body C e now tc i to d =
     (case stmt e 0 (update_order_status e to i) d of
        Inl err \<Rightarrow> (Rollback (Inl err), d)
      | Inr (n, d1) \<Rightarrow>
          if n = 0 then (Rollback (Inl OrderErrNotFound), d1)
          else (case stmt e 1 (insert_order_event e i (''order.status.'' @ to)
                        (JObj [(''status'', JStr to)])) d1 of
              Inl err \<Rightarrow> (Rollback (Inl err), d1)
            | Inr (_, d2) \<Rightarrow>
                (case outbox_Write e 2 tc i TopicOrderStatusUpdated (uuid_String C i)
                        (Inr (status_event_json C now i to)) d2 of
                   Inl err \<Rightarrow> (Rollback (Inl (WrapError ''write outbox: '' err '''')), d2)
                 | Inr (_, d3) \<Rightarrow> (Commit (), d3))))"

definition order_UpdateStatus ::
  "codec \<Rightarrow> pg_env \<Rightarrow> time \<Rightarrow> carrier \<Rightarrow> uuid \<Rightarrow> Status \<Rightarrow> db \<Rightarrow> (error + unit) \<times> db" where
  "order_UpdateStatus C e now tc i to d = run_tx e (order_update_body C e now tc i to) d"

section \<open>Service\<close>

definition validLatLng :: "float64 \<Rightarrow> float64 \<Rightarrow> bool" where
  "validLatLng lat lng \<longleftrightarrow> lat \<ge> -90 \<and> lat \<le> 90 \<and> lng \<ge> -180 \<and> lng \<le> 180"

definition validatePlace :: "PlaceOrderRequest \<Rightarrow> error option" where
  "validatePlace r =
     (if req_CustomerID r = uuid_Nil
        then Some (WrapError '''' OrderErrInvalidRequest '': customer_id required'')
      else if req_RestaurantID r = uuid_Nil
        then Some (WrapError '''' OrderErrInvalidRequest '': restaurant_id required'')
      else if req_TotalAmount r \<le> 0
        then Some (WrapError '''' OrderErrInvalidRequest '': total_amount must be > 0'')
      else if req_DeliveryAddress r = ''''
        then Some (WrapError '''' OrderErrInvalidRequest '': delivery_address required'')
      else if \<not> validLatLng (req_PickupLat r) (req_PickupLng r) \<or> \<not> validLatLng (req_DropoffLat r) (req_DropoffLng r)
        then Some (WrapError '''' OrderErrInvalidRequest '': invalid coordinates'')
      else None)"

definition order_Place ::
  "codec \<Rightarrow> pg_env \<Rightarrow> time \<Rightarrow> carrier \<Rightarrow> PlaceOrderRequest \<Rightarrow> db \<times> metrics
     \<Rightarrow> (error + Order) \<times> db \<times> metrics" where
  "order_Place C e now tc req = (\<lambda>(d, m).
     (case validatePlace req of
        Some err \<Rightarrow> (Inl err, d, m)
      | None \<Rightarrow>
          (case order_Create C e now tc req d of
             (Inl err, d') \<Rightarrow> (Inl err, d', m)
           | (Inr o1, d') \<Rightarrow> (Inr o1, d', IncEvent ''order.placed'' m))))"

definition order_Get :: "pg_env \<Rightarrow> uuid \<Rightarrow> db \<Rightarrow> error + Order" where
  "order_Get e i d = order_GetByID e i d"

text \<open>
  \<^verbatim>\<open>Transition\<close> reads the order, validates, and updates in a transaction of its own.  The definition
  is over the two methods of the repository it calls and the result of the read, so that
  another actor's writes may fall between the read and the update: \<open>d0\<close> is the database the read
  sees, \<open>d\<close> the one the update finds.  \<open>call_env\<close> collects the environment of one call: the answers
  to the read and to the update, \<^verbatim>\<open>time.Now()\<close> and the injected trace context.
\<close>

definition Transition_with ::
  "(uuid \<Rightarrow> 's \<Rightarrow> error + Order) \<Rightarrow> (uuid \<Rightarrow> Status \<Rightarrow> 's \<Rightarrow> (error + unit) \<times> 's)
     \<Rightarrow> uuid \<Rightarrow> Status \<Rightarrow> 's \<Rightarrow> 's \<times> metrics \<Rightarrow> (error + Order) \<times> 's \<times> metrics" where
  "Transition_with getByID updateStatus i to d0 = (\<lambda>(d, m).
     (case getByID i d0 of
        Inl err \<Rightarrow> (Inl err, d, m)
      | Inr o1 \<Rightarrow>
          (case ValidateTransition (order_Status o1) to of
             Some err \<Rightarrow> (Inl err, d, m)
           | None \<Rightarrow>
               (case updateStatus i to d of
                  (Inl err, d') \<Rightarrow> (Inl err, d', m)
                | (Inr _, d') \<Rightarrow>
                    (Inr (o1\<lparr>order_Status := to\<rparr>), d', IncEvent (''order.status.'' @ to) m)))))"

record call_env =
  env_read :: pg_env
  env_write :: pg_env
  env_now :: time
  env_trace :: carrier

definition Transition ::
  "codec \<Rightarrow> call_env \<Rightarrow> uuid \<Rightarrow> Status \<Rightarrow> db \<Rightarrow> db \<times> metrics \<Rightarrow> (error + Order) \<times> db \<times> metrics" where
  "Transition C v =
     Transition_with (order_GetByID (env_read v)) (order_UpdateStatus C (env_write v) (env_now v) (env_trace v))"

definition order_Cancel ::
  "codec \<Rightarrow> call_env \<Rightarrow> uuid \<Rightarrow> db \<Rightarrow> db \<times> metrics \<Rightarrow> (error + Order) \<times> db \<times> metrics" where
  "order_Cancel C v i = Transition C v i StatusCancelled"

section \<open>HTTP handlers\<close>

definition opt_field :: "string \<Rightarrow> ('a \<Rightarrow> json) \<Rightarrow> 'a option \<Rightarrow> (string \<times> json) list" where
  "opt_field k f v = (case v of None \<Rightarrow> [] | Some a \<Rightarrow> [(k, f a)])"

definition order_json :: "codec \<Rightarrow> Order \<Rightarrow> json" where
  "order_json C x = JObj (
     [(''id'', json_uuid C (order_ID x)), (''customer_id'', json_uuid C (order_CustomerID x))] @
     opt_field ''rider_id'' (json_uuid C) (order_RiderID x) @
     [(''restaurant_id'', json_uuid C (order_RestaurantID x)), (''status'', JStr (order_Status x)),
      (''total_amount'', JNum (order_TotalAmount x)),
      (''delivery_address'', JStr (order_DeliveryAddress x)),
      (''pickup_lat'', JNum (order_PickupLat x)), (''pickup_lng'', JNum (order_PickupLng x)),
      (''dropoff_lat'', JNum (order_DropoffLat x)), (''dropoff_lng'', JNum (order_DropoffLng x))] @
     opt_field ''eta_minutes'' json_int (order_ETAMinutes x) @
     [(''created_at'', json_time C (order_CreatedAt x)), (''updated_at'', json_time C (order_UpdatedAt x))])"

text \<open>\<^verbatim>\<open>json.NewDecoder(r.Body).Decode\<close>: \<open>None\<close> is a body that does not start with a JSON value.\<close>

definition decode_body :: "'s fields \<Rightarrow> 's \<Rightarrow> json option \<Rightarrow> error + 's" where
  "decode_body fs z body =
     (case body of None \<Rightarrow> Inl (ErrorString ''invalid character'') | Some v \<Rightarrow> json_unmarshal fs v z)"

definition handle_place ::
  "codec \<Rightarrow> pg_env \<Rightarrow> time \<Rightarrow> carrier \<Rightarrow> json option \<Rightarrow> db \<times> metrics \<Rightarrow> response \<times> db \<times> metrics" where
  "handle_place C e now tc body s =
     (case decode_body (place_request_fields C) zero_place_request body of
        Inl _ \<Rightarrow> (writeErr 400 ''invalid json'', s)
      | Inr req \<Rightarrow>
          (case order_Place C e now tc req s of
             (Inl err, s') \<Rightarrow>
               (if errors_Is err OrderErrInvalidRequest then writeErr 400 (Error err)
                else writeErr 500 ''internal error'', s')
           | (Inr o1, s') \<Rightarrow> (writeJSON 201 (order_json C o1), s')))"

definition handle_get :: "codec \<Rightarrow> pg_env \<Rightarrow> string \<Rightarrow> db \<Rightarrow> response" where
  "handle_get C e idParam d =
     (case uuid_Parse C idParam of
        None \<Rightarrow> writeErr 400 ''invalid id''
      | Some i \<Rightarrow>
          (case order_Get e i d of
             Inl err \<Rightarrow>
               if errors_Is err OrderErrNotFound then writeErr 404 ''order not found''
               else writeErr 500 ''internal error''
           | Inr o1 \<Rightarrow> writeJSON 200 (order_json C o1)))"

definition handle_updateStatus ::
  "codec \<Rightarrow> call_env \<Rightarrow> string \<Rightarrow> json option \<Rightarrow> db \<Rightarrow> db \<times> metrics \<Rightarrow> response \<times> db \<times> metrics" where
  "handle_updateStatus C v idParam body d0 s =
     (case uuid_Parse C idParam of
        None \<Rightarrow> (writeErr 400 ''invalid id'', s)
      | Some i \<Rightarrow>
          (case decode_body [(''status'', field dec_string (\<lambda>x _. x))] '''' body of
             Inl _ \<Rightarrow> (writeErr 400 ''status required'', s)
           | Inr to \<Rightarrow>
               if to = '''' then (writeErr 400 ''status required'', s)
               else (case Transition C v i to d0 s of
                   (Inl err, s') \<Rightarrow>
                     (if errors_Is err OrderErrNotFound then writeErr 404 ''order not found''
                      else writeErr 409 (Error err), s')
                 | (Inr o1, s') \<Rightarrow> (writeJSON 200 (order_json C o1), s'))))"

definition handle_cancel ::
  "codec \<Rightarrow> call_env \<Rightarrow> string \<Rightarrow> db \<Rightarrow> db \<times> metrics \<Rightarrow> response \<times> db \<times> metrics" where
  "handle_cancel C v idParam d0 s =
     (case uuid_Parse C idParam of
        None \<Rightarrow> (writeErr 400 ''invalid id'', s)
      | Some i \<Rightarrow>
          (case order_Cancel C v i d0 s of
             (Inl err, s') \<Rightarrow>
               (if errors_Is err OrderErrNotFound then writeErr 404 ''order not found''
                else if errors_Is err OrderErrInvalidRequest then writeErr 400 (Error err)
                else writeErr 409 (Error err), s')
           | (Inr o1, s') \<Rightarrow> (writeJSON 200 (order_json C o1), s')))"

section \<open>Effects of the repository's transactions\<close>

text \<open>
  What a committed placement adds to the database, and what a committed status change does; the
  latter is stated over the order's id, so it covers the case of no such row too (then no row
  changes, and the repository reports \<open>OrderErrNotFound\<close> instead of committing).
\<close>

definition placement :: "codec \<Rightarrow> time \<Rightarrow> PlaceOrderRequest \<Rightarrow> Order \<Rightarrow> db \<Rightarrow> db \<Rightarrow> bool" where
  "placement C now req o1 d d' \<longleftrightarrow>
     (\<exists>t amount ev ob.
        o1 = (order_of_request req)\<lparr>order_ID := order_ID o1, order_CreatedAt := t, order_UpdatedAt := t\<rparr>
      \<and> order_by_id (order_ID o1) d = None
      \<and> numeric_10_2 (req_TotalAmount req) = Some amount
      \<and> d' = d\<lparr>orders := orders d @ [o1\<lparr>order_TotalAmount := amount\<rparr>],
               order_events := order_events d @ [ev], outbox := outbox d @ [ob]\<rparr>
      \<and> ev_id ev = int (length (order_events d')) \<and> ob_id ob = int (length (outbox d'))
      \<and> ev_order_id ev = order_ID o1 \<and> ev_event_type ev = ''order.placed''
      \<and> ob_aggregate_id ob = order_ID o1 \<and> ob_sent_at ob = None
      \<and> row_event ob = (TopicOrderPlaced, uuid_String C (order_ID o1),
                         placed_event_json C (placed_event_of now o1)))"

definition status_change :: "codec \<Rightarrow> time \<Rightarrow> uuid \<Rightarrow> Status \<Rightarrow> db \<Rightarrow> db \<Rightarrow> bool" where
  "status_change C now i to d d' \<longleftrightarrow>
     order_by_id i d \<noteq> None \<and> known_status to \<and>
     (\<exists>t ev ob.
        d' = d\<lparr>orders := sql_update (\<lambda>x. order_ID x = i)
                 (\<lambda>x. x\<lparr>order_Status := to, order_UpdatedAt := t\<rparr>) (orders d),
               order_events := order_events d @ [ev], outbox := outbox d @ [ob]\<rparr>
      \<and> ev_id ev = int (length (order_events d')) \<and> ob_id ob = int (length (outbox d'))
      \<and> ev_order_id ev = i \<and> ev_event_type ev = ''order.status.'' @ to
      \<and> ob_aggregate_id ob = i \<and> ob_sent_at ob = None
      \<and> row_event ob = (TopicOrderStatusUpdated, uuid_String C i, status_event_json C now i to))"

lemma find_None_iff_list: "find p xs = None \<longleftrightarrow> (\<forall>x \<in> set xs. \<not> p x)"
  by (induction xs) auto

lemma order_by_id_affected:
  "rows_affected (\<lambda>x. order_ID x = i) (orders d) = 0 \<longleftrightarrow> order_by_id i d = None"
  by (simp add: rows_affected_0 order_by_id_def find_None_iff_list)

lemma varchar_short: "length s \<le> n \<Longrightarrow> varchar n s = Some s"
  by (simp add: varchar_def)

lemma known_status_short: "known_status s \<Longrightarrow> length s \<le> 9"
  by (auto simp: known_status_def)

lemma insert_order_event_ok:
  assumes "length typ \<le> 50"
  shows "insert_order_event e i typ p d = Inr ((), d\<lparr>order_events := order_events d @
     [\<lparr>ev_id = int (length (order_events d)) + 1, ev_order_id = i, ev_event_type = typ,
       ev_payload = p, ev_created_at = pg_now e\<rparr>]\<rparr>)"
  using assms by (simp add: insert_order_event_def varchar_short)

lemma insert_outbox_ok:
  assumes "length topic \<le> 100" "length key \<le> 100"
  shows "insert_outbox e agg topic key p tc d = Inr ((), d\<lparr>outbox := outbox d @
     [\<lparr>ob_id = int (length (outbox d)) + 1, ob_aggregate_id = agg, ob_topic = topic,
       ob_partition_key = key, ob_payload = p, ob_trace_context = Some tc,
       ob_created_at = pg_now e, ob_sent_at = None\<rparr>]\<rparr>)"
  using assms by (simp add: insert_outbox_def varchar_short)

lemma topic_short:
  "length TopicOrderPlaced \<le> 100" "length TopicOrderStatusUpdated \<le> 100" "length TopicOrderAssigned \<le> 100"
  by (simp_all add: topic_defs)

lemma insert_order_Inr:
  assumes "insert_order e x d = Inr (o1, d1)"
  obtains amount where "numeric_10_2 (order_TotalAmount x) = Some amount"
    "order_by_id (order_ID o1) d = None"
    "o1 = x\<lparr>order_ID := order_ID o1, order_CreatedAt := pg_now e, order_UpdatedAt := pg_now e\<rparr>"
    "d1 = d\<lparr>orders := orders d @ [o1\<lparr>order_TotalAmount := amount\<rparr>]\<rparr>" "known_status (order_Status o1)"
  using assms by (auto simp: insert_order_def Let_def split: option.splits if_splits)

lemma outbox_Write_Inr:
  "outbox_Write e n tc agg topic key (Inr p) d = Inr r \<Longrightarrow> insert_outbox e agg topic key p (json_strings tc) d = Inr r"
  by (auto simp: outbox_Write_def dest: stmt_InrD)

context codec_laws
begin

lemma key_short: "length (uuid_String C u) \<le> 100"
  by (simp add: uuid_String_length)

lemma create_body_commit:
  assumes "order_create_body C e now tc req d = (Commit o1, d')"
  shows "placement C now req o1 d d'"
proof -
  from assms obtain d1 d2 where
    s0: "insert_order e (order_of_request req) d = Inr (o1, d1)" and
    s1: "\<exists>p. insert_order_event e (order_ID o1) ''order.placed'' p d1 = Inr ((), d2)" and
    s2: "insert_outbox e (order_ID o1) TopicOrderPlaced (uuid_String C (order_ID o1))
           (placed_event_json C (placed_event_of now o1)) (json_strings tc) d2 = Inr ((), d')"
    by (auto simp: order_create_body_def split: sum.splits prod.splits
        dest!: stmt_InrD outbox_Write_Inr)
  from s0 obtain amount where "numeric_10_2 (order_TotalAmount (order_of_request req)) = Some amount"
    and o1: "order_by_id (order_ID o1) d = None"
    "o1 = (order_of_request req)\<lparr>order_ID := order_ID o1, order_CreatedAt := pg_now e, order_UpdatedAt := pg_now e\<rparr>"
    and d1: "d1 = d\<lparr>orders := orders d @ [o1\<lparr>order_TotalAmount := amount\<rparr>]\<rparr>"
    by (rule insert_order_Inr)
  moreover have "order_TotalAmount (order_of_request req) = req_TotalAmount req"
    by (simp add: order_of_request_def)
  ultimately have amt: "numeric_10_2 (req_TotalAmount req) = Some amount" by simp
  from s1 obtain ev where d2: "d2 = d1\<lparr>order_events := order_events d1 @ [ev]\<rparr>"
    and ev: "ev_id ev = int (length (order_events d1)) + 1" "ev_order_id ev = order_ID o1"
      "ev_event_type ev = ''order.placed''"
    by (auto simp: insert_order_event_ok)
  from s2 obtain ob where d': "d' = d2\<lparr>outbox := outbox d2 @ [ob]\<rparr>"
    and ob: "ob_id ob = int (length (outbox d2)) + 1" "ob_aggregate_id ob = order_ID o1" "ob_sent_at ob = None"
      "row_event ob = (TopicOrderPlaced, uuid_String C (order_ID o1), placed_event_json C (placed_event_of now o1))"
    by (auto simp: insert_outbox_ok topic_short key_short row_event_def)
  show ?thesis
    unfolding placement_def
    by (intro exI [of _ "pg_now e"] exI [of _ amount] exI [of _ ev] exI [of _ ob] conjI)
      (use amt o1 ev ob in \<open>simp_all add: d' d2 d1\<close>)
qed

lemma update_body_commit:
  assumes "order_update_body C e now tc i to d = (Commit (), d')"
  shows "status_change C now i to d d'"
proof -
  from assms obtain n d1 d2 where
    s0: "update_order_status e to i d = Inr (n, d1)" "n \<noteq> 0" and
    s1: "\<exists>p. insert_order_event e i (''order.status.'' @ to) p d1 = Inr ((), d2)" and
    s2: "insert_outbox e i TopicOrderStatusUpdated (uuid_String C i)
           (status_event_json C now i to) (json_strings tc) d2 = Inr ((), d')"
    by (auto simp: order_update_body_def split: sum.splits prod.splits if_splits
        dest!: stmt_InrD outbox_Write_Inr)
  have k: "known_status to" and ex: "order_by_id i d \<noteq> None"
    and d1: "d1 = d\<lparr>orders := sql_update (\<lambda>x. order_ID x = i)
               (\<lambda>x. x\<lparr>order_Status := to, order_UpdatedAt := pg_now e\<rparr>) (orders d)\<rparr>"
    using s0 order_by_id_affected [of i d]
    by (auto simp: update_order_status_def Let_def split: if_splits)
  from s1 obtain ev where d2: "d2 = d1\<lparr>order_events := order_events d1 @ [ev]\<rparr>"
    and ev: "ev_id ev = int (length (order_events d1)) + 1" "ev_order_id ev = i" "ev_event_type ev = ''order.status.'' @ to"
    using known_status_short [OF k] by (auto simp: insert_order_event_ok)
  from s2 obtain ob where d': "d' = d2\<lparr>outbox := outbox d2 @ [ob]\<rparr>"
    and ob: "ob_id ob = int (length (outbox d2)) + 1" "ob_aggregate_id ob = i" "ob_sent_at ob = None"
      "row_event ob = (TopicOrderStatusUpdated, uuid_String C i, status_event_json C now i to)"
    by (auto simp: insert_outbox_ok topic_short key_short row_event_def)
  show ?thesis
    unfolding status_change_def
    by (intro conjI exI [of _ "pg_now e"] exI [of _ ev] exI [of _ ob])
      (use k ex ev ob in \<open>simp_all add: d' d2 d1\<close>)
qed

end

lemma order_by_id_update:
  assumes "\<And>x. order_ID (f x) = order_ID x"
  shows "order_by_id j (d\<lparr>orders := sql_update (\<lambda>x. order_ID x = i) f (orders d)\<rparr>) =
     (if j = i then map_option f (order_by_id i d) else order_by_id j d)"
proof -
  have "find (\<lambda>x. order_ID x = j) (sql_update (\<lambda>x. order_ID x = i) f (orders d)) =
      map_option (\<lambda>x. if order_ID x = i then f x else x) (order_by_id j d)"
    by (simp add: order_by_id_def assms find_sql_update)
  also have "\<dots> = (if j = i then map_option f (order_by_id i d) else order_by_id j d)"
    by (cases "order_by_id j d") (auto simp: order_by_id_def dest: find_in_set)
  finally show ?thesis by (simp add: order_by_id_def)
qed

lemma order_by_id_ID: "order_by_id i d = Some x \<Longrightarrow> order_ID x = i \<and> x \<in> set (orders d)"
  by (auto simp: order_by_id_def dest: find_in_set)

lemma order_by_id_cong [simp]:
  "order_by_id j (d\<lparr>order_events := a\<rparr>) = order_by_id j d"
  "order_by_id j (d\<lparr>outbox := b\<rparr>) = order_by_id j d"
  "order_by_id j (d\<lparr>riders := c\<rparr>) = order_by_id j d"
  by (simp_all add: order_by_id_def)

lemma status_change_view:
  assumes "status_change C now i to d d'"
  shows "\<exists>t. \<forall>j. order_by_id j d' =
     (if j = i then map_option (\<lambda>x. x\<lparr>order_Status := to, order_UpdatedAt := t\<rparr>) (order_by_id i d)
      else order_by_id j d)"
proof -
  from assms obtain t ev ob where d': "d' = d\<lparr>orders := sql_update (\<lambda>x. order_ID x = i)
      (\<lambda>x. x\<lparr>order_Status := to, order_UpdatedAt := t\<rparr>) (orders d),
      order_events := order_events d @ [ev], outbox := outbox d @ [ob]\<rparr>"
    by (auto simp: status_change_def)
  show ?thesis by (intro exI [of _ t]) (simp add: d' order_by_id_update)
qed

lemma placement_view:
  assumes "placement C now req o1 d d'"
  shows "order_by_id j d' =
     (if j = order_ID o1
      then Some (o1\<lparr>order_TotalAmount := the (numeric_10_2 (req_TotalAmount req))\<rparr>)
      else order_by_id j d)"
proof -
  from assms obtain t amount ev ob where "order_by_id (order_ID o1) d = None"
      "numeric_10_2 (req_TotalAmount req) = Some amount"
    and d': "d' = d\<lparr>orders := orders d @ [o1\<lparr>order_TotalAmount := amount\<rparr>],
               order_events := order_events d @ [ev], outbox := outbox d @ [ob]\<rparr>"
    by (auto simp: placement_def)
  then show ?thesis by (auto simp: d' order_by_id_def find_append split: option.splits)
qed

lemma placement_wf:
  assumes "placement C now req o1 d d'" "wf_db d"
  shows "wf_db d'"
proof -
  from assms(1) obtain t amount ev ob where fresh: "order_by_id (order_ID o1) d = None"
    and o1: "o1 = (order_of_request req)\<lparr>order_ID := order_ID o1, order_CreatedAt := t, order_UpdatedAt := t\<rparr>"
    and d': "d' = d\<lparr>orders := orders d @ [o1\<lparr>order_TotalAmount := amount\<rparr>],
               order_events := order_events d @ [ev], outbox := outbox d @ [ob]\<rparr>"
    and ids: "ev_id ev = int (length (order_events d)) + 1" "ob_id ob = int (length (outbox d)) + 1"
    by (auto simp: placement_def)
  have "order_Status o1 = StatusPlaced" "order_RiderID o1 = None"
    by (subst o1, simp add: order_of_request_def)+
  moreover have "order_ID o1 \<notin> order_ID ` set (orders d)"
    using fresh by (auto simp: order_by_id_def find_None_iff_list)
  ultimately show ?thesis
    using assms(2) ids by (simp add: wf_db_def d' rider_exists_def upto_snoc known_status_def status_defs)
qed

lemma status_change_wf:
  assumes "status_change C now i to d d'" "wf_db d"
  shows "wf_db d'"
proof -
  from assms(1) obtain t ev ob where k: "known_status to"
    and d': "d' = d\<lparr>orders := sql_update (\<lambda>x. order_ID x = i)
      (\<lambda>x. x\<lparr>order_Status := to, order_UpdatedAt := t\<rparr>) (orders d),
      order_events := order_events d @ [ev], outbox := outbox d @ [ob]\<rparr>"
    and ids: "ev_id ev = int (length (order_events d)) + 1" "ob_id ob = int (length (outbox d)) + 1"
    by (auto simp: status_change_def)
  show ?thesis
    using assms(2) ids k
    by (auto simp: wf_db_def d' rider_exists_def upto_snoc list_all_iff in_set_sql_update map_sql_update_id)
qed

text \<open>Both transactions keep the constraints of the schema.\<close>

sublocale codec_laws \<subseteq> create_tx: tx_contract "order_create_body C e now tc req" wf_db for e now tc req
  by unfold_locales (auto dest: create_body_commit intro: placement_wf)

sublocale codec_laws \<subseteq> update_tx: tx_contract "order_update_body C e now tc i to" wf_db for e now tc i to
  by unfold_locales (auto dest: update_body_commit intro: status_change_wf)

section \<open>The repository's contract\<close>

text \<open>
  What the service relies on: a read returns the stored order or reports that there is none, a
  successful update sets the status of that order only, and a failed one leaves everything or
  hides an update that took place.
\<close>

locale order_store =
  fixes getByID :: "uuid \<Rightarrow> 's \<Rightarrow> error + Order"
    and updateStatus :: "uuid \<Rightarrow> Status \<Rightarrow> 's \<Rightarrow> (error + unit) \<times> 's"
    and lookup :: "uuid \<Rightarrow> 's \<Rightarrow> Order option"
  assumes get_ok: "getByID i s = Inr x \<Longrightarrow> lookup i s = Some x"
    and get_missing: "getByID i s = Inl OrderErrNotFound \<Longrightarrow> lookup i s = None"
    and update_ok: "updateStatus i to s = (Inr u, s') \<Longrightarrow> lookup i s \<noteq> None \<and>
      map_option order_Status (lookup j s') =
        (if j = i then Some to else map_option order_Status (lookup j s))"
    and update_err: "updateStatus i to s = (Inl err, s') \<Longrightarrow> s' = s \<or> lookup i s \<noteq> None \<and>
      (\<forall>j. map_option order_Status (lookup j s') =
        (if j = i then Some to else map_option order_Status (lookup j s)))"
begin

lemma Transition_ok:
  assumes "Transition_with getByID updateStatus i to s0 (s, m) = (Inr x, s', m')"
  obtains y where "lookup i s0 = Some y" "ValidateTransition (order_Status y) to = None"
    "x = y\<lparr>order_Status := to\<rparr>" "updateStatus i to s = (Inr (), s')" "m' = IncEvent (''order.status.'' @ to) m"
  using assms get_ok
  by (auto simp: Transition_with_def split: sum.splits prod.splits option.splits)

lemma Transition_status:
  assumes "Transition_with getByID updateStatus i to s (s, m) = (r, s', m')"
  shows "map_option order_Status (lookup j s') = map_option order_Status (lookup j s)
     \<or> j = i \<and> (\<exists>a b. map_option order_Status (lookup i s) = Some (status_text a)
          \<and> map_option order_Status (lookup i s') = Some (status_text b) \<and> lifecycle a b)"
proof -
  consider (same) "s' = s"
    | (upd) x r1 where "getByID i s = Inr x" "ValidateTransition (order_Status x) to = None"
        "updateStatus i to s = (r1, s')"
    using assms by (auto simp: Transition_with_def split: sum.splits prod.splits option.splits)
  then show ?thesis
  proof cases
    case upd
    then obtain a b where ab: "order_Status x = status_text a" "to = status_text b" "lifecycle a b"
      by (metis ValidateTransition_iff)
    from upd(3) have "s' = s \<or> map_option order_Status (lookup j s') =
        (if j = i then Some to else map_option order_Status (lookup j s))"
      using update_ok [of i to s _ s' j] update_err [of i to s _ s'] by (cases r1) metis+
    with ab get_ok [OF upd(1)] show ?thesis by (cases "j = i") auto
  qed simp
qed

end

lemma order_GetByID_Inr: "order_GetByID e i d = Inr x \<Longrightarrow> order_by_id i d = Some x"
  by (auto simp: order_GetByID_def split: if_splits option.splits)

lemma order_GetByID_missing: "order_GetByID e i d = Inl OrderErrNotFound \<Longrightarrow> order_by_id i d = None"
  by (auto simp: order_GetByID_def pg_stmt_error_def split: if_splits option.splits)

lemma order_update_body_exit:
  "order_update_body C e now tc i to d = (Rollback r, d') \<Longrightarrow> \<exists>err. r = Inl err"
  by (auto simp: order_update_body_def split: sum.splits prod.splits if_splits)

lemma order_create_body_exit:
  "order_create_body C e now tc req d = (Rollback r, d') \<Longrightarrow> \<exists>err. r = Inl err"
  by (auto simp: order_create_body_def split: sum.splits prod.splits if_splits)

context codec_laws
begin

lemma UpdateStatus_ok:
  "order_UpdateStatus C e now tc i to d = (Inr u, d') \<Longrightarrow> status_change C now i to d d'"
  unfolding order_UpdateStatus_def
  by (drule run_tx_Inr) (auto dest: update_body_commit order_update_body_exit)

lemma UpdateStatus_err:
  "order_UpdateStatus C e now tc i to d = (Inl err, d') \<Longrightarrow>
     d' = d \<or> commit_outcome e = Lost \<and> status_change C now i to d d'"
  unfolding order_UpdateStatus_def
  by (auto simp: run_tx_def dest: update_body_commit
      split: if_splits tx_exit.splits prod.splits outcome.splits)

lemma Create_ok: "order_Create C e now tc req d = (Inr x, d') \<Longrightarrow> placement C now req x d d'"
  unfolding order_Create_def
  by (drule run_tx_Inr) (auto dest: create_body_commit order_create_body_exit)

lemma Create_err:
  "order_Create C e now tc req d = (Inl err, d') \<Longrightarrow>
     d' = d \<or> commit_outcome e = Lost \<and> (\<exists>x. placement C now req x d d')"
  unfolding order_Create_def
  by (auto simp: run_tx_def dest: create_body_commit
      split: if_splits tx_exit.splits prod.splits outcome.splits)

lemma status_change_status:
  "status_change C now i to d d' \<Longrightarrow> map_option order_Status (order_by_id j d') =
     (if j = i then Some to else map_option order_Status (order_by_id j d))"
  using status_change_view [of C now i to d d']
  by (auto simp: option.map_comp comp_def status_change_def)

end

lemma status_change_exists: "status_change C now i to d d' \<Longrightarrow> order_by_id i d \<noteq> None"
  by (simp add: status_change_def)

sublocale codec_laws \<subseteq> repository: order_store "order_GetByID er" "order_UpdateStatus C eu now tc" order_by_id
  for er eu now tc
proof unfold_locales
  fix i to d u d' j
  assume "order_UpdateStatus C eu now tc i to d = (Inr u, d')"
  then have "status_change C now i to d d'" by (rule UpdateStatus_ok)
  then show "order_by_id i d \<noteq> None \<and> map_option order_Status (order_by_id j d') =
      (if j = i then Some to else map_option order_Status (order_by_id j d))"
    using status_change_status status_change_exists by blast
next
  fix i to d err d'
  assume "order_UpdateStatus C eu now tc i to d = (Inl err, d')"
  then have "d' = d \<or> status_change C now i to d d'" using UpdateStatus_err by blast
  then show "d' = d \<or> order_by_id i d \<noteq> None \<and> (\<forall>j. map_option order_Status (order_by_id j d') =
      (if j = i then Some to else map_option order_Status (order_by_id j d)))"
    using status_change_status status_change_exists by blast
qed (rule order_GetByID_Inr, assumption, rule order_GetByID_missing)

section \<open>The audit trail\<close>

text \<open>The statuses that \<^verbatim>\<open>order_events\<close> records for an order, oldest first; the prefix
  \<^verbatim>\<open>order.status.\<close> has 13 characters.\<close>

definition status_of_event :: "order_event \<Rightarrow> Status option" where
  "status_of_event ev =
     (if ev_event_type ev = ''order.placed'' then Some StatusPlaced
      else if take 13 (ev_event_type ev) = ''order.status.'' then Some (drop 13 (ev_event_type ev))
      else None)"

definition status_history :: "uuid \<Rightarrow> db \<Rightarrow> Status list" where
  "status_history i d = List.map_filter status_of_event (filter (\<lambda>ev. ev_order_id ev = i) (order_events d))"

definition fully_audited :: "uuid \<Rightarrow> db \<Rightarrow> bool" where
  "fully_audited i d \<longleftrightarrow>
     (case order_by_id i d of
        None \<Rightarrow> status_history i d = []
      | Some x \<Rightarrow> legal_history (status_history i d) \<and> status_history i d \<noteq> []
                \<and> last (status_history i d) = order_Status x)"

lemma map_filter_snoc:
  "List.map_filter f (xs @ [x]) = List.map_filter f xs @ (case f x of None \<Rightarrow> [] | Some y \<Rightarrow> [y])"
  by (induction xs) (auto simp: List.map_filter_simps split: option.splits)

lemma status_history_snoc:
  "order_events d' = order_events d @ [ev] \<Longrightarrow> status_history i d' =
     status_history i d @ (if ev_order_id ev = i then (case status_of_event ev of None \<Rightarrow> [] | Some s \<Rightarrow> [s]) else [])"
  by (auto simp: status_history_def map_filter_snoc)

lemma status_history_cong: "order_events d' = order_events d \<Longrightarrow> status_history i d' = status_history i d"
  by (simp add: status_history_def)

lemma legal_history_snoc:
  "legal_history ss \<Longrightarrow> ss \<noteq> [] \<Longrightarrow> ValidateTransition (last ss) t = None \<Longrightarrow> legal_history (ss @ [t])"
proof (induction ss rule: legal_history.induct)
  case (2 s)
  then have "known_status t" using ValidateTransition_known by auto
  then have "t \<in> set (map fst validTransitions)"
    by (auto simp: validTransitions_def known_status_def status_defs)
  with 2 show ?case by simp
qed auto

lemma status_of_event_placed: "ev_event_type ev = ''order.placed'' \<Longrightarrow> status_of_event ev = Some StatusPlaced"
  by (simp add: status_of_event_def)

lemma status_of_event_status: "ev_event_type ev = ''order.status.'' @ s \<Longrightarrow> status_of_event ev = Some s"
  by (simp add: status_of_event_def)

lemma status_change_history:
  "status_change C now i to d d' \<Longrightarrow> status_history j d' = status_history j d @ (if j = i then [to] else [])"
  by (auto simp: status_change_def status_of_event_status status_history_snoc)

lemma placement_history:
  "placement C now req x d d' \<Longrightarrow>
     status_history j d' = status_history j d @ (if j = order_ID x then [StatusPlaced] else [])"
  by (auto simp: placement_def status_of_event_placed status_history_snoc)

lemma placement_status: "placement C now req x d d' \<Longrightarrow> order_Status x = StatusPlaced"
proof -
  assume "placement C now req x d d'"
  then obtain t where x: "x = (order_of_request req)\<lparr>order_ID := order_ID x, order_CreatedAt := t, order_UpdatedAt := t\<rparr>"
    by (auto simp: placement_def)
  show ?thesis by (subst x) (simp add: order_of_request_def)
qed

lemma placement_audited: "placement C now req x d d' \<Longrightarrow> fully_audited j d \<Longrightarrow> fully_audited j d'"
  using placement_view [of C now req x d d' j] placement_history [of C now req x d d' j]
    placement_status [of C now req x d d']
  by (auto simp: fully_audited_def placement_def validTransitions_def split: option.splits if_splits)

lemma status_change_audited:
  assumes ch: "status_change C now i to d d'" and aud: "fully_audited j d"
    and x: "order_by_id i d = Some x" "ValidateTransition (order_Status x) to = None"
  shows "fully_audited j d'"
proof (cases "j = i")
  case True
  obtain t where "order_by_id i d' = Some (x\<lparr>order_Status := to, order_UpdatedAt := t\<rparr>)"
    using status_change_view [OF ch] x by auto
  moreover have "legal_history (status_history i d @ [to])"
    using aud x True by (intro legal_history_snoc) (auto simp: fully_audited_def)
  ultimately show ?thesis
    using status_change_history [OF ch, of i] True by (simp add: fully_audited_def)
next
  case False
  have "order_by_id j d' = order_by_id j d" using status_change_view [OF ch] False by auto
  with aud False status_change_history [OF ch, of j] show ?thesis
    by (simp add: fully_audited_def split: option.splits)
qed

section \<open>Calls that meet no failure\<close>

definition clean_env :: "pg_env \<Rightarrow> bool" where
  "clean_env e \<longleftrightarrow> begin_ok e \<and> (\<forall>i. stmt_ok e i) \<and> commit_outcome e = Done"

context codec_laws
begin

lemma update_body_clean:
  assumes "clean_env e" "order_by_id i d \<noteq> None" "known_status to"
  shows "\<exists>d'. order_update_body C e now tc i to d = (Commit (), d')"
proof -
  have "length (''order.status.'' @ to) \<le> 50" using known_status_short [OF assms(3)] by simp
  note ev = insert_order_event_ok [OF this]
  show ?thesis
    using assms order_by_id_affected [of i d]
    by (simp add: order_update_body_def stmt_def clean_env_def update_order_status_def Let_def
        ev [unfolded append.simps] outbox_Write_def insert_outbox_ok topic_short key_short)
qed

lemma UpdateStatus_clean:
  assumes "clean_env e" "order_by_id i d \<noteq> None" "known_status to"
  shows "\<exists>d'. order_UpdateStatus C e now tc i to d = (Inr (), d')"
  using update_body_clean [OF assms, of now tc] assms(1)
  by (auto simp: order_UpdateStatus_def run_tx_def clean_env_def)

lemma Transition_clean:
  assumes "clean_env (env_read v)" "clean_env (env_write v)"
    and "order_by_id i d0 = Some y" "ValidateTransition (order_Status y) to = None"
    and "order_by_id i d \<noteq> None"
  shows "\<exists>d'. Transition C v i to d0 (d, m) =
       (Inr (y\<lparr>order_Status := to\<rparr>), d', IncEvent (''order.status.'' @ to) m)
     \<and> status_change C (env_now v) i to d d'"
proof -
  have "known_status to" using ValidateTransition_known assms(4) by blast
  from UpdateStatus_clean [OF assms(2,5) this] obtain d' where
    u: "order_UpdateStatus C (env_write v) (env_now v) (env_trace v) i to d = (Inr (), d')" by blast
  moreover have "order_GetByID (env_read v) i d0 = Inr y"
    using assms(1,3) by (simp add: order_GetByID_def clean_env_def)
  ultimately show ?thesis
    using assms(4) UpdateStatus_ok [OF u] by (auto simp: Transition_def Transition_with_def)
qed

lemma Transition_cases:
  assumes "Transition C v i to d0 (d, m) = (r, d', m')"
  obtains (refused) err where "r = Inl err" "d' = d" "m' = m"
  | (changed) y where "r = Inr (y\<lparr>order_Status := to\<rparr>)" "m' = IncEvent (''order.status.'' @ to) m"
      "order_by_id i d0 = Some y" "ValidateTransition (order_Status y) to = None"
      "status_change C (env_now v) i to d d'"
  | (hidden) err y where "r = Inl err" "m' = m" "commit_outcome (env_write v) = Lost"
      "order_by_id i d0 = Some y" "ValidateTransition (order_Status y) to = None"
      "status_change C (env_now v) i to d d'"
proof -
  show thesis
  proof (cases "order_GetByID (env_read v) i d0")
    case (Inl err)
    with assms have "r = Inl err \<and> d' = d \<and> m' = m" by (auto simp: Transition_def Transition_with_def)
    with refused show thesis by blast
  next
    case (Inr y)
    note y = order_GetByID_Inr [OF Inr]
    show thesis
    proof (cases "ValidateTransition (order_Status y) to")
      case (Some err)
      with assms Inr have "r = Inl err \<and> d' = d \<and> m' = m"
        by (auto simp: Transition_def Transition_with_def)
      with refused show thesis by blast
    next
      case None
      obtain r1 d1 where u: "order_UpdateStatus C (env_write v) (env_now v) (env_trace v) i to d = (r1, d1)"
        by fastforce
      have eq: "(case r1 of Inl err \<Rightarrow> (Inl err, d1, m)
          | Inr _ \<Rightarrow> (Inr (y\<lparr>order_Status := to\<rparr>), d1, IncEvent (''order.status.'' @ to) m)) = (r, d', m')"
        using assms Inr None u by (simp add: Transition_def Transition_with_def)
      show thesis
      proof (cases r1)
        case (Inl e)
        with eq have "r = Inl e" "d' = d1" "m' = m" by simp_all
        with UpdateStatus_err [OF u [unfolded Inl]] refused hidden y None show thesis by blast
      next
        case (Inr w)
        with eq have "r = Inr (y\<lparr>order_Status := to\<rparr>)" "d' = d1" "m' = IncEvent (''order.status.'' @ to) m"
          by simp_all
        with UpdateStatus_ok [OF u [unfolded Inr]] changed y None show thesis by blast
      qed
    qed
  qed
qed

lemma Place_cases:
  assumes "order_Place C e now tc req (d, m) = (r, d', m')"
  obtains (invalid) err where "validatePlace req = Some err" "r = Inl err" "d' = d" "m' = m"
  | (failed) err where "validatePlace req = None" "r = Inl err" "m' = m"
      "d' = d \<or> commit_outcome e = Lost \<and> (\<exists>x. placement C now req x d d')"
  | (placed) x where "validatePlace req = None" "r = Inr x" "placement C now req x d d'"
      "m' = IncEvent ''order.placed'' m"
proof (cases "validatePlace req")
  case (Some err)
  with assms invalid show thesis by (auto simp: order_Place_def)
next
  case None
  obtain r1 d1 where u: "order_Create C e now tc req d = (r1, d1)" by fastforce
  show thesis
  proof (cases r1)
    case (Inl err)
    with assms None u have "r = Inl err" "m' = m" "d' = d1" by (auto simp: order_Place_def)
    with Create_err [OF u [unfolded Inl]] failed None show thesis by blast
  next
    case (Inr x)
    with assms None u have "r = Inr x" "m' = IncEvent ''order.placed'' m" "d' = d1"
      by (auto simp: order_Place_def)
    with Create_ok [OF u [unfolded Inr]] placed None show thesis by blast
  qed
qed

end

lemma insert_order_ok:
  assumes "numeric_10_2 (req_TotalAmount req) = Some amount" "order_by_id (pg_uuid e) d = None"
  shows "\<exists>x d1. insert_order e (order_of_request req) d = Inr (x, d1)"
  using assms by (simp add: insert_order_def order_of_request_def Let_def known_status_def status_defs)

text \<open>Errors of the database are neither of the two sentinels the handlers look for.\<close>

lemma pg_errors_not_sentinel [simp]:
  "\<not> errors_Is pg_begin_error OrderErrInvalidRequest" "\<not> errors_Is pg_stmt_error OrderErrInvalidRequest"
  "\<not> errors_Is pg_commit_error OrderErrInvalidRequest"
  "\<not> errors_Is pg_begin_error OrderErrNotFound" "\<not> errors_Is pg_stmt_error OrderErrNotFound"
  "\<not> errors_Is pg_commit_error OrderErrNotFound"
  by (simp_all add: pg_begin_error_def pg_stmt_error_def pg_commit_error_def)

lemma stmt_InlD: "stmt e n s d = Inl err \<Longrightarrow> err = pg_stmt_error \<or> s d = Inl err"
  by (auto simp: stmt_def split: if_splits)

lemma insert_errors:
  "insert_order_event e i typ p d = Inl err \<Longrightarrow> \<exists>s. err = ErrorString s"
  "insert_outbox e agg t k p' tc d = Inl err \<Longrightarrow> \<exists>s. err = ErrorString s"
  "insert_order e x d = Inl err \<Longrightarrow> \<exists>s. err = ErrorString s"
  "update_order_status e to i d = Inl err \<Longrightarrow> \<exists>s. err = ErrorString s"
  by (auto simp: insert_order_event_def insert_outbox_def insert_order_def update_order_status_def
      Let_def split: option.splits if_splits)

lemma stmt_insert_errors:
  "stmt e n (insert_order_event e i typ p) d = Inl err \<Longrightarrow> \<exists>s. err = ErrorString s"
  "stmt e n (insert_order e x) d = Inl err \<Longrightarrow> \<exists>s. err = ErrorString s"
  "stmt e n (update_order_status e to i) d = Inl err \<Longrightarrow> \<exists>s. err = ErrorString s"
  "outbox_Write e n tc agg t k (Inr p') d = Inl err \<Longrightarrow> \<exists>s. err = ErrorString s"
  by (auto simp: outbox_Write_def pg_stmt_error_def dest!: stmt_InlD dest: insert_errors)

lemma Create_error_kind:
  "order_Create C e now tc req d = (Inl err, d') \<Longrightarrow> \<not> errors_Is err OrderErrInvalidRequest"
  by (auto simp: order_Create_def run_tx_def order_create_body_def dest!: stmt_insert_errors
      split: if_splits sum.splits prod.splits outcome.splits)

lemma UpdateStatus_error_kind:
  "order_UpdateStatus C e now tc i to d = (Inl err, d') \<Longrightarrow> errors_Is err OrderErrNotFound \<Longrightarrow>
     order_by_id i d = None \<and> d' = d"
  using order_by_id_affected [of i d]
  by (auto simp: order_UpdateStatus_def run_tx_def order_update_body_def update_order_status_def Let_def
      dest!: stmt_insert_errors dest: stmt_InrD
      split: if_splits sum.splits prod.splits outcome.splits)

lemma validatePlace_kind: "validatePlace req = Some err \<Longrightarrow> errors_Is err OrderErrInvalidRequest"
  by (auto simp: validatePlace_def split: if_splits)

lemma GetByID_error_kind:
  "order_GetByID e i d = Inl err \<Longrightarrow> errors_Is err OrderErrNotFound \<longleftrightarrow> stmt_ok e 0 \<and> order_by_id i d = None"
  by (auto simp: order_GetByID_def split: if_splits option.splits)

context codec_laws
begin

lemma placed_event_decode:
  "json_unmarshal (placed_event_fields C) (placed_event_json C ev) zero_placed_event = Inr ev"
  by (simp add: placed_event_json_def placed_event_fields_def zero_placed_event_def decode_simps)

lemma Create_clean:
  assumes "clean_env e" "numeric_10_2 (req_TotalAmount req) \<noteq> None" "order_by_id (pg_uuid e) d = None"
  shows "\<exists>x d'. order_Create C e now tc req d = (Inr x, d')"
proof -
  obtain x d1 where "insert_order e (order_of_request req) d = Inr (x, d1)"
    using insert_order_ok [of req _ e d] assms(2,3) by blast
  then show ?thesis
    using assms(1)
    by (simp add: order_Create_def run_tx_def order_create_body_def stmt_def clean_env_def
        insert_order_event_ok outbox_Write_def insert_outbox_ok topic_short key_short)
qed

lemma Place_clean:
  assumes "clean_env e" "validatePlace req = None" "numeric_10_2 (req_TotalAmount req) \<noteq> None"
    "order_by_id (pg_uuid e) d = None"
  shows "\<exists>x d'. order_Place C e now tc req (d, m) = (Inr x, d', IncEvent ''order.placed'' m)
     \<and> placement C now req x d d'"
proof -
  obtain x d' where c: "order_Create C e now tc req d = (Inr x, d')"
    using Create_clean [OF assms(1,3,4)] by blast
  then show ?thesis using assms(2) Create_ok [OF c] by (auto simp: order_Place_def)
qed

end

context codec_laws
begin

lemma place_responses:
  assumes "handle_place C e now tc body (d, m) = (resp, d', m')"
  shows "case decode_body (place_request_fields C) zero_place_request body of
      Inl _ \<Rightarrow> resp = writeErr 400 ''invalid json'' \<and> d' = d \<and> m' = m
    | Inr req \<Rightarrow>
        (case validatePlace req of
           Some err \<Rightarrow> resp = writeErr 400 (Error err) \<and> d' = d \<and> m' = m
         | None \<Rightarrow> resp = writeErr 500 ''internal error'' \<and> (commit_outcome e \<noteq> Lost \<longrightarrow> d' = d)
             \<or> (\<exists>x. resp = writeJSON 201 (order_json C x) \<and> placement C now req x d d'))"
proof (cases "decode_body (place_request_fields C) zero_place_request body")
  case (Inl err)
  with assms show ?thesis by (simp add: handle_place_def)
next
  case (Inr req)
  obtain r d1 m1 where p: "order_Place C e now tc req (d, m) = (r, d1, m1)" by (metis prod_cases3)
  note h = assms [unfolded handle_place_def Inr sum.case p prod.case]
  from p show ?thesis
  proof (cases rule: Place_cases)
    case (invalid err)
    with h Inr validatePlace_kind [of req err] show ?thesis by simp
  next
    case (failed err)
    then have "\<not> errors_Is err OrderErrInvalidRequest"
      using p by (auto simp: order_Place_def dest: Create_error_kind split: sum.splits prod.splits)
    with h Inr failed show ?thesis by auto
  next
    case (placed x)
    with h Inr show ?thesis by auto
  qed
qed

lemma Transition_step:
  assumes "Transition C v i to d (d, m) = (r, d', m')"
  shows "map_option order_Status (order_by_id j d') = map_option order_Status (order_by_id j d)
     \<or> j = i \<and> (\<exists>a b. map_option order_Status (order_by_id i d) = Some (status_text a)
          \<and> map_option order_Status (order_by_id i d') = Some (status_text b) \<and> lifecycle a b)"
  by (rule repository.Transition_status [OF assms [unfolded Transition_def]])

lemma Transition_not_found:
  assumes "Transition C v i to d0 (d, m) = (Inl err, d', m')" "errors_Is err OrderErrNotFound"
  shows "d' = d \<and> m' = m \<and> (order_by_id i d0 = None \<or> order_by_id i d = None)"
proof (cases "order_GetByID (env_read v) i d0")
  case (Inl e)
  with assms GetByID_error_kind [OF Inl] show ?thesis
    by (simp add: Transition_def Transition_with_def)
next
  case (Inr y)
  have "ValidateTransition (order_Status y) to = None"
  proof (rule ccontr)
    assume "ValidateTransition (order_Status y) to \<noteq> None"
    then obtain e where "ValidateTransition (order_Status y) to = Some e" by blast
    with assms Inr show False
      by (auto simp: Transition_def Transition_with_def ValidateTransition_def split: option.splits if_splits)
  qed
  with assms Inr show ?thesis
    by (auto simp: Transition_def Transition_with_def dest: UpdateStatus_error_kind split: sum.splits prod.splits)
qed

lemma updateStatus_responses:
  assumes "handle_updateStatus C v idParam body d0 (d, m) = (resp, d', m')"
    and "uuid_Parse C idParam = Some i"
    and "decode_body [(''status'', field dec_string (\<lambda>x _. x))] '''' body = Inr to" and "to \<noteq> ''''"
  shows "(\<exists>y. resp = writeJSON 200 (order_json C (y\<lparr>order_Status := to\<rparr>))
         \<and> order_by_id i d0 = Some y \<and> ValidateTransition (order_Status y) to = None
         \<and> status_change C (env_now v) i to d d')
     \<or> resp = writeErr 404 ''order not found'' \<and> d' = d \<and> (order_by_id i d0 = None \<or> order_by_id i d = None)
     \<or> (\<exists>err. resp = writeErr 409 (Error err) \<and> (commit_outcome (env_write v) \<noteq> Lost \<longrightarrow> d' = d))"
proof -
  obtain r d1 m1 where t: "Transition C v i to d0 (d, m) = (r, d1, m1)" by (metis prod_cases3)
  have h: "(case r of Inl err \<Rightarrow>
        (if errors_Is err OrderErrNotFound then writeErr 404 ''order not found'' else writeErr 409 (Error err), d1, m1)
      | Inr x \<Rightarrow> (writeJSON 200 (order_json C x), d1, m1)) = (resp, d', m')"
    using assms t by (simp add: handle_updateStatus_def split: sum.splits)
  from t show ?thesis
  proof (cases rule: Transition_cases)
    case (refused err)
    with h Transition_not_found [OF t [unfolded refused(1)]] show ?thesis by (auto split: if_splits)
  next
    case (changed y)
    with h show ?thesis by auto
  next
    case (hidden err y)
    with h Transition_not_found [OF t [unfolded hidden(1)]] show ?thesis by (auto split: if_splits)
  qed
qed

lemma Transition_audited:
  assumes "Transition C v i to d (d, m) = (r, d', m')" "fully_audited j d"
  shows "fully_audited j d'"
  using assms(1)
  by (cases rule: Transition_cases) (auto intro: assms(2) status_change_audited [OF _ assms(2)])

lemma Transition_wf: "Transition C v i to d0 (d, m) = (r, d', m') \<Longrightarrow> wf_db d \<Longrightarrow> wf_db d'"
  by (erule Transition_cases) (auto intro: status_change_wf)

end

definition example_request :: PlaceOrderRequest where
  "example_request = \<lparr>req_CustomerID = 1, req_RestaurantID = 2, req_TotalAmount = 12.5,
     req_DeliveryAddress = ''12 Main St'', req_PickupLat = 28.6, req_PickupLng = 77.2,
     req_DropoffLat = 28.7, req_DropoffLng = 77.1\<rparr>"

definition example_call :: call_env where
  "example_call = \<lparr>env_read = example_env, env_write = example_env, env_now = 6, env_trace = []\<rparr>"

lemma example_clean: "clean_env example_env" "clean_env (env_read example_call)" "clean_env (env_write example_call)"
  by (simp_all add: clean_env_def example_env_def example_call_def)

lemma example_request_valid: "validatePlace example_request = None"
  by (simp add: validatePlace_def example_request_def uuid_Nil_def validLatLng_def)

section \<open>Examples and remarks\<close>

definition example_order :: "Status \<Rightarrow> Order" where
  "example_order st = (order_of_request example_request)\<lparr>order_ID := 7, order_Status := st\<rparr>"

definition example_event :: "int \<Rightarrow> string \<Rightarrow> order_event" where
  "example_event n typ = \<lparr>ev_id = n, ev_order_id = 7, ev_event_type = typ, ev_payload = JNull, ev_created_at = 0\<rparr>"

definition example_db :: "Status \<Rightarrow> db" where
  "example_db st = empty_db\<lparr>orders := [example_order st], order_events := [example_event 1 ''order.placed'']\<rparr>"

lemma example_db_order [simp]: "order_by_id 7 (example_db st) = Some (example_order st)"
  by (simp add: example_db_def example_order_def order_by_id_def)

lemma example_order_Status [simp]: "order_Status (example_order st) = st"
  by (simp add: example_order_def)

lemma example_legal:
  "ValidateTransition StatusPlaced StatusAccepted = None"
  "ValidateTransition StatusPickedUp StatusDelivered = None"
  "ValidateTransition StatusPickedUp StatusCancelled = None"
  by (simp_all add: ValidateTransition_def validTransitions_def status_defs)

text \<open>
  Undisturbed calls keep the audit trail complete and legal: if for every order the recorded
  statuses form a legal history that ends in its current status, the same holds after a placement
  and after a status change, whatever fails.
\<close>

lemma service_keeps_audit_trail:
  assumes "codec_laws C" and "\<forall>j. fully_audited j d"
    and "order_Place C e now tc req (d, m) = (r, d', m') \<or> Transition C v i to d (d, m) = (r, d', m')"
  shows "\<forall>j. fully_audited j d'"
  using assms(3)
proof
  assume "order_Place C e now tc req (d, m) = (r, d', m')"
  then show ?thesis
    by (cases rule: codec_laws.Place_cases [OF assms(1)]) (use assms(2) placement_audited in blast)+
next
  assume "Transition C v i to d (d, m) = (r, d', m')"
  then show ?thesis using codec_laws.Transition_audited [OF assms(1)] assms(2) by blast
qed

lemma numeric_10_2_bound:
  assumes "numeric_10_2 x = Some c" "0 < x"
  shows "\<bar>c - x\<bar> \<le> 1 / 200 \<and> (\<exists>n. c = of_int n / 100) \<and> (x < 1 / 200 \<longrightarrow> c = 0)"
proof -
  define n where "n = \<lfloor>x * 100 + 1 / 2\<rfloor>"
  have c: "c = of_int n / 100"
    using assms by (auto simp: numeric_10_2_def Let_def n_def split: if_splits)
  have lo: "of_int n \<le> x * 100 + 1 / 2" and hi: "x * 100 + 1 / 2 < of_int n + 1"
    unfolding n_def by linarith+
  have "n = 0" if "x < 1 / 200"
  proof -
    have "0 \<le> x * 100 + 1 / 2" "x * 100 + 1 / 2 < 1" using that assms(2) by simp_all
    then show ?thesis unfolding n_def by linarith
  qed
  moreover have "\<bar>c - x\<bar> \<le> 1 / 200" unfolding c using lo hi by linarith
  ultimately show ?thesis by (intro conjI exI [of _ n] impI) (simp_all add: c)
qed

text \<open>
  The amount charged is the amount requested up to rounding: the stored amount of a placed order
  is a whole number of cents at most half a cent away from the requested one, although an amount
  below half a cent, which the validation accepts, is stored as zero.
\<close>

lemma stored_amount_rounded:
  assumes "codec_laws C" and "order_Place C e now tc req (d, m) = (Inr x, d', m')"
  shows "\<exists>y n. order_by_id (order_ID x) d' = Some y \<and> order_TotalAmount y = of_int n / 100
     \<and> \<bar>order_TotalAmount y - req_TotalAmount req\<bar> \<le> 1 / 200
     \<and> (req_TotalAmount req < 1 / 200 \<longrightarrow> order_TotalAmount y = 0)"
proof -
  from assms have v: "validatePlace req = None" and p: "placement C now req x d d'"
    using codec_laws.Place_cases [OF assms] by blast+
  from p obtain c where c: "numeric_10_2 (req_TotalAmount req) = Some c" by (auto simp: placement_def)
  have "0 < req_TotalAmount req" using v by (auto simp: validatePlace_def split: if_splits)
  from numeric_10_2_bound [OF c this] placement_view [OF p, of "order_ID x"] c show ?thesis by auto
qed

text \<open>
  Two concurrent status changes are not serialised by the state machine: when both calls read
  the order before either writes, and both requests are legal for the status read, both succeed,
  the second overwrites the first, and the audit trail records a step the lifecycle may not have.
\<close>

lemma concurrent_transitions_both_succeed:
  assumes "codec_laws C" and "clean_env (env_read v1)" and "clean_env (env_write v1)"
    and "clean_env (env_read v2)" and "clean_env (env_write v2)"
    and "order_by_id i d = Some y"
    and "ValidateTransition (order_Status y) to1 = None" and "ValidateTransition (order_Status y) to2 = None"
  shows "\<exists>d1 m1 d2 m2. Transition C v1 i to1 d (d, m) = (Inr (y\<lparr>order_Status := to1\<rparr>), d1, m1)
     \<and> Transition C v2 i to2 d (d1, m1) = (Inr (y\<lparr>order_Status := to2\<rparr>), d2, m2)
     \<and> map_option order_Status (order_by_id i d2) = Some to2
     \<and> status_history i d2 = status_history i d @ [to1, to2]"
proof -
  obtain d1 m1 where 1: "Transition C v1 i to1 d (d, m) = (Inr (y\<lparr>order_Status := to1\<rparr>), d1, m1)"
      "status_change C (env_now v1) i to1 d d1"
    using codec_laws.Transition_clean [OF assms(1,2,3,6,7), of d m] assms(6) by auto
  have "order_by_id i d1 \<noteq> None" using status_change_view [OF 1(2)] assms(6) by auto
  then obtain d2 m2 where 2: "Transition C v2 i to2 d (d1, m1) = (Inr (y\<lparr>order_Status := to2\<rparr>), d2, m2)"
      "status_change C (env_now v2) i to2 d1 d2"
    using codec_laws.Transition_clean [OF assms(1,4,5,6,8), of d1 m1] by auto
  show ?thesis
    using 1 2 codec_laws.status_change_status [OF assms(1) 2(2), of i]
      status_change_history [OF 1(2), of i] status_change_history [OF 2(2), of i] by auto
qed

text \<open>
  The responses of \<^verbatim>\<open>POST /api/v1/orders\<close>: 400 exactly for a body that does not decode or does
  not pass the validation, and then nothing has changed; 201 only after the order has been placed,
  with that order as the body; every other failure is 500.
\<close>

lemma handle_place_responses:
  assumes "codec_laws C" and "handle_place C e now tc body (d, m) = (resp, d', m')"
  shows "case decode_body (place_request_fields C) zero_place_request body of
      Inl _ \<Rightarrow> resp = writeErr 400 ''invalid json'' \<and> d' = d \<and> m' = m
    | Inr req \<Rightarrow>
        (case validatePlace req of
           Some err \<Rightarrow> resp = writeErr 400 (Error err) \<and> d' = d \<and> m' = m
         | None \<Rightarrow> resp = writeErr 500 ''internal error'' \<and> (commit_outcome e \<noteq> Lost \<longrightarrow> d' = d)
             \<or> (\<exists>x. resp = writeJSON 201 (order_json C x) \<and> placement C now req x d d'))"
  by (rule codec_laws.place_responses [OF assms])



section \<open>Properties\<close>

text \<open>
  C16: placement is atomic: whatever fails, a call of \<open>order_Place\<close> leaves the database as it was
  or adds exactly the order (PLACED, without a rider), its first audit event and its unsent
  \<^verbatim>\<open>order.placed\<close> outbox row; on success it has added them and counted the event, on an error it
  has changed nothing unless the commit took place and only its answer was lost.  The schema's
  constraints are kept in every case.
\<close>

theorem order_placement_atomic:
  assumes "codec_laws C" and "order_Place C e now tc req (d, m) = (r, d', m')"
  shows "(case r of
       Inr x \<Rightarrow> validatePlace req = None \<and> placement C now req x d d' \<and> m' = IncEvent ''order.placed'' m
     | Inl _ \<Rightarrow> m' = m \<and> (d' = d \<or> commit_outcome e = Lost \<and> (\<exists>x. placement C now req x d d')))
     \<and> (wf_db d \<longrightarrow> wf_db d')"
  by (cases rule: codec_laws.Place_cases [OF assms]) (auto intro: placement_wf)

theorem order_placement_atomic_witness:
  "case order_Place canonical_codec example_env 3 [] example_request (empty_db, no_metrics) of
     (r, d', m') \<Rightarrow> wf_db d'"
  using order_placement_atomic [OF canonical.codec_laws_axioms, of example_env 3 "[]" example_request
      empty_db no_metrics] wf_empty_db
  by (auto split: prod.splits)

text \<open>
  C17: a status change of an undisturbed call is one lifecycle step: every order keeps its status,
  except that the requested one may make one step of the lifecycle, and the schema's constraints are
  kept.  This holds for every outcome of the database calls.
\<close>

theorem transition_is_lifecycle_step:
  assumes "codec_laws C" and "Transition C v i to d (d, m) = (r, d', m')"
  shows "(map_option order_Status (order_by_id j d') = map_option order_Status (order_by_id j d)
     \<or> j = i \<and> (\<exists>a b. map_option order_Status (order_by_id i d) = Some (status_text a)
          \<and> map_option order_Status (order_by_id i d') = Some (status_text b) \<and> lifecycle a b))
     \<and> (wf_db d \<longrightarrow> wf_db d')"
  using codec_laws.Transition_step [OF assms] codec_laws.Transition_wf [OF assms] by blast

theorem transition_is_lifecycle_step_witness:
  "case Transition canonical_codec example_call 7 StatusAccepted (example_db StatusPlaced)
          (example_db StatusPlaced, no_metrics) of
     (r, d', m') \<Rightarrow> order_by_id 8 d' = None"
proof -
  obtain r d' m' where t: "Transition canonical_codec example_call 7 StatusAccepted (example_db StatusPlaced)
      (example_db StatusPlaced, no_metrics) = (r, d', m')" by (metis prod_cases3)
  have "order_by_id 8 (example_db StatusPlaced) = None"
    by (simp add: example_db_def example_order_def order_by_id_def)
  with transition_is_lifecycle_step [OF canonical.codec_laws_axioms t, of 8] t show ?thesis by simp
qed



text \<open>
  C36: the responses of \<^verbatim>\<open>PATCH /orders/{id}/status\<close> with a decodable body: 200 only after a legal
  change of the order read has been stored, with the changed order as the body; 404 only for a
  missing order and without an effect; everything else, also a failure of the database, is answered
  409, without an effect unless the answer of a commit was lost.
\<close>

theorem handle_updateStatus_responses:
  assumes "codec_laws C" and "handle_updateStatus C v idParam body d0 (d, m) = (resp, d', m')"
    and "uuid_Parse C idParam = Some i"
    and "decode_body [(''status'', field dec_string (\<lambda>x _. x))] '''' body = Inr to" and "to \<noteq> ''''"
  shows "(\<exists>y. resp = writeJSON 200 (order_json C (y\<lparr>order_Status := to\<rparr>))
         \<and> order_by_id i d0 = Some y \<and> ValidateTransition (order_Status y) to = None
         \<and> status_change C (env_now v) i to d d')
     \<or> resp = writeErr 404 ''order not found'' \<and> d' = d \<and> (order_by_id i d0 = None \<or> order_by_id i d = None)
     \<or> (\<exists>err. resp = writeErr 409 (Error err) \<and> (commit_outcome (env_write v) \<noteq> Lost \<longrightarrow> d' = d))"
  by (rule codec_laws.updateStatus_responses [OF assms])

theorem handle_updateStatus_responses_witness:
  "case handle_updateStatus canonical_codec example_call (rfc4122_text 7)
        (Some (JObj [(''status'', JStr ''ACCEPTED'')])) empty_db (empty_db, no_metrics) of
     (resp, d', m') \<Rightarrow> resp_code resp \<noteq> 200"
proof -
  let ?body = "Some (JObj [(''status'', JStr ''ACCEPTED'')])"
  obtain resp d' m' where h: "handle_updateStatus canonical_codec example_call (rfc4122_text 7) ?body
      empty_db (empty_db, no_metrics) = (resp, d', m')" by (metis prod_cases3)
  have "uuid_Parse canonical_codec (rfc4122_text 7) = Some 7"
    by (simp add: canonical_codec_def rfc4122_read_text)
  moreover have "decode_body [(''status'', field dec_string (\<lambda>x _. x))] '''' ?body = Inr ''ACCEPTED''"
    by (simp add: decode_body_def decode_simps)
  ultimately show ?thesis
    using handle_updateStatus_responses [OF canonical.codec_laws_axioms h, of 7 "''ACCEPTED''"] h
    by (auto simp: empty_db_def order_by_id_def)
qed

end
