(* ===== verification/Auth.thy ===== *)
theory Auth
  imports Order_Service
begin

text \<open>
  \<^verbatim>\<open>pkg/auth\<close> and \<^verbatim>\<open>internal/order/auth_handler.go\<close>: signing and verifying customer tokens, the
  middleware that requires one, and the login endpoint.  The JWT library \<^verbatim>\<open>golang-jwt\<close> is the
  parameter \<open>jwt_lib\<close>; the locale \<open>jwt_laws\<close> states what it documents: a token names its signing method
  and carries its claims, and it is accepted only if its signature checks with the key the key
  function returns and its expiry, if it has one, is still to come.  Nothing is assumed about who can
  forge signatures.  The locale is interpreted on tokens that spell out their parts.
\<close>

section \<open>The JWT library\<close>

record Claims =
  cl_CustomerID :: uuid
  cl_Role :: string
  cl_IssuedAt :: "time option"
  cl_ExpiresAt :: "time option"
  cl_Issuer :: string

type_synonym keyfunc = "string \<Rightarrow> error + string"  \<comment> \<open>from the signing method to the key\<close>

record jwt_lib =
  NewNumericDate :: "time \<Rightarrow> time"
  SignedString :: "string \<Rightarrow> Claims \<Rightarrow> string \<Rightarrow> error + string"
  ParseWithClaims :: "time \<Rightarrow> string \<Rightarrow> keyfunc \<Rightarrow> error + Claims \<times> bool"

section \<open>Signer\<close>

record Signer =
  sg_secret :: string
  sg_ttl :: int

definition hour_ns :: int where
  "hour_ns = 3600000000000"

text \<open>A \<^verbatim>\<open>time.Duration\<close> is an \<^verbatim>\<open>int64\<close>, so the multiplication wraps around.\<close>

definition NewSigner :: "string \<Rightarrow> int \<Rightarrow> Signer" where
  "NewSigner secret ttlHours =
     \<lparr>sg_secret = secret,
      sg_ttl = sint (word_of_int ((if ttlHours \<le> 0 then 24 else ttlHours) * hour_ns) :: 64 word)\<rparr>"

definition Sign :: "jwt_lib \<Rightarrow> Signer \<Rightarrow> time \<Rightarrow> uuid \<Rightarrow> string \<Rightarrow> error + string" where
  "Sign J s now customerID role =
     SignedString J ''HS256''
       \<lparr>cl_CustomerID = customerID, cl_Role = role, cl_IssuedAt = Some (NewNumericDate J now),
        cl_ExpiresAt = Some (NewNumericDate J (now + sg_ttl s)), cl_Issuer = ''rush-delivery-engine''\<rparr> (sg_secret s)"

definition verify_key :: "Signer \<Rightarrow> keyfunc" where
  "verify_key s alg =
     (if alg \<in> set [''HS256'', ''HS384'', ''HS512''] then Inr (sg_secret s)
      else Inl (ErrorString ''unexpected signing method''))"

definition Verify :: "jwt_lib \<Rightarrow> Signer \<Rightarrow> time \<Rightarrow> string \<Rightarrow> error + Claims" where
  "Verify J s now tokenStr =
     (case ParseWithClaims J now tokenStr (verify_key s) of
        Inl err \<Rightarrow> Inl err
      | Inr (c, valid) \<Rightarrow> if \<not> valid then Inl (ErrorString ''token invalid'') else Inr c)"

section \<open>Middleware\<close>

record http_request =
  hr_Method :: string
  hr_Path :: string
  hr_Header :: "string \<Rightarrow> string"
  hr_Claims :: "Claims option"  \<comment> \<open>the context value under \<open>claimsKey\<close>\<close>
  hr_Body :: "json option"

definition FromContext :: "http_request \<Rightarrow> Claims option" where
  "FromContext r = hr_Claims r"

type_synonym 's http_handler = "http_request \<Rightarrow> 's \<Rightarrow> response \<times> 's"

definition writeUnauth :: "string \<Rightarrow> response" where
  "writeUnauth msg = \<lparr>resp_code = 401, resp_headers = [(''Content-Type'', ''application/json'')],
     resp_body = json_strings [(''error'', msg)]\<rparr>"

definition auth_Middleware :: "jwt_lib \<Rightarrow> Signer \<Rightarrow> time \<Rightarrow> 's http_handler \<Rightarrow> 's http_handler" where
  "auth_Middleware J signer now nextHandler r s =
     (let hdr = hr_Header r ''Authorization'' in
      if \<not> prefix ''Bearer '' hdr then (writeUnauth ''missing bearer token'', s)
      else case Verify J signer now (drop 7 hdr) of
          Inl err \<Rightarrow> (writeUnauth ''invalid token'', s)
        | Inr claims \<Rightarrow> nextHandler (r\<lparr>hr_Claims := Some claims\<rparr>) s)"

section \<open>Login\<close>

definition handle_Login :: "codec \<Rightarrow> jwt_lib \<Rightarrow> Signer \<Rightarrow> time \<Rightarrow> http_request \<Rightarrow> response" where
  "handle_Login C J signer now r =
     (case decode_body [(''customer_id'', field (dec_uuid C) (\<lambda>v _. v))] uuid_Nil (hr_Body r) of
        Inl _ \<Rightarrow> writeErr 400 ''customer_id required''
      | Inr customerID \<Rightarrow>
          if customerID = uuid_Nil then writeErr 400 ''customer_id required''
          else (case Sign J signer now customerID ''customer'' of
              Inl _ \<Rightarrow> writeErr 500 ''sign failed''
            | Inr tok \<Rightarrow> writeJSON 200 (json_strings [(''token'', tok)])))"

section \<open>The contract of the library\<close>

text \<open>
  Dates are kept to the second, rounding down.  For a token, \<open>claims_of\<close> and \<open>method_of\<close> are the claims
  and the algorithm it carries, and \<open>signed_by sec\<close> says that its signature checks with the key \<open>sec\<close>.
\<close>

definition whole_dates :: "Claims \<Rightarrow> bool" where
  "whole_dates c \<longleftrightarrow> pred_option (\<lambda>t. t mod 1000000000 = 0) (cl_IssuedAt c)
     \<and> pred_option (\<lambda>t. t mod 1000000000 = 0) (cl_ExpiresAt c)"

definition not_expired :: "time \<Rightarrow> Claims \<Rightarrow> bool" where
  "not_expired now c \<longleftrightarrow> pred_option (\<lambda>t. now < t) (cl_ExpiresAt c)"

locale jwt_laws =
  fixes J :: jwt_lib and claims_of :: "string \<Rightarrow> Claims" and method_of :: "string \<Rightarrow> string"
    and signed_by :: "string \<Rightarrow> string \<Rightarrow> bool"
  assumes date: "NewNumericDate J t = t - t mod 1000000000"
    and sign_total: "\<exists>tok. SignedString J ''HS256'' c sec = Inr tok"
    and sign: "SignedString J alg c sec = Inr tok \<Longrightarrow> whole_dates c \<Longrightarrow>
      claims_of tok = c \<and> method_of tok = alg \<and> signed_by sec tok"
    and parse_sound: "ParseWithClaims J now tok kf = Inr (c, True) \<Longrightarrow>
      c = claims_of tok \<and> not_expired now c \<and> (\<exists>sec. kf (method_of tok) = Inr sec \<and> signed_by sec tok)"
    and parse_complete: "SignedString J alg c sec = Inr tok \<Longrightarrow> whole_dates c \<Longrightarrow> kf alg = Inr sec \<Longrightarrow>
      not_expired now c \<Longrightarrow> pred_option (\<lambda>t. t \<le> now) (cl_IssuedAt c) \<Longrightarrow>
      ParseWithClaims J now tok kf = Inr (c, True)"
begin

lemma date_bounds: "NewNumericDate J t \<le> t \<and> t < NewNumericDate J t + 1000000000"
  by (simp add: date)

lemma Verify_sound:
  assumes "Verify J s now tok = Inr c"
  shows "c = claims_of tok \<and> not_expired now c \<and> signed_by (sg_secret s) tok
     \<and> method_of tok \<in> set [''HS256'', ''HS384'', ''HS512'']"
proof -
  have "ParseWithClaims J now tok (verify_key s) = Inr (c, True)"
    using assms by (auto simp: Verify_def split: sum.splits prod.splits if_splits)
  from parse_sound [OF this] show ?thesis by (auto simp: verify_key_def split: if_splits)
qed

lemma Sign_total: "\<exists>tok. Sign J s now cid role = Inr tok"
  unfolding Sign_def by (rule sign_total)

lemma whole_dates_Sign:
  "whole_dates \<lparr>cl_CustomerID = cid, cl_Role = role, cl_IssuedAt = Some (NewNumericDate J t),
     cl_ExpiresAt = Some (NewNumericDate J u), cl_Issuer = iss\<rparr>"
  by (simp add: whole_dates_def date)

lemma Verify_Sign:
  assumes "Sign J s now cid role = Inr tok" "now \<le> t" "t + 1000000000 \<le> now + sg_ttl s"
  shows "\<exists>c. Verify J s t tok = Inr c \<and> cl_CustomerID c = cid \<and> cl_Role c = role"
proof -
  let ?c = "\<lparr>cl_CustomerID = cid, cl_Role = role, cl_IssuedAt = Some (NewNumericDate J now),
    cl_ExpiresAt = Some (NewNumericDate J (now + sg_ttl s)), cl_Issuer = ''rush-delivery-engine''\<rparr>"
  have "not_expired t ?c" using date_bounds [of "now + sg_ttl s"] assms(3) by (simp add: not_expired_def)
  moreover have "pred_option (\<lambda>u. u \<le> t) (cl_IssuedAt ?c)" using date_bounds [of now] assms(2) by simp
  ultimately have "ParseWithClaims J t tok (verify_key s) = Inr (?c, True)"
    using parse_complete [OF assms(1) [unfolded Sign_def] whole_dates_Sign] by (simp add: verify_key_def)
  then show ?thesis by (simp add: Verify_def)
qed

lemma Verify_signed_claims:
  assumes "Sign J s now cid role = Inr tok" "Verify J s' t tok = Inr c"
  shows "signed_by (sg_secret s') tok \<and> cl_CustomerID c = cid \<and> cl_Role c = role \<and> t < now + sg_ttl s"
proof -
  let ?c = "\<lparr>cl_CustomerID = cid, cl_Role = role, cl_IssuedAt = Some (NewNumericDate J now),
    cl_ExpiresAt = Some (NewNumericDate J (now + sg_ttl s)), cl_Issuer = ''rush-delivery-engine''\<rparr>"
  have "claims_of tok = ?c" using sign [OF assms(1) [unfolded Sign_def] whole_dates_Sign] by blast
  with Verify_sound [OF assms(2)] have "c = ?c" "not_expired t c" "signed_by (sg_secret s') tok" by auto
  then show ?thesis using date_bounds [of "now + sg_ttl s"] by (simp add: not_expired_def)
qed

lemma Middleware_cases:
  obtains (refused) msg where "auth_Middleware J signer now h r s = (writeUnauth msg, s)"
  | (passed) tok where "hr_Header r ''Authorization'' = ''Bearer '' @ tok" "signed_by (sg_secret signer) tok"
      "method_of tok \<in> set [''HS256'', ''HS384'', ''HS512'']" "not_expired now (claims_of tok)"
      "auth_Middleware J signer now h r s = h (r\<lparr>hr_Claims := Some (claims_of tok)\<rparr>) s"
proof (cases "prefix ''Bearer '' (hr_Header r ''Authorization'')")
  case False
  then show thesis by (intro refused) (auto simp: auth_Middleware_def Let_def)
next
  case True
  then obtain tok where tok: "hr_Header r ''Authorization'' = ''Bearer '' @ tok" by (auto elim: prefixE)
  show thesis
  proof (cases "Verify J signer now tok")
    case (Inl err)
    with tok show thesis by (intro refused) (simp add: auth_Middleware_def Let_def)
  next
    case (Inr c)
    with tok have "auth_Middleware J signer now h r s = h (r\<lparr>hr_Claims := Some c\<rparr>) s"
      by (simp add: auth_Middleware_def Let_def)
    with Verify_sound [OF Inr] show thesis by (intro passed [OF tok]) auto
  qed
qed

end

lemma NewSigner_ttl:
  assumes "hours \<le> 2562047"
  shows "sg_ttl (NewSigner secret hours) = (if hours \<le> 0 then 24 else hours) * hour_ns"
proof -
  define h where "h = (if hours \<le> 0 then 24 else hours)"
  have "0 \<le> h * hour_ns" "h * hour_ns < 2 ^ 63" using assms by (auto simp: h_def hour_ns_def)
  then have "sint (word_of_int (h * hour_ns) :: 64 word) = h * hour_ns"
    unfolding sint_sbintrunc' by (simp add: signed_take_bit_int_eq_self)
  then show ?thesis by (simp add: NewSigner_def h_def)
qed

section \<open>Spelled-out tokens\<close>

definition put_field :: "string \<Rightarrow> string" where
  "put_field s = concat (map (\<lambda>c. [CHR ''1'', c]) s) @ ''0''"

fun get_field :: "string \<Rightarrow> (string \<times> string) option" where
  "get_field (b # c # rest) =
     (if b = CHR ''1'' then (case get_field rest of None \<Rightarrow> None | Some (s, r) \<Rightarrow> Some (c # s, r))
      else if b = CHR ''0'' then Some ([], c # rest) else None)"
| "get_field [b] = (if b = CHR ''0'' then Some ([], []) else None)"
| "get_field [] = None"

fun put_date :: "time option \<Rightarrow> string" where
  "put_date None = []"
| "put_date (Some t) = CHR ''t'' # instant_text t"

fun get_date :: "string \<Rightarrow> time option option" where
  "get_date [] = Some None"
| "get_date (_ # s) = map_option Some (instant_read s)"

definition plain_token :: "string \<Rightarrow> Claims \<Rightarrow> string \<Rightarrow> string" where
  "plain_token alg c sec =
     put_field alg @ put_field (rfc4122_text (cl_CustomerID c)) @ put_field (cl_Role c) @
     put_field (put_date (cl_IssuedAt c)) @ put_field (put_date (cl_ExpiresAt c)) @
     put_field (cl_Issuer c) @ put_field sec"

fun get_fields :: "nat \<Rightarrow> string \<Rightarrow> string list option" where
  "get_fields 0 s = (if s = [] then Some [] else None)"
| "get_fields (Suc n) s =
     (case get_field s of None \<Rightarrow> None | Some (f, r) \<Rightarrow> map_option ((#) f) (get_fields n r))"

definition read_token :: "string \<Rightarrow> (string \<times> Claims \<times> string) option" where
  "read_token tok =
     (case get_fields 7 tok of
        Some [alg, cid, role, iat, expires, iss, sec] \<Rightarrow>
          (case (rfc4122_read cid, get_date iat, get_date expires) of
             (Some u, Some i, Some x) \<Rightarrow>
               Some (alg, \<lparr>cl_CustomerID = u, cl_Role = role, cl_IssuedAt = i, cl_ExpiresAt = x, cl_Issuer = iss\<rparr>, sec)
           | _ \<Rightarrow> None)
      | _ \<Rightarrow> None)"

definition plain_jwt :: jwt_lib where
  "plain_jwt =
     \<lparr>NewNumericDate = (\<lambda>t. t div 1000000000 * 1000000000),
      SignedString = (\<lambda>alg c sec. Inr (plain_token alg c sec)),
      ParseWithClaims = (\<lambda>now tok kf.
        (case read_token tok of
           None \<Rightarrow> Inl (ErrorString ''token is malformed'')
         | Some (alg, c, _) \<Rightarrow>
             (case kf alg of
                Inl err \<Rightarrow> Inl (WrapError ''token is unverifiable: '' err '''')
              | Inr sec \<Rightarrow>
                  if plain_token alg c sec \<noteq> tok then Inl (ErrorString ''signature is invalid'')
                  else if not_expired now c then Inr (c, True)
                  else Inl (ErrorString ''token is expired''))))\<rparr>"

definition plain_claims :: "string \<Rightarrow> Claims" where
  "plain_claims tok =
     (case read_token tok of
        Some (_, c, _) \<Rightarrow> c
      | None \<Rightarrow> \<lparr>cl_CustomerID = 0, cl_Role = '''', cl_IssuedAt = None, cl_ExpiresAt = None, cl_Issuer = ''''\<rparr>)"

definition plain_method :: "string \<Rightarrow> string" where
  "plain_method tok = (case read_token tok of Some (alg, _) \<Rightarrow> alg | None \<Rightarrow> '''')"

definition plain_signed :: "string \<Rightarrow> string \<Rightarrow> bool" where
  "plain_signed sec tok \<longleftrightarrow>
     (case read_token tok of Some (alg, c, _) \<Rightarrow> plain_token alg c sec = tok | None \<Rightarrow> False)"

lemma get_put_date: "get_date (put_date x) = Some x"
  by (cases x) (simp_all add: instant_read_text)

lemma get_put_field: "get_field (put_field s @ rest) = Some (s, rest)"
proof (induction s)
  case Nil
  show ?case by (cases rest) (simp_all add: put_field_def)
next
  case (Cons c s)
  then show ?case by (simp add: put_field_def)
qed

lemma get_put_field_end: "get_field (put_field s) = Some (s, [])"
  using get_put_field [of s "[]"] by simp

lemma read_plain_token: "read_token (plain_token alg c sec) = Some (alg, c, sec)"
proof -
  have seven: "(7::nat) = Suc (Suc (Suc (Suc (Suc (Suc (Suc 0))))))" by simp
  have "get_fields 7 (plain_token alg c sec) =
      Some [alg, rfc4122_text (cl_CustomerID c), cl_Role c, put_date (cl_IssuedAt c),
            put_date (cl_ExpiresAt c), cl_Issuer c, sec]"
    unfolding seven plain_token_def by (simp add: get_put_field get_put_field_end)
  then show ?thesis by (simp add: read_token_def rfc4122_read_text get_put_date)
qed

lemmas plain_defs = plain_jwt_def plain_claims_def plain_method_def plain_signed_def

interpretation plain: jwt_laws plain_jwt plain_claims plain_method plain_signed
proof unfold_locales
  fix now tok kf c
  assume "ParseWithClaims plain_jwt now tok kf = Inr (c, True)"
  then show "c = plain_claims tok \<and> not_expired now c
      \<and> (\<exists>sec. kf (plain_method tok) = Inr sec \<and> plain_signed sec tok)"
    by (auto simp: plain_defs split: option.splits sum.splits prod.splits if_splits)
qed (auto simp: plain_defs read_plain_token minus_mod_eq_div_mult)

section \<open>Properties\<close>

text \<open>
  C25: tokens identify their customer: signing always succeeds, a signed token verifies until a second
  before its lifetime ends (dates are kept to the second) and yields the customer and role it was
  signed for; whoever verifies it with success has a secret its signature checks with, gets these
  claims and does so before the lifetime ends.  The lifetime is 24 hours unless a positive number of
  hours is configured, and is exact up to the largest number an \<^verbatim>\<open>int64\<close> of nanoseconds holds.
\<close>

theorem token_roundtrip:
  assumes "jwt_laws J claims_of method_of signed_by"
  shows "\<exists>tok. Sign J (NewSigner secret hours) now cid role = Inr tok
     \<and> (\<forall>t. now \<le> t \<and> t + 1000000000 \<le> now + sg_ttl (NewSigner secret hours) \<longrightarrow>
          (\<exists>c. Verify J (NewSigner secret hours) t tok = Inr c \<and> cl_CustomerID c = cid \<and> cl_Role c = role))
     \<and> (\<forall>s t c. Verify J s t tok = Inr c \<longrightarrow> signed_by (sg_secret s) tok \<and> cl_CustomerID c = cid \<and> cl_Role c = role
          \<and> t < now + sg_ttl (NewSigner secret hours))
     \<and> (hours \<le> 2562047 \<longrightarrow> sg_ttl (NewSigner secret hours) = (if hours \<le> 0 then 24 else hours) * hour_ns)"
proof -
  let ?s = "NewSigner secret hours"
  obtain tok where tok: "Sign J ?s now cid role = Inr tok" using jwt_laws.Sign_total [OF assms] by blast
  with jwt_laws.Verify_Sign [OF assms tok] jwt_laws.Verify_signed_claims [OF assms tok] NewSigner_ttl [of hours secret]
  show ?thesis by blast
qed

theorem token_roundtrip_witness:
  "\<exists>tok. Sign plain_jwt (NewSigner ''s'' 0) 0 5 ''customer'' = Inr tok
     \<and> (\<exists>c. Verify plain_jwt (NewSigner ''s'' 0) 1 tok = Inr c \<and> cl_CustomerID c = 5)
     \<and> (\<forall>c. Verify plain_jwt (NewSigner ''s'' 0) 86400000000000 tok \<noteq> Inr c)"
proof -
  have ttl: "sg_ttl (NewSigner ''s'' 0) = 86400000000000" using NewSigner_ttl [of 0] by (simp add: hour_ns_def)
  obtain tok where tok: "Sign plain_jwt (NewSigner ''s'' 0) 0 5 ''customer'' = Inr tok"
    and ok: "\<forall>t. 0 \<le> t \<and> t + 1000000000 \<le> 0 + 86400000000000 \<longrightarrow>
          (\<exists>c. Verify plain_jwt (NewSigner ''s'' 0) t tok = Inr c \<and> cl_CustomerID c = 5 \<and> cl_Role c = ''customer'')"
    and only: "\<forall>s t c. Verify plain_jwt s t tok = Inr c \<longrightarrow> plain_signed (sg_secret s) tok \<and> cl_CustomerID c = 5
          \<and> cl_Role c = ''customer'' \<and> t < 0 + 86400000000000"
    using token_roundtrip [OF plain.jwt_laws_axioms, of "''s''" 0 0 5 "''customer''", unfolded ttl] by blast
  from only have "\<forall>c. Verify plain_jwt (NewSigner ''s'' 0) 86400000000000 tok \<noteq> Inr c"
    by (metis add_0 less_irrefl)
  moreover have "\<exists>c. Verify plain_jwt (NewSigner ''s'' 0) 1 tok = Inr c \<and> cl_CustomerID c = 5"
    using ok [rule_format, of 1] by auto
  ultimately show ?thesis using tok by blast
qed

text \<open>
  C26: the middleware lets a request through only with a bearer token whose signature checks with the
  service's secret by an HMAC method and which is not expired, and then with exactly that token's
  claims in the context; every other request is answered 401 without reaching the handler.
\<close>

theorem middleware_authenticates:
  assumes "jwt_laws J claims_of method_of signed_by"
  shows "(\<exists>msg. auth_Middleware J signer now h r s = (writeUnauth msg, s))
     \<or> (\<exists>tok. hr_Header r ''Authorization'' = ''Bearer '' @ tok \<and> signed_by (sg_secret signer) tok
          \<and> method_of tok \<in> set [''HS256'', ''HS384'', ''HS512''] \<and> not_expired now (claims_of tok)
          \<and> auth_Middleware J signer now h r s = h (r\<lparr>hr_Claims := Some (claims_of tok)\<rparr>) s)"
  by (cases rule: jwt_laws.Middleware_cases [OF assms, of signer now h r s]) blast+

theorem middleware_authenticates_witness:
  "\<exists>msg. auth_Middleware plain_jwt (NewSigner ''s'' 1) 0 (\<lambda>r s. (writeErr 200 '''', s))
     \<lparr>hr_Method = ''POST'', hr_Path = ''/api/v1/orders'', hr_Header = (\<lambda>_. ''Basic x''), hr_Claims = None, hr_Body = None\<rparr> ()
     = (writeUnauth msg, ())"
  using middleware_authenticates [OF plain.jwt_laws_axioms, of "NewSigner ''s'' 1" 0 "\<lambda>r s. (writeErr 200 '''', s)"
      "\<lparr>hr_Method = ''POST'', hr_Path = ''/api/v1/orders'', hr_Header = (\<lambda>_. ''Basic x''), hr_Claims = None, hr_Body = None\<rparr>" "()"]
  by auto

end
