(* ===== verification/Rate_Limit.thy ===== *)
theory Rate_Limit
  imports Auth "HOL-Library.Log_Nat"
begin

text \<open>
  \<^verbatim>\<open>pkg/middleware/ratelimit.go\<close> and its use in \<^verbatim>\<open>cmd/order-service/main.go\<close>: the sliding-window
  limiter on Redis sorted sets.  Redis is the parameter \<open>zset_client\<close> with the contract
  \<open>zset_store\<close>.  Scores are \<^verbatim>\<open>float64\<close>: nanosecond timestamps exceed 53 bits, so the conversion
  rounds, and the model keeps that rounding.
\<close>

section \<open>Conversion of 64-bit integers to floats\<close>

text \<open>Round to nearest, ties to even, at the 53 significant bits of a double.\<close>

definition round_shift :: "nat \<Rightarrow> nat \<Rightarrow> nat" where
  "round_shift s n =
     (let q = n div 2 ^ s; r = n mod 2 ^ s
      in (if 2 * r > 2 ^ s \<or> 2 * r = 2 ^ s \<and> odd q then q + 1 else q) * 2 ^ s)"

definition round_nat :: "nat \<Rightarrow> nat" where
  "round_nat n = round_shift (floorlog 2 n - 53) n"

definition float64_of_int :: "int \<Rightarrow> float64" where
  "float64_of_int n = (if n < 0 then - real (round_nat (nat (- n))) else real (round_nat (nat n)))"

section \<open>The limiter\<close>

record 'z zset_client =
  ZAdd :: "string \<Rightarrow> float64 \<Rightarrow> string \<Rightarrow> 'z \<Rightarrow> error option \<times> 'z"
  ZRemRangeByScore :: "string \<Rightarrow> float64 \<Rightarrow> float64 \<Rightarrow> 'z \<Rightarrow> error option \<times> 'z"
  ZCard :: "string \<Rightarrow> 'z \<Rightarrow> error option \<times> nat"
  Expire :: "string \<Rightarrow> int \<Rightarrow> 'z \<Rightarrow> error option \<times> 'z"

record SlidingWindow =
  sw_limit :: int
  sw_window :: int
  sw_prefix :: string

fun first_error :: "error option list \<Rightarrow> error option" where
  "first_error [] = None"
| "first_error (None # es) = first_error es"
| "first_error (Some e # es) = Some e"

text \<open>
  The pipeline sends its four commands together; \<^verbatim>\<open>Exec\<close> reports the first command that failed.
  Redis reads the bounds of the range as doubles.
\<close>

definition Allow :: "'z zset_client \<Rightarrow> SlidingWindow \<Rightarrow> time \<Rightarrow> string \<Rightarrow> 'z \<Rightarrow> (error + bool \<times> int) \<times> 'z" where
  "Allow Z s now identity z =
     (let key = sw_prefix s @ '':'' @ identity;
          cutoff = now - sw_window s;
          (e1, z1) = ZAdd Z key (float64_of_int now) (instant_text now) z;
          (e2, z2) = ZRemRangeByScore Z key 0 (float64_of_int cutoff) z1;
          (e3, card) = ZCard Z key z2;
          (e4, z4) = Expire Z key (sw_window s) z2
      in case first_error [e1, e2, e3, e4] of
           Some err \<Rightarrow> (Inl err, z4)
         | None \<Rightarrow> (Inr (int card \<le> sw_limit s, int card), z4))"

definition max0 :: "int \<Rightarrow> int" where
  "max0 n = (if n < 0 then 0 else n)"

definition rate_HTTP ::
  "'z zset_client \<Rightarrow> SlidingWindow \<Rightarrow> time \<Rightarrow> (http_request \<Rightarrow> string) \<Rightarrow> 's http_handler \<Rightarrow> ('z \<times> 's) http_handler" where
  "rate_HTTP Z s now identify nextHandler r = (\<lambda>(z, st).
     (let i = identify r in
      if i = '''' then (case nextHandler r st of (resp, st') \<Rightarrow> (resp, z, st'))
      else case Allow Z s now i z of
          (Inl err, z') \<Rightarrow> (case nextHandler r st of (resp, st') \<Rightarrow> (resp, z', st'))
        | (Inr (ok, count), z') \<Rightarrow>
            (let hdrs = [(''X-RateLimit-Limit'', instant_text (sw_limit s)),
                         (''X-RateLimit-Remaining'', instant_text (max0 (sw_limit s - count)))]
             in if \<not> ok
                then (\<lparr>resp_code = 429,
                       resp_headers = hdrs @ [(''Retry-After'', instant_text (sw_window s div 1000000000)),
                                              (''Content-Type'', ''application/json'')],
                       resp_body = json_strings [(''error'', ''rate limit exceeded'')]\<rparr>, z', st)
                else (case nextHandler r st of
                    (resp, st') \<Rightarrow> (resp\<lparr>resp_headers := hdrs @ resp_headers resp\<rparr>, z', st')))))"

text \<open>The key function of the order service: only placements are throttled.\<close>

definition order_identify :: "codec \<Rightarrow> http_request \<Rightarrow> string" where
  "order_identify C r =
     (if hr_Method r \<noteq> ''POST'' \<or> hr_Path r \<noteq> ''/api/v1/orders'' then ''''
      else case FromContext r of
          Some c \<Rightarrow> uuid_String C (cl_CustomerID c)
        | None \<Rightarrow> hr_Header r ''X-Customer-Id'')"

definition orders_limiter :: "int \<Rightarrow> SlidingWindow" where
  "orders_limiter ordersPerMinute =
     \<lparr>sw_limit = ordersPerMinute, sw_window = 60000000000, sw_prefix = ''rl:orders''\<rparr>"

section \<open>Rounding is monotone\<close>

lemma round_shift_mono: "a \<le> b \<Longrightarrow> round_shift s a \<le> round_shift s b"
proof -
  assume le: "a \<le> b"
  define M where "M = (2::nat) ^ s"
  have q: "a div M \<le> b div M" using le by (rule div_le_mono)
  define up where "up n = (2 * (n mod M) > M \<or> 2 * (n mod M) = M \<and> odd (n div M))" for n
  have "(if up a then a div M + 1 else a div M) \<le> (if up b then b div M + 1 else b div M)"
  proof (cases "a div M = b div M")
    case True
    then have "a mod M \<le> b mod M" using le by (metis add_le_cancel_left mult_div_mod_eq)
    with True have "up a \<Longrightarrow> up b" by (auto simp: up_def)
    with True show ?thesis by auto
  next
    case False
    with q show ?thesis by auto
  qed
  then show ?thesis unfolding round_shift_def Let_def M_def up_def by (simp add: mult_le_mono1)
qed

lemma round_shift_power: "s \<le> k \<Longrightarrow> round_shift s (2 ^ k) = 2 ^ k"
proof -
  assume "s \<le> k"
  then have "(2::nat) ^ s dvd 2 ^ k" by (rule le_imp_power_dvd)
  then show ?thesis by (simp add: round_shift_def Let_def)
qed

lemma round_nat_mono: "a \<le> b \<Longrightarrow> round_nat a \<le> round_nat b"
proof (cases "floorlog 2 a = floorlog 2 b")
  case True
  then show "a \<le> b \<Longrightarrow> round_nat a \<le> round_nat b" by (simp add: round_nat_def round_shift_mono)
next
  case False
  assume le: "a \<le> b"
  show "round_nat a \<le> round_nat b"
  proof (cases "a = 0")
    case True
    then show ?thesis by (simp add: round_nat_def round_shift_def)
  next
    case a: False
    define k where "k = floorlog 2 a"
    define l where "l = floorlog 2 b"
    have kl: "k < l" using False floorlog_mono [OF le, of 2] by (simp add: k_def l_def)
    have ak: "a \<le> 2 ^ k" and bl: "2 ^ (l - 1) \<le> b"
      using floorlog_bounds [of a 2] floorlog_bounds [of b 2] a le by (auto simp: k_def l_def)
    have "round_nat a \<le> round_shift (k - 53) (2 ^ k)"
      unfolding round_nat_def k_def [symmetric] using ak by (rule round_shift_mono)
    also have "\<dots> = 2 ^ k" by (simp add: round_shift_power)
    also have "\<dots> \<le> 2 ^ (l - 1)" using kl by simp
    also have "\<dots> = round_shift (l - 53) (2 ^ (l - 1))" by (simp add: round_shift_power)
    also have "\<dots> \<le> round_nat b"
      unfolding round_nat_def l_def [symmetric] using bl by (rule round_shift_mono)
    finally show ?thesis .
  qed
qed

lemma float64_of_int_mono: "a \<le> b \<Longrightarrow> float64_of_int a \<le> float64_of_int b"
proof -
  assume le: "a \<le> b"
  have "round_nat (nat (- b)) \<le> round_nat (nat (- a))" "round_nat (nat a) \<le> round_nat (nat b)"
    using le by (auto intro!: round_nat_mono)
  with le show ?thesis by (auto simp: float64_of_int_def intro: order_trans)
qed

lemma float64_of_int_nonneg: "0 \<le> n \<Longrightarrow> 0 \<le> float64_of_int n"
  by (simp add: float64_of_int_def)


section \<open>The contract of the sorted sets\<close>

text \<open>An expiry set by \<^verbatim>\<open>EXPIRE\<close> takes effect later, see the trace below.\<close>

locale zset_store =
  fixes Z :: "'z zset_client" and entries :: "'z \<Rightarrow> string \<Rightarrow> string \<Rightarrow> float64 option"
  assumes zadd: "ZAdd Z k x m z = (None, z') \<Longrightarrow> entries z' = (entries z)(k := (entries z k)(m := Some x))"
    and zrem: "ZRemRangeByScore Z k lo hi z = (None, z') \<Longrightarrow>
      entries z' = (entries z)(k := (\<lambda>m. case entries z k m of
        None \<Rightarrow> None | Some x \<Rightarrow> if lo \<le> x \<and> x \<le> hi then None else Some x))"
    and zcard: "ZCard Z k z = (None, n) \<Longrightarrow> n = card (dom (entries z k))"
    and expire: "Expire Z k w z = (None, z') \<Longrightarrow> entries z' = entries z"
begin

lemma Allow_ok:
  assumes "Allow Z s now i z = (Inr (ok, c), z')"
  defines "k \<equiv> sw_prefix s @ '':'' @ i"
  shows "entries z' k = (\<lambda>m. case ((entries z k)(instant_text now \<mapsto> float64_of_int now)) m of
        None \<Rightarrow> None | Some x \<Rightarrow> if 0 \<le> x \<and> x \<le> float64_of_int (now - sw_window s) then None else Some x)"
    and "c = int (card (dom (entries z' k)))" and "ok \<longleftrightarrow> c \<le> sw_limit s"
proof -
  obtain e1 z1 where 1: "ZAdd Z k (float64_of_int now) (instant_text now) z = (e1, z1)" by fastforce
  obtain e2 z2 where 2: "ZRemRangeByScore Z k 0 (float64_of_int (now - sw_window s)) z1 = (e2, z2)" by fastforce
  obtain e3 n where 3: "ZCard Z k z2 = (e3, n)" by fastforce
  obtain e4 z4 where 4: "Expire Z k (sw_window s) z2 = (e4, z4)" by fastforce
  have eq: "(case first_error [e1, e2, e3, e4] of Some err \<Rightarrow> (Inl err, z4)
      | None \<Rightarrow> (Inr (int n \<le> sw_limit s, int n), z4)) = (Inr (ok, c), z')"
    using assms(1) 1 2 3 4 by (simp add: Allow_def Let_def k_def del: first_error.simps)
  then have none: "e1 = None \<and> e2 = None \<and> e3 = None \<and> e4 = None"
    by (cases e1; cases e2; cases e3; cases e4) auto
  with eq have res: "z' = z4" "c = int n" "ok \<longleftrightarrow> int n \<le> sw_limit s" by auto
  have e: "entries z1 = (entries z)(k := (entries z k)(instant_text now := Some (float64_of_int now)))"
      "entries z2 = (entries z1)(k := (\<lambda>m. case entries z1 k m of None \<Rightarrow> None
         | Some x \<Rightarrow> if 0 \<le> x \<and> x \<le> float64_of_int (now - sw_window s) then None else Some x))"
      "n = card (dom (entries z2 k))" "entries z4 = entries z2"
    using none zadd [of k _ _ z z1] zrem [of k _ _ z1 z2] zcard [of k z2 n] expire [of k _ z2 z4] 1 2 3 4
    by (simp_all only:)
  show "entries z' k = (\<lambda>m. case ((entries z k)(instant_text now \<mapsto> float64_of_int now)) m of
        None \<Rightarrow> None | Some x \<Rightarrow> if 0 \<le> x \<and> x \<le> float64_of_int (now - sw_window s) then None else Some x)"
    using e res(1) by simp
  show "c = int (card (dom (entries z' k)))" "ok \<longleftrightarrow> c \<le> sw_limit s" using e res by simp_all
qed

end

section \<open>Histories of one identity\<close>

text \<open>
  What can happen to the key of one identity: calls of the limiter at increasing instants, writes to
  other keys, and the expiry of the key once the window has passed since its last call.  A
  history lists the calls with their instants, verdicts and counts, oldest first.
\<close>

inductive limiter_trace ::
  "'z zset_client \<Rightarrow> ('z \<Rightarrow> string \<Rightarrow> string \<Rightarrow> float64 option) \<Rightarrow> SlidingWindow \<Rightarrow> string
     \<Rightarrow> (time \<times> bool \<times> int) list \<Rightarrow> time \<Rightarrow> 'z \<Rightarrow> bool"
  for Z entries s i where
  start: "entries z (sw_prefix s @ '':'' @ i) = Map.empty \<Longrightarrow> 0 \<le> t \<Longrightarrow> limiter_trace Z entries s i [] t z"
| tick: "limiter_trace Z entries s i H t z \<Longrightarrow> t \<le> t' \<Longrightarrow> limiter_trace Z entries s i H t' z"
| call: "limiter_trace Z entries s i H t z \<Longrightarrow> \<forall>x \<in> set H. fst x < t \<Longrightarrow>
     Allow Z s t i z = (Inr (ok, c), z') \<Longrightarrow> limiter_trace Z entries s i (H @ [(t, ok, c)]) t z'"
| others: "limiter_trace Z entries s i H t z \<Longrightarrow>
     entries z' (sw_prefix s @ '':'' @ i) = entries z (sw_prefix s @ '':'' @ i) \<Longrightarrow> limiter_trace Z entries s i H t z'"
| expiry: "limiter_trace Z entries s i H t z \<Longrightarrow> \<forall>x \<in> set H. fst x + sw_window s \<le> t \<Longrightarrow>
     entries z' (sw_prefix s @ '':'' @ i) = Map.empty \<Longrightarrow> limiter_trace Z entries s i H t z'"

definition in_window :: "SlidingWindow \<Rightarrow> time \<Rightarrow> time \<Rightarrow> bool" where
  "in_window s t u \<longleftrightarrow> u \<le> t \<and> float64_of_int (t - sw_window s) < float64_of_int u"

lemma instant_text_inj: "instant_text a = instant_text b \<longleftrightarrow> a = b"
  by (metis instant_read_text option.inject)

context zset_store
begin

definition tracks :: "SlidingWindow \<Rightarrow> (time \<times> bool \<times> int) list \<Rightarrow> time \<Rightarrow> (string \<Rightarrow> float64 option) \<Rightarrow> bool" where
  "tracks s H t es \<longleftrightarrow> 0 \<le> t \<and> (\<forall>u \<in> fst ` set H. 0 \<le> u \<and> u \<le> t)
     \<and> (\<forall>m x. es m = Some x \<longrightarrow> (\<exists>u \<in> fst ` set H. m = instant_text u \<and> x = float64_of_int u))
     \<and> (\<forall>u \<in> fst ` set H. in_window s t u \<longrightarrow> es (instant_text u) = Some (float64_of_int u))"

lemma tracks_call:
  assumes tr: "tracks s H t es" and older: "\<forall>x \<in> set H. fst x < t"
    and es': "es' = (\<lambda>m. case (es(instant_text t \<mapsto> float64_of_int t)) m of
        None \<Rightarrow> None | Some x \<Rightarrow> if 0 \<le> x \<and> x \<le> float64_of_int (t - sw_window s) then None else Some x)"
  shows "dom es' = instant_text ` {u \<in> insert t (fst ` set H). in_window s t u}"
    and "tracks s (H @ [(t, ok, c)]) t es'"
proof -
  have pos: "0 \<le> float64_of_int u" if "u \<in> insert t (fst ` set H)" for u
    using that tr by (auto simp: tracks_def intro: float64_of_int_nonneg)
  have le: "u \<le> t" if "u \<in> insert t (fst ` set H)" for u using that tr by (auto simp: tracks_def)
  have some: "es' m = Some x \<longleftrightarrow>
      (\<exists>u \<in> insert t (fst ` set H). m = instant_text u \<and> x = float64_of_int u \<and> in_window s t u)" for m x
  proof
    assume m: "es' m = Some x"
    then have m': "(es(instant_text t \<mapsto> float64_of_int t)) m = Some x" "\<not> (0 \<le> x \<and> x \<le> float64_of_int (t - sw_window s))"
      by (auto simp: es' split: option.splits if_splits)
    then have "m = instant_text t \<and> x = float64_of_int t \<or> es m = Some x" by (auto split: if_splits)
    moreover have "\<exists>u \<in> fst ` set H. m = instant_text u \<and> x = float64_of_int u" if "es m = Some x"
      using tr that unfolding tracks_def by blast
    ultimately obtain u where u: "u \<in> insert t (fst ` set H)" "m = instant_text u" "x = float64_of_int u" by blast
    with m'(2) pos [OF u(1)] le [OF u(1)] have "in_window s t u" by (auto simp: in_window_def)
    with u show "\<exists>u \<in> insert t (fst ` set H). m = instant_text u \<and> x = float64_of_int u \<and> in_window s t u" by blast
  next
    assume "\<exists>u \<in> insert t (fst ` set H). m = instant_text u \<and> x = float64_of_int u \<and> in_window s t u"
    then obtain u where u: "u \<in> insert t (fst ` set H)" "m = instant_text u" "x = float64_of_int u" "in_window s t u" by blast
    have "(es(instant_text t \<mapsto> float64_of_int t)) m = Some x"
      using u tr by (auto simp: tracks_def instant_text_inj)
    then show "es' m = Some x" using u(3,4) by (auto simp: es' in_window_def split: if_splits)
  qed
  show "dom es' = instant_text ` {u \<in> insert t (fst ` set H). in_window s t u}"
    using some by (auto simp: dom_def)
  show "tracks s (H @ [(t, ok, c)]) t es'"
    using tr some by (auto simp: tracks_def)
qed

lemma trace_tracks:
  "limiter_trace Z entries s i H t z \<Longrightarrow> 0 \<le> sw_window s \<Longrightarrow> tracks s H t (entries z (sw_prefix s @ '':'' @ i))
     \<and> sorted_wrt (<) (map fst H)
     \<and> (\<forall>A B u ok c. H = A @ (u, ok, c) # B \<longrightarrow>
          c = int (card {v \<in> fst ` set H. in_window s u v}) \<and> (ok \<longleftrightarrow> c \<le> sw_limit s))"
proof (induction rule: limiter_trace.induct)
  case (start z t)
  then show ?case by (auto simp: tracks_def)
next
  case (tick H t z t')
  have "in_window s t u" if "in_window s t' u" "u \<in> fst ` set H" for u
    using that tick float64_of_int_mono [of "t - sw_window s" "t' - sw_window s"]
    by (auto simp: in_window_def tracks_def)
  with tick show ?case by (force simp: tracks_def)
next
  case (call H t z ok c z')
  let ?k = "sw_prefix s @ '':'' @ i"
  note al = Allow_ok [OF call(3)]
  note tc = tracks_call [OF conjunct1 [OF call(4) [OF call(5)]] call(2) al(1)]
  have "card (dom (entries z' ?k)) = card {u \<in> insert t (fst ` set H). in_window s t u}"
    unfolding tc(1) by (intro card_image) (simp add: inj_on_def instant_text_inj)
  then have cnt: "c = int (card {u \<in> insert t (fst ` set H). in_window s t u})" using al(2) by simp
  have older: "{v \<in> fst ` set (H @ [(t, ok, c)]). in_window s u v} = {v \<in> fst ` set H. in_window s u v}"
    if "u < t" for u using that by (auto simp: in_window_def)
  have "c' = int (card {v \<in> fst ` set (H @ [(t, ok, c)]). in_window s u v}) \<and> (ok' \<longleftrightarrow> c' \<le> sw_limit s)"
    if split: "H @ [(t, ok, c)] = A @ (u, ok', c') # B" for A B u ok' c'
  proof (cases "B = []")
    case True
    with split have "u = t" "ok' = ok" "c' = c" by simp_all
    moreover have "fst ` set (H @ [(t, ok, c)]) = insert t (fst ` set H)" by simp
    ultimately show ?thesis using cnt al(3) by (simp only: simp_thms)
  next
    case False
    then obtain B' where "B = B' @ [(t, ok, c)]" "H = A @ (u, ok', c') # B'"
      using split by (metis append_butlast_last_id append_is_Nil_conv butlast_append butlast_snoc last_appendR
          last_snoc list.distinct(1) butlast.simps(2) last.simps)
    with call older [of u] show ?thesis by auto
  qed
  with call tc(2) show ?case by (auto simp: sorted_wrt_append)
next
  case (others H t z z')
  then show ?case by simp
next
  case (expiry H t z z')
  have "\<not> in_window s t u" if "u \<in> fst ` set H" for u
    using that expiry float64_of_int_mono [of u "t - sw_window s"] by (force simp: in_window_def)
  with expiry show ?case by (auto simp: tracks_def)
qed

end


section \<open>Sorted sets in memory\<close>

type_synonym zset_rows = "(string \<times> string \<times> float64) list"

definition zset_entries :: "zset_rows \<Rightarrow> string \<Rightarrow> string \<Rightarrow> float64 option" where
  "zset_entries rows k = map_of (map snd (filter (\<lambda>r. fst r = k) rows))"

definition memory_zset :: "zset_rows zset_client" where
  "memory_zset =
     \<lparr>ZAdd = (\<lambda>k x m rows. (None, (k, m, x) # rows)),
      ZRemRangeByScore = (\<lambda>k lo hi rows.
        (None, filter (\<lambda>(k', m, x). \<not> (k' = k \<and> (case zset_entries rows k m of None \<Rightarrow> False | Some y \<Rightarrow> lo \<le> y \<and> y \<le> hi))) rows)),
      ZCard = (\<lambda>k rows. (None, length (remdups (map (fst \<circ> snd) (filter (\<lambda>r. fst r = k) rows))))),
      Expire = (\<lambda>k w rows. (None, rows))\<rparr>"

lemma zset_entries_filter:
  "zset_entries (filter (\<lambda>(k', m, x). \<not> (k' = k \<and> P m)) rows) =
     (zset_entries rows)(k := (\<lambda>m. if P m then None else zset_entries rows k m))"
proof (intro ext)
  fix k' m
  show "zset_entries (filter (\<lambda>(k', m, x). \<not> (k' = k \<and> P m)) rows) k' m =
     ((zset_entries rows)(k := (\<lambda>m. if P m then None else zset_entries rows k m))) k' m"
    by (induction rows) (auto simp: zset_entries_def)
qed

interpretation memory: zset_store memory_zset zset_entries
proof unfold_locales
  fix k and rows :: zset_rows and n
  assume "ZCard memory_zset k rows = (None, n)"
  then have "n = card (set (map (fst \<circ> snd) (filter (\<lambda>r. fst r = k) rows)))"
    by (auto simp: memory_zset_def length_remdups_card_conv)
  moreover have "dom (zset_entries rows k) = set (map (fst \<circ> snd) (filter (\<lambda>r. fst r = k) rows))"
    by (auto simp: zset_entries_def dom_map_of_conv_image_fst image_image)
  ultimately show "n = card (dom (zset_entries rows k))" by simp
next
  fix k lo hi and rows rows' :: zset_rows
  assume "ZRemRangeByScore memory_zset k lo hi rows = (None, rows')"
  then have rows': "rows' = filter (\<lambda>(k', m, x). \<not> (k' = k \<and>
      (case zset_entries rows k m of None \<Rightarrow> False | Some y \<Rightarrow> lo \<le> y \<and> y \<le> hi))) rows"
    by (simp add: memory_zset_def)
  show "zset_entries rows' = (zset_entries rows)(k := (\<lambda>m. case zset_entries rows k m of
        None \<Rightarrow> None | Some x \<Rightarrow> if lo \<le> x \<and> x \<le> hi then None else Some x))"
    unfolding rows' zset_entries_filter by (auto simp: fun_eq_iff split: option.splits)
qed (auto simp: memory_zset_def zset_entries_def)

section \<open>Examples and remarks\<close>

text \<open>
  The limiter never sees the authenticated customer: for a request as it arrives (no claims in its
  context yet) the throttling key is the \<^verbatim>\<open>X-Customer-Id\<close> header the client chose; without that header
  the limiter is not consulted at all, also when the request carries a valid token.
\<close>

lemma limiter_keyed_by_client_header:
  assumes "hr_Claims r = None" and "hr_Method r = ''POST''" and "hr_Path r = ''/api/v1/orders''"
  shows "order_identify C r = hr_Header r ''X-Customer-Id''
     \<and> (hr_Header r ''X-Customer-Id'' = '''' \<longrightarrow>
          rate_HTTP Z (orders_limiter n) now (order_identify C) h r (z, st) = (case h r st of (resp, st') \<Rightarrow> (resp, z, st')))"
  using assms by (simp add: order_identify_def FromContext_def rate_HTTP_def Let_def)

section \<open>Properties\<close>



end
