(* ===== verification/Order_Api.thy ===== *)
theory Order_Api
  imports Rate_Limit
begin

text \<open>
  The HTTP interface of the order service as \<^verbatim>\<open>cmd/order-service/main.go\<close> puts it together: the
  metrics middleware around the rate limiter around the router, whose order routes are behind the
  token check.  How \<^verbatim>\<open>chi\<close> matches a path against the registered routes is the parameter \<open>chi\<close>,
  about which nothing is assumed; its request id, real-ip, recoverer and time-out middlewares are left
  out.
\<close>

section \<open>Routes\<close>

datatype endpoint = Healthz | MetricsPage | Login | PlaceOrder | GetOrder | CancelOrder | UpdateStatus

text \<open>Method, pattern and endpoint; \<^verbatim>\<open>r.Handle\<close> registers for every method.\<close>

definition order_Routes :: "(string \<times> string \<times> endpoint) list" where
  "order_Routes =
     [(''POST'', ''/api/v1/orders/'', PlaceOrder),
      (''GET'', ''/api/v1/orders/{id}'', GetOrder),
      (''PATCH'', ''/api/v1/orders/{id}/cancel'', CancelOrder),
      (''PATCH'', ''/api/v1/orders/{id}/status'', UpdateStatus)]"

definition public_routes :: "(string \<times> string \<times> endpoint) list" where
  "public_routes =
     [(''GET'', ''/healthz'', Healthz),
      (''*'', ''/metrics'', MetricsPage),
      (''POST'', ''/api/v1/auth/login'', Login)]"

text \<open>
  A router library: for the registered methods and patterns, a method and a path, the code of its own
  answer (404 or 405), or the number of the route, the URL parameters and the route pattern.
\<close>

type_synonym chi = "(string \<times> string) list \<Rightarrow> string \<Rightarrow> string \<Rightarrow> int + nat \<times> (string \<Rightarrow> string) \<times> string"

record api_state =
  api_db :: db
  api_metrics :: metrics
  api_route :: string  \<comment> \<open>the pattern in \<^verbatim>\<open>chi\<close>'s context of the request\<close>

record api_env =
  ae_call :: call_env
  ae_read :: db  \<comment> \<open>the database a status change reads\<close>
  ae_now :: time
  ae_elapsed :: float64
  ae_page :: "metrics \<Rightarrow> json"  \<comment> \<open>the exposition of Prometheus\<close>

section \<open>Handlers\<close>

definition plain_response :: "int \<Rightarrow> json \<Rightarrow> response" where
  "plain_response code body = \<lparr>resp_code = code, resp_headers = [], resp_body = body\<rparr>"

definition on_db :: "(db \<times> metrics \<Rightarrow> response \<times> db \<times> metrics) \<Rightarrow> api_state \<Rightarrow> response \<times> api_state" where
  "on_db f s = (case f (api_db s, api_metrics s) of
     (resp, d', m') \<Rightarrow> (resp, s\<lparr>api_db := d', api_metrics := m'\<rparr>))"

fun endpoint_handler ::
  "codec \<Rightarrow> jwt_lib \<Rightarrow> Signer \<Rightarrow> api_env \<Rightarrow> (string \<Rightarrow> string) \<Rightarrow> endpoint \<Rightarrow> api_state http_handler" where
  "endpoint_handler C J signer E param Healthz r s = (plain_response 200 (JStr ''ok''), s)"
| "endpoint_handler C J signer E param MetricsPage r s = (plain_response 200 (ae_page E (api_metrics s)), s)"
| "endpoint_handler C J signer E param Login r s = (handle_Login C J signer (ae_now E) r, s)"
| "endpoint_handler C J signer E param PlaceOrder r s =
     on_db (handle_place C (env_write (ae_call E)) (env_now (ae_call E)) (env_trace (ae_call E)) (hr_Body r)) s"
| "endpoint_handler C J signer E param GetOrder r s =
     (handle_get C (env_read (ae_call E)) (param ''id'') (api_db s), s)"
| "endpoint_handler C J signer E param CancelOrder r s =
     on_db (handle_cancel C (ae_call E) (param ''id'') (ae_read E)) s"
| "endpoint_handler C J signer E param UpdateStatus r s =
     on_db (handle_updateStatus C (ae_call E) (param ''id'') (hr_Body r) (ae_read E)) s"

definition order_router :: "codec \<Rightarrow> jwt_lib \<Rightarrow> chi \<Rightarrow> Signer \<Rightarrow> api_env \<Rightarrow> api_state http_handler" where
  "order_router C J chi signer E r s =
     (case chi (map (\<lambda>(m, p, _). (m, p)) (public_routes @ order_Routes)) (hr_Method r) (hr_Path r) of
        Inl code \<Rightarrow> (plain_response code JNull, s)
      | Inr (i, param, pattern) \<Rightarrow>
          (let s' = s\<lparr>api_route := pattern\<rparr>; h = endpoint_handler C J signer E param in
           if i < length public_routes then h (snd (snd (public_routes ! i))) r s'
           else if i - length public_routes < length order_Routes
           then auth_Middleware J signer (ae_now E) (h (snd (snd (order_Routes ! (i - length public_routes))))) r s'
           else (plain_response 404 JNull, s)))"

definition order_service_HTTP ::
  "codec \<Rightarrow> jwt_lib \<Rightarrow> chi \<Rightarrow> 'z zset_client \<Rightarrow> Signer \<Rightarrow> int \<Rightarrow> api_env \<Rightarrow> ('z \<times> api_state) http_handler" where
  "order_service_HTTP C J chi Z signer ordersPerMinute E r = (\<lambda>(z, s).
     (case rate_HTTP Z (orders_limiter ordersPerMinute) (ae_now E) (order_identify C)
             (order_router C J chi signer E) r (z, s\<lparr>api_route := ''''\<rparr>) of
        (resp, z', s') \<Rightarrow>
          (resp, z', s'\<lparr>api_metrics :=
             HTTPMiddleware ''order-service'' (hr_Method r) (api_route s') (ae_elapsed E) (response_calls resp)
               (api_metrics s')\<rparr>)))"

section \<open>What a request can do\<close>

text \<open>
  A request is harmless when it keeps the schema's constraints, leaves the database alone unless
  \<open>allowed\<close>, changes the request counters not at all, and is not answered 401 or 429.
\<close>

definition harmless :: "bool \<Rightarrow> api_state \<Rightarrow> response \<times> api_state \<Rightarrow> bool" where
  "harmless allowed s res \<longleftrightarrow>
     (wf_db (api_db s) \<longrightarrow> wf_db (api_db (snd res)))
     \<and> (api_db (snd res) = api_db s \<or> allowed \<and> resp_code (fst res) \<noteq> 401 \<and> resp_code (fst res) \<noteq> 429)
     \<and> httpRequestsTotal (api_metrics (snd res)) = httpRequestsTotal (api_metrics s)
     \<and> httpRequestDuration (api_metrics (snd res)) = httpRequestDuration (api_metrics s)"

lemma harmless_same: "api_db s' = api_db s \<Longrightarrow> api_metrics s' = api_metrics s \<Longrightarrow> harmless b s (resp, s')"
  by (simp add: harmless_def)

lemma harmless_headers:
  "harmless b s (resp, s') \<Longrightarrow> harmless b s (resp\<lparr>resp_headers := hs\<rparr>, s')"
  by (simp add: harmless_def)

lemma harmless_weaken: "harmless b s res \<Longrightarrow> (b \<Longrightarrow> b') \<Longrightarrow> harmless b' s res"
  by (auto simp: harmless_def)

lemma harmless_route: "harmless b (s\<lparr>api_route := p\<rparr>) res \<longleftrightarrow> harmless b s res"
  by (simp add: harmless_def)

lemma harmless_on_db:
  assumes "\<And>resp d' m'. f (api_db s, api_metrics s) = (resp, d', m') \<Longrightarrow>
      (wf_db (api_db s) \<longrightarrow> wf_db d') \<and> resp_code resp \<noteq> 401 \<and> resp_code resp \<noteq> 429
      \<and> httpRequestsTotal m' = httpRequestsTotal (api_metrics s)
      \<and> httpRequestDuration m' = httpRequestDuration (api_metrics s)"
  shows "harmless True s (on_db f s)"
proof -
  obtain resp d' m' where "f (api_db s, api_metrics s) = (resp, d', m')" by (metis prod_cases3)
  with assms [OF this] show ?thesis by (simp add: harmless_def on_db_def)
qed

context codec_laws
begin

lemma Place_effect:
  assumes "order_Place C e now tc req (d, m) = (r, d', m')"
  shows "(wf_db d \<longrightarrow> wf_db d') \<and> httpRequestsTotal m' = httpRequestsTotal m
     \<and> httpRequestDuration m' = httpRequestDuration m"
  using assms by (cases rule: Place_cases) (auto intro: placement_wf)

lemma Transition_effect:
  assumes "Transition C v i to d0 (d, m) = (r, d', m')"
  shows "(wf_db d \<longrightarrow> wf_db d') \<and> httpRequestsTotal m' = httpRequestsTotal m
     \<and> httpRequestDuration m' = httpRequestDuration m"
  using assms Transition_wf [OF assms] by (cases rule: Transition_cases) auto

lemma place_harmless: "harmless True s (on_db (handle_place C e now tc body) s)"
  by (rule harmless_on_db)
    (auto simp: handle_place_def split: sum.splits if_splits prod.splits dest!: Place_effect)

lemma updateStatus_harmless: "harmless True s (on_db (handle_updateStatus C v param body d0) s)"
  by (rule harmless_on_db)
    (auto simp: handle_updateStatus_def split: option.splits sum.splits if_splits prod.splits dest!: Transition_effect)

lemma cancel_harmless: "harmless True s (on_db (handle_cancel C v param d0) s)"
  by (rule harmless_on_db)
    (auto simp: handle_cancel_def order_Cancel_def split: option.splits sum.splits if_splits prod.splits
      dest!: Transition_effect)

lemma endpoint_harmless: "harmless True s (endpoint_handler C J signer E param ep r s)"
  by (cases ep) (auto simp: place_harmless updateStatus_harmless cancel_harmless harmless_same)

end

lemma public_harmless:
  assumes "ep \<in> snd ` snd ` set public_routes"
  shows "harmless False s (endpoint_handler C J signer E param ep r s)"
  using assms by (auto simp: public_routes_def harmless_same)

text \<open>The router: only the order routes can change the database, and they are behind the token check.\<close>

definition has_token :: "(string \<Rightarrow> Claims) \<Rightarrow> (string \<Rightarrow> string \<Rightarrow> bool) \<Rightarrow> Signer \<Rightarrow> time \<Rightarrow> http_request \<Rightarrow> bool" where
  "has_token claims_of signed_by signer now r \<longleftrightarrow>
     (\<exists>tok. hr_Header r ''Authorization'' = ''Bearer '' @ tok \<and> signed_by (sg_secret signer) tok
        \<and> not_expired now (claims_of tok))"

lemma router_harmless:
  assumes "codec_laws C" "jwt_laws J claims_of method_of signed_by"
  shows "harmless (has_token claims_of signed_by signer (ae_now E) r) s (order_router C J chi signer E r s)"
proof (cases "chi (map (\<lambda>(m, p, _). (m, p)) (public_routes @ order_Routes)) (hr_Method r) (hr_Path r)")
  case (Inl code)
  then show ?thesis by (simp add: order_router_def harmless_same)
next
  case (Inr m)
  obtain i param pattern where m: "m = (i, param, pattern)" by (metis prod_cases3)
  let ?s = "s\<lparr>api_route := pattern\<rparr>" and ?h = "endpoint_handler C J signer E param"
  let ?ok = "has_token claims_of signed_by signer (ae_now E) r"
  consider (public) "i < length public_routes"
    | (order) "\<not> i < length public_routes" "i - length public_routes < length order_Routes"
    | (none) "\<not> i < length public_routes" "\<not> i - length public_routes < length order_Routes" by blast
  then show ?thesis
  proof cases
    case public
    then have "snd (snd (public_routes ! i)) \<in> snd ` snd ` set public_routes" by (intro imageI nth_mem)
    from public_harmless [OF this, of ?s] have "harmless ?ok s (?h (snd (snd (public_routes ! i))) r ?s)"
      unfolding harmless_route by (rule harmless_weaken) simp
    with public Inr m show ?thesis by (simp add: order_router_def Let_def)
  next
    case order
    let ?ep = "snd (snd (order_Routes ! (i - length public_routes)))"
    have "harmless ?ok ?s (auth_Middleware J signer (ae_now E) (?h ?ep) r ?s)"
    proof (cases rule: jwt_laws.Middleware_cases [OF assms(2), of signer "ae_now E" "?h ?ep" r ?s])
      case (1 msg)
      then show ?thesis by (simp add: harmless_same)
    next
      case (2 tok)
      then have "?ok" by (auto simp: has_token_def)
      with 2 codec_laws.endpoint_harmless [OF assms(1), of ?s J signer E param ?ep]
      show ?thesis by simp
    qed
    with order Inr m show ?thesis by (simp add: order_router_def Let_def harmless_route)
  next
    case none
    with Inr m show ?thesis by (simp add: order_router_def Let_def harmless_same)
  qed
qed

lemma limiter_harmless:
  assumes "\<And>s. harmless b s (h r s)" "rate_HTTP Z w now identify h r (z, s) = (resp, z', s')"
  shows "harmless b s (resp, s')"
proof -
  have "harmless b s (fst (h r s), snd (h r s))" using assms(1) by simp
  with assms(2) show ?thesis
    by (auto simp: rate_HTTP_def Let_def harmless_headers harmless_same split: if_splits sum.splits prod.splits)
qed

lemma HTTP_inner:
  assumes "codec_laws C" "jwt_laws J claims_of method_of signed_by"
    and "order_service_HTTP C J chi Z signer n E r (z, s) = (resp, z', s')"
  obtains s1 where "harmless (has_token claims_of signed_by signer (ae_now E) r) s (resp, s1)" "api_db s' = api_db s1"
    "s' = s1\<lparr>api_metrics := HTTPMiddleware ''order-service'' (hr_Method r) (api_route s1) (ae_elapsed E)
       (response_calls resp) (api_metrics s1)\<rparr>"
proof -
  let ?rate = "rate_HTTP Z (orders_limiter n) (ae_now E) (order_identify C) (order_router C J chi signer E) r
      (z, s\<lparr>api_route := ''''\<rparr>)"
  obtain resp1 z1 s1 where rate: "?rate = (resp1, z1, s1)" by (metis prod_cases3)
  from limiter_harmless [OF router_harmless [OF assms(1,2)] rate]
  have "harmless (has_token claims_of signed_by signer (ae_now E) r) s (resp1, s1)" by (simp add: harmless_route)
  with that [of s1] rate assms(3) show thesis by (auto simp: order_service_HTTP_def)
qed

section \<open>An example request\<close>

definition example_api_env :: api_env where
  "example_api_env = \<lparr>ae_call = example_call, ae_read = empty_db, ae_now = 6, ae_elapsed = 1, ae_page = (\<lambda>_. JNull)\<rparr>"

text \<open>A router that takes every request for a placement.\<close>

definition place_chi :: chi where
  "place_chi routes meth path = Inr (3, (\<lambda>_. ''''), ''/api/v1/orders'')"

definition example_api_state :: api_state where
  "example_api_state = \<lparr>api_db = empty_db, api_metrics = no_metrics, api_route = ''''\<rparr>"

definition anonymous_request :: http_request where
  "anonymous_request = \<lparr>hr_Method = ''POST'', hr_Path = ''/api/v1/orders'', hr_Header = (\<lambda>_. ''Basic x''),
     hr_Claims = None, hr_Body = None\<rparr>"

abbreviation anonymous_run :: "response \<times> zset_rows \<times> api_state" where
  "anonymous_run \<equiv> order_service_HTTP canonical_codec plain_jwt place_chi memory_zset (NewSigner ''s'' 1) 5
     example_api_env anonymous_request ([], example_api_state)"

section \<open>Examples and remarks\<close>

text \<open>
  Every request is counted once, under the status that was sent: one counter of the order service
  goes up, that of the request's method, its route and the code of its response, and one duration is
  observed, also for requests the limiter or the token check turns away.
\<close>

lemma requests_counted_once:
  assumes "codec_laws C" and "jwt_laws J claims_of method_of signed_by"
    and "order_service_HTTP C J chi Z signer n E r (z, s) = (resp, z', s')"
  shows "\<exists>route. (\<forall>key. httpRequestsTotal (api_metrics s') key = httpRequestsTotal (api_metrics s) key
        + (if key = [''order-service'', hr_Method r, route, instant_text (resp_code resp)] then 1 else 0))
     \<and> httpRequestDuration (api_metrics s') = httpRequestDuration (api_metrics s)
         @ [([''order-service'', hr_Method r, route], ae_elapsed E)]"
proof -
  obtain s1 where "harmless (has_token claims_of signed_by signer (ae_now E) r) s (resp, s1)"
    and s': "s' = s1\<lparr>api_metrics := HTTPMiddleware ''order-service'' (hr_Method r) (api_route s1) (ae_elapsed E)
      (response_calls resp) (api_metrics s1)\<rparr>"
    by (rule HTTP_inner [OF assms])
  then show ?thesis
    by (intro exI [of _ "if api_route s1 = '''' then ''unknown'' else api_route s1"])
      (simp add: harmless_def HTTPMiddleware_total HTTPMiddleware_duration statusRecorder_response)
qed



section \<open>Properties\<close>

text \<open>
  C20: the interface of the order service is guarded: whatever request arrives and however the router
  matches it, the database changes only if the request carries an unexpired bearer token whose
  signature checks with the service's secret, a request answered 401 or 429 has no effect on it, and
  the schema's constraints are kept.
\<close>

theorem order_api_guarded:
  assumes "codec_laws C" and "jwt_laws J claims_of method_of signed_by"
    and "order_service_HTTP C J chi Z signer n E r (z, s) = (resp, z', s')"
  shows "(api_db s' = api_db s
        \<or> has_token claims_of signed_by signer (ae_now E) r \<and> resp_code resp \<noteq> 401 \<and> resp_code resp \<noteq> 429)
     \<and> (wf_db (api_db s) \<longrightarrow> wf_db (api_db s'))"
proof -
  obtain s1 where "harmless (has_token claims_of signed_by signer (ae_now E) r) s (resp, s1)" "api_db s' = api_db s1"
    by (rule HTTP_inner [OF assms])
  then show ?thesis by (simp add: harmless_def)
qed

theorem order_api_guarded_witness: "api_db (snd (snd anonymous_run)) = api_db example_api_state"
proof -
  have run: "anonymous_run = (fst anonymous_run, fst (snd anonymous_run), snd (snd anonymous_run))" by simp
  have "\<not> has_token plain_claims plain_signed (NewSigner ''s'' 1) (ae_now example_api_env) anonymous_request"
    by (simp add: has_token_def anonymous_request_def)
  with order_api_guarded [OF canonical.codec_laws_axioms plain.jwt_laws_axioms run] show ?thesis by blast
qed

end
