(* ===== verification/Geo_Index.thy ===== *)
theory Geo_Index
  imports Rush_Json
begin

text \<open>
  The Redis geo index of rider positions, as the program uses it through \<^verbatim>\<open>go-redis\<close>:
  \<^verbatim>\<open>GEOADD\<close>, \<^verbatim>\<open>ZREM\<close> and \<^verbatim>\<open>GEOSEARCH ... ASC COUNT n\<close> on a key.  Redis is a parameter, the
  record \<open>geo_client\<close>; what its documentation promises is the locale \<open>geo_index\<close>, stated with
  the set of members of a key and the distance Redis measures to a member (its positions are
  rounded to a geohash, so the distance is Redis's own).  The locale is interpreted on an
  in-memory index with Redis's range check on coordinates.
\<close>

record 'g geo_client =
  GeoAdd :: "string \<Rightarrow> string \<Rightarrow> float64 \<Rightarrow> float64 \<Rightarrow> 'g \<Rightarrow> error option \<times> 'g"
  ZRem :: "string \<Rightarrow> string \<Rightarrow> 'g \<Rightarrow> error option \<times> 'g"
  GeoSearch :: "string \<Rightarrow> float64 \<Rightarrow> float64 \<Rightarrow> float64 \<Rightarrow> nat \<Rightarrow> 'g \<Rightarrow> error + string list"

definition RidersGeoKey :: string where
  "RidersGeoKey = ''riders:geo''"

section \<open>The contract\<close>

locale geo_index =
  fixes G :: "'g geo_client"
    and members :: "'g \<Rightarrow> string \<Rightarrow> string set"
    and distance_km :: "'g \<Rightarrow> string \<Rightarrow> float64 \<Rightarrow> float64 \<Rightarrow> string \<Rightarrow> float64"
  assumes add_ok: "GeoAdd G k n lat lng g = (None, g') \<Longrightarrow>
      members g' = (members g)(k := insert n (members g k))"
    and add_err: "GeoAdd G k n lat lng g = (Some e, g') \<Longrightarrow>
      g' = g \<or> members g' = (members g)(k := insert n (members g k))"
    and rem_ok: "ZRem G k n g = (None, g') \<Longrightarrow> members g' = (members g)(k := members g k - {n})"
    and rem_err: "ZRem G k n g = (Some e, g') \<Longrightarrow>
      g' = g \<or> members g' = (members g)(k := members g k - {n})"
    and search_sound: "GeoSearch G k lat lng r c g = Inr res \<Longrightarrow>
      distinct res \<and> length res \<le> c \<and> sorted (map (distance_km g k lat lng) res) \<and>
      set res \<subseteq> {n \<in> members g k. distance_km g k lat lng n \<le> r}"
    and search_complete: "GeoSearch G k lat lng r c g = Inr res \<Longrightarrow> n \<in> members g k \<Longrightarrow>
      distance_km g k lat lng n \<le> r \<Longrightarrow> n \<notin> set res \<Longrightarrow>
      length res = c \<and> (\<forall>x \<in> set res. distance_km g k lat lng x \<le> distance_km g k lat lng n)"
begin

lemma rem_members: "ZRem G k n g = (v, g') \<Longrightarrow> members g' k \<subseteq> members g k"
  by (cases v) (auto dest: rem_ok rem_err)

text \<open>A search that returns fewer than its limit has found every member in the radius.\<close>

lemma search_exhaustive:
  "GeoSearch G k lat lng r c g = Inr res \<Longrightarrow> length res < c \<Longrightarrow>
     set res = {n \<in> members g k. distance_km g k lat lng n \<le> r}"
  using search_sound [of k lat lng r c g res] search_complete [of k lat lng r c g res] by fastforce

lemma search_nearest_first:
  assumes "GeoSearch G k lat lng r c g = Inr (xs @ y # zs)" "n \<in> members g k"
    "distance_km g k lat lng n \<le> r" "n \<notin> set xs"
  shows "distance_km g k lat lng y \<le> distance_km g k lat lng n"
proof (cases "n \<in> set (y # zs)")
  case True
  have "sorted (map (distance_km g k lat lng) (y # zs))"
    using search_sound [OF assms(1)] by (simp add: sorted_append)
  with True show ?thesis by auto
next
  case False
  with assms have "n \<notin> set (xs @ y # zs)" by simp
  with search_complete [OF assms(1,2,3)] show ?thesis by auto
qed

end

section \<open>An in-memory index\<close>

record geo_entry =
  ge_key :: string
  ge_name :: string
  ge_lat :: float64
  ge_lng :: float64

type_synonym metric = "float64 \<Rightarrow> float64 \<Rightarrow> float64 \<Rightarrow> float64 \<Rightarrow> float64"

definition geo_drop :: "string \<Rightarrow> string \<Rightarrow> geo_entry list \<Rightarrow> geo_entry list" where
  "geo_drop k n es = filter (\<lambda>x. \<not> (ge_key x = k \<and> ge_name x = n)) es"

definition geo_members :: "geo_entry list \<Rightarrow> string \<Rightarrow> string set" where
  "geo_members es k = ge_name ` set (filter (\<lambda>x. ge_key x = k) es)"

definition geo_distance :: "metric \<Rightarrow> geo_entry list \<Rightarrow> string \<Rightarrow> float64 \<Rightarrow> float64 \<Rightarrow> string \<Rightarrow> float64" where
  "geo_distance mtr es k lat lng n =
     (case find (\<lambda>x. ge_key x = k \<and> ge_name x = n) es of
        None \<Rightarrow> 0 | Some x \<Rightarrow> mtr lat lng (ge_lat x) (ge_lng x))"

definition list_geo :: "metric \<Rightarrow> geo_entry list geo_client" where
  "list_geo mtr =
     \<lparr>GeoAdd = (\<lambda>k n lat lng es.
        if \<bar>lat\<bar> \<le> 85.05112878 \<and> \<bar>lng\<bar> \<le> 180
        then (None, \<lparr>ge_key = k, ge_name = n, ge_lat = lat, ge_lng = lng\<rparr> # geo_drop k n es)
        else (Some (ErrorString ''ERR invalid longitude,latitude pair''), es)),
      ZRem = (\<lambda>k n es. (None, geo_drop k n es)),
      GeoSearch = (\<lambda>k lat lng r c es.
        if \<bar>lat\<bar> \<le> 85.05112878 \<and> \<bar>lng\<bar> \<le> 180
        then Inr (take c (sort_key (geo_distance mtr es k lat lng)
               (filter (\<lambda>n. geo_distance mtr es k lat lng n \<le> r)
                 (remdups (map ge_name (filter (\<lambda>x. ge_key x = k) es))))))
        else Inl (ErrorString ''ERR invalid longitude,latitude pair''))\<rparr>"

lemma geo_members_drop: "geo_members (geo_drop k n es) = (geo_members es)(k := geo_members es k - {n})"
  by (auto simp: geo_members_def geo_drop_def fun_eq_iff)

lemma geo_members_Cons:
  "geo_members (x # es) = (geo_members es)(ge_key x := insert (ge_name x) (geo_members es (ge_key x)))"
  by (auto simp: geo_members_def fun_eq_iff)

lemma sorted_take_least:
  assumes "sorted (map f xs)" "n \<in> set xs" "n \<notin> set (take c xs)"
  shows "length (take c xs) = c \<and> (\<forall>x \<in> set (take c xs). f x \<le> f n)"
proof -
  have split: "take c xs @ drop c xs = xs" by simp
  have n: "n \<in> set (drop c xs)" using assms(2,3) by (metis Un_iff set_append split)
  then have "length (take c xs) = c" by (cases "c \<le> length xs") auto
  moreover have "sorted (map f (take c xs) @ map f (drop c xs))"
    using assms(1) by (metis map_append split)
  ultimately show ?thesis using n by (auto simp: sorted_append)
qed

interpretation memory_geo: geo_index "list_geo mtr" geo_members "geo_distance mtr" for mtr
proof unfold_locales
  fix k lat lng r c es res
  assume s: "GeoSearch (list_geo mtr) k lat lng r c es = Inr res"
  let ?xs = "sort_key (geo_distance mtr es k lat lng) (filter (\<lambda>n. geo_distance mtr es k lat lng n \<le> r)
    (remdups (map ge_name (filter (\<lambda>x. ge_key x = k) es))))"
  have res: "res = take c ?xs" using s by (auto simp: list_geo_def split: if_splits)
  have xs: "set ?xs = {n \<in> geo_members es k. geo_distance mtr es k lat lng n \<le> r}"
    by (auto simp: geo_members_def)
  have srt: "sorted (map (geo_distance mtr es k lat lng) ?xs)" by simp
  show "distinct res \<and> length res \<le> c \<and> sorted (map (geo_distance mtr es k lat lng) res) \<and>
      set res \<subseteq> {n \<in> geo_members es k. geo_distance mtr es k lat lng n \<le> r}"
    using srt xs set_take_subset [of c ?xs] by (auto simp: res sorted_wrt_take simp flip: take_map)
  fix n
  assume n: "n \<in> geo_members es k" "geo_distance mtr es k lat lng n \<le> r" "n \<notin> set res"
  then have "n \<in> set ?xs" using xs by blast
  from sorted_take_least [OF srt this] n(3)
  show "length res = c \<and> (\<forall>x \<in> set res. geo_distance mtr es k lat lng x \<le> geo_distance mtr es k lat lng n)"
    unfolding res by blast
qed (auto simp: list_geo_def geo_members_drop geo_members_Cons split: if_splits)

end
