(* ===== verification/Assignment.thy ===== *)
theory Assignment
  imports Order_Service Geo_Index
begin

text \<open>
  \<^verbatim>\<open>internal/assignment\<close>: choosing a rider for a placed order.  The candidates come from the geo
  index, each claim is one transaction, and an order nobody could be found for is cancelled in a
  transaction of its own.  Other actors may write to the database between these transactions: the
  environment \<open>assign_env\<close> says what they do before the k-th one, as a function on the database.
\<close>

section \<open>Events\<close>

record OrderAssignedEvent =
  assigned_OrderID :: uuid
  assigned_RiderID :: uuid
  assigned_AssignedAt :: time

definition zero_assigned_event :: OrderAssignedEvent where
  "zero_assigned_event = \<lparr>assigned_OrderID = uuid_Nil, assigned_RiderID = uuid_Nil, assigned_AssignedAt = 0\<rparr>"

definition assigned_event_json :: "codec \<Rightarrow> OrderAssignedEvent \<Rightarrow> json" where
  "assigned_event_json C ev = JObj
     [(''order_id'', json_uuid C (assigned_OrderID ev)),
      (''rider_id'', json_uuid C (assigned_RiderID ev)),
      (''assigned_at'', json_time C (assigned_AssignedAt ev))]"

definition assigned_event_fields :: "codec \<Rightarrow> OrderAssignedEvent fields" where
  "assigned_event_fields C =
     [(''order_id'', field (dec_uuid C) (\<lambda>v s. s\<lparr>assigned_OrderID := v\<rparr>)),
      (''rider_id'', field (dec_uuid C) (\<lambda>v s. s\<lparr>assigned_RiderID := v\<rparr>)),
      (''assigned_at'', field (dec_time C) (\<lambda>v s. s\<lparr>assigned_AssignedAt := v\<rparr>))]"

text \<open>\<^verbatim>\<open>noRiderEvent\<close>\<close>

definition no_rider_event_json :: "codec \<Rightarrow> uuid \<Rightarrow> string \<Rightarrow> time \<Rightarrow> json" where
  "no_rider_event_json C orderID reason now = JObj
     [(''order_id'', json_uuid C orderID), (''status'', JStr ''CANCELLED''),
      (''reason'', JStr reason), (''changed_at'', json_time C now)]"

section \<open>Candidates\<close>

definition searchRadiusKm :: float64 where
  "searchRadiusKm = 25"

definition nearestAvailableRiders ::
  "codec \<Rightarrow> 'g geo_client \<Rightarrow> float64 \<Rightarrow> float64 \<Rightarrow> nat \<Rightarrow> 'g \<Rightarrow> error + uuid list" where
  "nearestAvailableRiders C G lat lng limit g =
     (case GeoSearch G RidersGeoKey lat lng searchRadiusKm limit g of
        Inl err \<Rightarrow> Inl err
      | Inr res \<Rightarrow> Inr (List.map_filter (uuid_Parse C) res))"

section \<open>Claiming a rider\<close>

definition claim_update_riders :: "pg_env \<Rightarrow> uuid \<Rightarrow> db \<Rightarrow> error + nat \<times> db" where
  "claim_update_riders e riderID d =
     (let p = (\<lambda>x. rider_ID x = riderID \<and> rider_Status x = ''AVAILABLE'') in
      Inr (rows_affected p (riders d),
           d\<lparr>riders := sql_update p (\<lambda>x. x\<lparr>rider_Status := ''BUSY'', rider_UpdatedAt := pg_now e\<rparr>) (riders d)\<rparr>))"

definition claim_update_orders :: "pg_env \<Rightarrow> uuid \<Rightarrow> uuid \<Rightarrow> db \<Rightarrow> error + nat \<times> db" where
  "claim_update_orders e orderID riderID d =
     (let n = rows_affected (\<lambda>x. order_ID x = orderID) (orders d) in
      if n \<noteq> 0 \<and> \<not> rider_exists riderID d then Inl (ErrorString ''orders_rider_id_fkey'')
      else Inr (n, d\<lparr>orders := sql_update (\<lambda>x. order_ID x = orderID)
                  (\<lambda>x. x\<lparr>order_RiderID := Some riderID, order_UpdatedAt := pg_now e\<rparr>) (orders d)\<rparr>))"

definition claim_body ::
  "codec \<Rightarrow> pg_env \<Rightarrow> time \<Rightarrow> carrier \<Rightarrow> uuid \<Rightarrow> uuid \<Rightarrow> db \<Rightarrow> bool tx_exit \<times> db" where
  "claim_body C e now tc orderID riderID d =
     (case stmt e 0 (claim_update_riders e riderID) d of
        Inl err \<Rightarrow> (Rollback (Inl err), d)
      | Inr (n, d1) \<Rightarrow>
          if n = 0 then (Rollback (Inr False), d1)
          else (case stmt e 1 (claim_update_orders e orderID riderID) d1 of
              Inl err \<Rightarrow> (Rollback (Inl err), d1)
            | Inr (_, d2) \<Rightarrow>
                (case stmt e 2 (insert_order_event e orderID ''order.assigned''
                        (JObj [(''rider_id'', JStr (uuid_String C riderID))])) d2 of
                   Inl err \<Rightarrow> (Rollback (Inl err), d2)
                 | Inr (_, d3) \<Rightarrow>
                     (case outbox_Write e 3 tc orderID TopicOrderAssigned (uuid_String C orderID)
                             (Inr (assigned_event_json C \<lparr>assigned_OrderID = orderID,
                                     assigned_RiderID = riderID, assigned_AssignedAt = now\<rparr>)) d3 of
                        Inl err \<Rightarrow> (Rollback (Inl (WrapError ''write outbox: '' err '''')), d3)
                      | Inr (_, d4) \<Rightarrow> (Commit True, d4)))))"

definition claimRider ::
  "codec \<Rightarrow> pg_env \<Rightarrow> time \<Rightarrow> carrier \<Rightarrow> uuid \<Rightarrow> uuid \<Rightarrow> db \<Rightarrow> (error + bool) \<times> db" where
  "claimRider C e now tc orderID riderID d = run_tx e (claim_body C e now tc orderID riderID) d"

section \<open>Cancelling an order without a rider\<close>

definition cancel_update_orders :: "pg_env \<Rightarrow> uuid \<Rightarrow> db \<Rightarrow> error + nat \<times> db" where
  "cancel_update_orders e orderID d =
     (let p = (\<lambda>x. order_ID x = orderID \<and> order_Status x = ''PLACED'') in
      Inr (rows_affected p (orders d),
           d\<lparr>orders := sql_update p (\<lambda>x. x\<lparr>order_Status := ''CANCELLED'', order_UpdatedAt := pg_now e\<rparr>) (orders d)\<rparr>))"

definition cancel_body ::
  "codec \<Rightarrow> pg_env \<Rightarrow> time \<Rightarrow> carrier \<Rightarrow> uuid \<Rightarrow> string \<Rightarrow> db \<Rightarrow> unit tx_exit \<times> db" where
  "cancel_body C e now tc orderID reason d =
     (case stmt e 0 (cancel_update_orders e orderID) d of
        Inl err \<Rightarrow> (Rollback (Inl (WrapError ''update order cancelled: '' err '''')), d)
      | Inr (n, d1) \<Rightarrow>
          if n = 0 then (Commit (), d1)
          else (case outbox_Write e 1 tc orderID TopicOrderStatusUpdated (uuid_String C orderID)
                       (Inr (no_rider_event_json C orderID reason now)) d1 of
              Inl err \<Rightarrow> (Rollback (Inl (WrapError ''write outbox: '' err '''')), d1)
            | Inr (_, d2) \<Rightarrow> (Commit (), d2)))"

definition markCancelled ::
  "codec \<Rightarrow> pg_env \<Rightarrow> time \<Rightarrow> carrier \<Rightarrow> uuid \<Rightarrow> string \<Rightarrow> db \<Rightarrow> (error + unit) \<times> db" where
  "markCancelled C e now tc orderID reason d = run_tx e (cancel_body C e now tc orderID reason) d"

section \<open>Assign and the consumer's handler\<close>

record assign_env =
  as_pg :: "nat \<Rightarrow> pg_env"
  as_now :: "nat \<Rightarrow> time"
  as_trace :: carrier
  as_others :: "nat \<Rightarrow> db \<Rightarrow> db"

fun try_claims ::
  "codec \<Rightarrow> 'g geo_client \<Rightarrow> assign_env \<Rightarrow> uuid \<Rightarrow> uuid list \<Rightarrow> nat \<Rightarrow> db \<times> 'g \<times> metrics
     \<Rightarrow> uuid option \<times> db \<times> 'g \<times> metrics" where
  "try_claims C G E orderID [] k s = (None, s)"
| "try_claims C G E orderID (riderID # rest) k (d, g, m) =
     (case claimRider C (as_pg E k) (as_now E k) (as_trace E) orderID riderID (as_others E k d) of
        (Inr True, d') \<Rightarrow>
          (case ZRem G RidersGeoKey (uuid_String C riderID) g of
             (_, g') \<Rightarrow> (Some riderID, d', g', IncEvent ''order.assigned'' m))
      | (_, d') \<Rightarrow> try_claims C G E orderID rest (Suc k) (d', g, m))"

definition Assign ::
  "codec \<Rightarrow> 'g geo_client \<Rightarrow> assign_env \<Rightarrow> uuid \<Rightarrow> float64 \<Rightarrow> float64 \<Rightarrow> db \<times> 'g \<times> metrics
     \<Rightarrow> error option \<times> db \<times> 'g \<times> metrics" where
  "Assign C G E orderID pickupLat pickupLng = (\<lambda>(d, g, m).
     (case nearestAvailableRiders C G pickupLat pickupLng 10 g of
        Inl err \<Rightarrow> (Some (WrapError ''redis nearest: '' err ''''), d, g, m)
      | Inr candidates \<Rightarrow>
          (case try_claims C G E orderID candidates 0 (d, g, m) of
             (Some _, s') \<Rightarrow> (None, s')
           | (None, d', g', m') \<Rightarrow>
               (let k = length candidates in
                case markCancelled C (as_pg E k) (as_now E k) (as_trace E) orderID
                       ''no rider available'' (as_others E k d') of
                  (Inl err, d'') \<Rightarrow> (Some err, d'', g', m')
                | (Inr _, d'') \<Rightarrow>
                    (Some ErrNoRiderAvailable, d'', g', IncEvent ''order.assignment_failed'' m')))))"

definition assignment_Handler ::
  "codec \<Rightarrow> 'g geo_client \<Rightarrow> assign_env \<Rightarrow> (db \<times> 'g \<times> metrics) handler" where
  "assignment_Handler C G E msg s =
     (case json_unmarshal (placed_event_fields C) (msg_Value msg) zero_placed_event of
        Inl _ \<Rightarrow> (None, s)
      | Inr evt \<Rightarrow>
          (case Assign C G E (placed_OrderID evt) (placed_PickupLat evt) (placed_PickupLng evt) s of
             (Some err, s') \<Rightarrow> (if errors_Is err ErrNoRiderAvailable then None else Some err, s')
           | (None, s') \<Rightarrow> (None, s')))"

section \<open>Effects of the two transactions\<close>

definition rider_available :: "uuid \<Rightarrow> db \<Rightarrow> bool" where
  "rider_available r d \<longleftrightarrow> list_ex (\<lambda>x. rider_ID x = r \<and> rider_Status x = ''AVAILABLE'') (riders d)"

definition claim :: "codec \<Rightarrow> time \<Rightarrow> uuid \<Rightarrow> uuid \<Rightarrow> db \<Rightarrow> db \<Rightarrow> bool" where
  "claim C now oid rid d d' \<longleftrightarrow>
     rider_available rid d \<and>
     (\<exists>t ev ob.
        d' = d\<lparr>riders := sql_update (\<lambda>x. rider_ID x = rid \<and> rider_Status x = ''AVAILABLE'')
                 (\<lambda>x. x\<lparr>rider_Status := ''BUSY'', rider_UpdatedAt := t\<rparr>) (riders d),
               orders := sql_update (\<lambda>x. order_ID x = oid)
                 (\<lambda>x. x\<lparr>order_RiderID := Some rid, order_UpdatedAt := t\<rparr>) (orders d),
               order_events := order_events d @ [ev], outbox := outbox d @ [ob]\<rparr>
      \<and> ev_id ev = int (length (order_events d)) + 1 \<and> ob_id ob = int (length (outbox d)) + 1
      \<and> ev_order_id ev = oid \<and> ev_event_type ev = ''order.assigned''
      \<and> ob_aggregate_id ob = oid \<and> ob_sent_at ob = None
      \<and> row_event ob = (TopicOrderAssigned, uuid_String C oid,
           assigned_event_json C \<lparr>assigned_OrderID = oid, assigned_RiderID = rid, assigned_AssignedAt = now\<rparr>))"

definition cancellation :: "codec \<Rightarrow> time \<Rightarrow> uuid \<Rightarrow> db \<Rightarrow> db \<Rightarrow> bool" where
  "cancellation C now oid d d' \<longleftrightarrow>
     (\<exists>x \<in> set (orders d). order_ID x = oid \<and> order_Status x = ''PLACED'') \<and>
     (\<exists>t ob.
        d' = d\<lparr>orders := sql_update (\<lambda>x. order_ID x = oid \<and> order_Status x = ''PLACED'')
                 (\<lambda>x. x\<lparr>order_Status := ''CANCELLED'', order_UpdatedAt := t\<rparr>) (orders d),
               outbox := outbox d @ [ob]\<rparr>
      \<and> ob_id ob = int (length (outbox d)) + 1 \<and> ob_aggregate_id ob = oid \<and> ob_sent_at ob = None
      \<and> row_event ob = (TopicOrderStatusUpdated, uuid_String C oid,
           no_rider_event_json C oid ''no rider available'' now))"

lemma rider_available_affected:
  "rows_affected (\<lambda>x. rider_ID x = r \<and> rider_Status x = ''AVAILABLE'') (riders d) = 0 \<longleftrightarrow> \<not> rider_available r d"
  by (auto simp: rows_affected_0 rider_available_def list_ex_iff)

lemma claim_not_available:
  "\<not> rider_available r d \<Longrightarrow> \<exists>err d'. claim_body C e now tc oid r d = (Rollback (Inl err), d')
     \<or> claim_body C e now tc oid r d = (Rollback (Inr False), d')"
  using rider_available_affected [of r d]
  by (auto simp: claim_body_def stmt_def claim_update_riders_def Let_def)

lemma claim_body_exit:
  "claim_body C e now tc oid r d = (Rollback v, d') \<Longrightarrow> v \<noteq> Inr True"
  "claim_body C e now tc oid r d = (Commit b, d') \<Longrightarrow> b"
  by (auto simp: claim_body_def split: sum.splits prod.splits if_splits)

lemma cancel_body_exit: "cancel_body C e now tc oid reason d = (Rollback v, d') \<Longrightarrow> \<exists>err. v = Inl err"
  by (auto simp: cancel_body_def split: sum.splits prod.splits if_splits)

context codec_laws
begin

lemma claim_body_commit:
  assumes "claim_body C e now tc oid rid d = (Commit b, d')"
  shows "claim C now oid rid d d'"
proof -
  let ?p = "\<lambda>x. rider_ID x = rid \<and> rider_Status x = ''AVAILABLE''"
  let ?ev = "\<lparr>assigned_OrderID = oid, assigned_RiderID = rid, assigned_AssignedAt = now\<rparr>"
  from assms obtain n d1 n2 d2 d3 where
    s0: "claim_update_riders e rid d = Inr (n, d1)" "n \<noteq> 0" and
    s1: "claim_update_orders e oid rid d1 = Inr (n2, d2)" and
    s2: "insert_order_event e oid ''order.assigned'' (JObj [(''rider_id'', JStr (uuid_String C rid))]) d2 = Inr ((), d3)" and
    s3: "insert_outbox e oid TopicOrderAssigned (uuid_String C oid) (assigned_event_json C ?ev)
           (json_strings tc) d3 = Inr ((), d')"
    by (auto simp: claim_body_def split: sum.splits prod.splits if_splits
        dest!: stmt_InrD outbox_Write_Inr)
  have av: "rider_available rid d"
    and d1: "d1 = d\<lparr>riders := sql_update ?p (\<lambda>x. x\<lparr>rider_Status := ''BUSY'', rider_UpdatedAt := pg_now e\<rparr>) (riders d)\<rparr>"
    using s0 rider_available_affected [of rid d] by (auto simp: claim_update_riders_def Let_def)
  have d2: "d2 = d1\<lparr>orders := sql_update (\<lambda>x. order_ID x = oid)
               (\<lambda>x. x\<lparr>order_RiderID := Some rid, order_UpdatedAt := pg_now e\<rparr>) (orders d1)\<rparr>"
    using s1 by (auto simp: claim_update_orders_def Let_def split: if_splits)
  from s2 obtain ev where d3: "d3 = d2\<lparr>order_events := order_events d2 @ [ev]\<rparr>"
    and ev: "ev_id ev = int (length (order_events d2)) + 1" "ev_order_id ev = oid" "ev_event_type ev = ''order.assigned''"
    by (auto simp: insert_order_event_ok)
  from s3 obtain ob where d': "d' = d3\<lparr>outbox := outbox d3 @ [ob]\<rparr>"
    and ob: "ob_id ob = int (length (outbox d3)) + 1" "ob_aggregate_id ob = oid" "ob_sent_at ob = None"
      "row_event ob = (TopicOrderAssigned, uuid_String C oid, assigned_event_json C ?ev)"
    by (auto simp: insert_outbox_ok topic_short key_short row_event_def)
  show ?thesis
    unfolding claim_def
    by (intro conjI exI [of _ "pg_now e"] exI [of _ ev] exI [of _ ob])
      (use av ev ob in \<open>simp_all add: d' d3 d2 d1\<close>)
qed

lemma cancel_body_commit:
  assumes "cancel_body C e now tc oid ''no rider available'' d = (Commit (), d')"
  shows "d' = d \<and> (\<forall>x \<in> set (orders d). order_ID x = oid \<longrightarrow> order_Status x \<noteq> ''PLACED'')
     \<or> cancellation C now oid d d'"
proof -
  let ?p = "\<lambda>x. order_ID x = oid \<and> order_Status x = ''PLACED''"
  from assms obtain n d1 where s0: "cancel_update_orders e oid d = Inr (n, d1)"
    and s1: "n = 0 \<and> d' = d1 \<or> n \<noteq> 0 \<and> insert_outbox e oid TopicOrderStatusUpdated (uuid_String C oid)
        (no_rider_event_json C oid ''no rider available'' now) (json_strings tc) d1 = Inr ((), d')"
    by (auto simp: cancel_body_def split: sum.splits prod.splits if_splits
        dest!: stmt_InrD outbox_Write_Inr)
  have d1: "n = rows_affected ?p (orders d)" "d1 = d\<lparr>orders := sql_update ?p
      (\<lambda>x. x\<lparr>order_Status := ''CANCELLED'', order_UpdatedAt := pg_now e\<rparr>) (orders d)\<rparr>"
    using s0 by (auto simp: cancel_update_orders_def Let_def)
  show ?thesis
  proof (cases "n = 0")
    case True
    then have "sql_update ?p (\<lambda>x. x\<lparr>order_Status := ''CANCELLED'', order_UpdatedAt := pg_now e\<rparr>) (orders d) = orders d"
      using d1 by (intro sql_update_none) simp
    then show ?thesis using True s1 d1 by (auto simp: rows_affected_0)
  next
    case False
    then have "\<exists>x \<in> set (orders d). ?p x" using d1 rows_affected_pos [of ?p "orders d"] by simp
    moreover obtain ob where d': "d' = d1\<lparr>outbox := outbox d1 @ [ob]\<rparr>"
      and ob: "ob_id ob = int (length (outbox d1)) + 1" "ob_aggregate_id ob = oid" "ob_sent_at ob = None"
        "row_event ob = (TopicOrderStatusUpdated, uuid_String C oid, no_rider_event_json C oid ''no rider available'' now)"
      using s1 False by (auto simp: insert_outbox_ok topic_short key_short row_event_def)
    ultimately have "cancellation C now oid d d'"
      unfolding cancellation_def
      by (intro conjI exI [of _ "pg_now e"] exI [of _ ob]) (simp_all add: d' d1(2))
    then show ?thesis ..
  qed
qed

end

lemma claimRider_unavailable:
  "\<not> rider_available r d \<Longrightarrow> claimRider C e now tc oid r d = (v, d') \<Longrightarrow> v \<noteq> Inr True \<and> d' = d"
  using claim_not_available [of r d C e now tc oid]
  by (auto simp: claimRider_def run_tx_def split: if_splits)

lemma rider_exists_ids: "rider_exists r d \<longleftrightarrow> r \<in> set (map rider_ID (riders d))"
  by (auto simp: rider_exists_def list_ex_iff)

lemma known_literals [simp]:
  "known_rider_status ''BUSY''" "known_rider_status ''OFFLINE''" "known_rider_status ''AVAILABLE''"
  "known_status ''CANCELLED''"
  by (simp_all add: known_rider_status_def known_status_def)

lemma claim_wf:
  assumes "claim C now oid rid d d'" "wf_db d"
  shows "wf_db d'"
proof -
  let ?p = "\<lambda>x. rider_ID x = rid \<and> rider_Status x = ''AVAILABLE''"
  from assms(1) obtain t ev ob where av: "rider_available rid d"
    and d': "d' = d\<lparr>riders := sql_update ?p (\<lambda>x. x\<lparr>rider_Status := ''BUSY'', rider_UpdatedAt := t\<rparr>) (riders d),
               orders := sql_update (\<lambda>x. order_ID x = oid)
                 (\<lambda>x. x\<lparr>order_RiderID := Some rid, order_UpdatedAt := t\<rparr>) (orders d),
               order_events := order_events d @ [ev], outbox := outbox d @ [ob]\<rparr>"
    and ids: "ev_id ev = int (length (order_events d)) + 1" "ob_id ob = int (length (outbox d)) + 1"
    by (auto simp: claim_def)
  have "map rider_ID (riders d') = map rider_ID (riders d)" by (simp add: d' map_sql_update_id)
  then have ex: "rider_exists r d' \<longleftrightarrow> rider_exists r d" for r by (simp add: rider_exists_ids)
  have "rider_exists rid d" using av by (auto simp: rider_available_def rider_exists_def list_ex_iff)
  then have "list_all (\<lambda>x. pred_option (\<lambda>r. rider_exists r d') (order_RiderID x)) (orders d')"
    using assms(2) unfolding ex by (auto simp: wf_db_def d' list_all_iff in_set_sql_update)
  with assms(2) ids show ?thesis
    by (auto simp: wf_db_def d' upto_snoc list_all_iff in_set_sql_update map_sql_update_id)
qed

lemma cancellation_wf:
  assumes "cancellation C now oid d d'" "wf_db d"
  shows "wf_db d'"
proof -
  from assms(1) obtain t ob where d': "d' = d\<lparr>orders := sql_update (\<lambda>x. order_ID x = oid \<and> order_Status x = ''PLACED'')
                 (\<lambda>x. x\<lparr>order_Status := ''CANCELLED'', order_UpdatedAt := t\<rparr>) (orders d),
               outbox := outbox d @ [ob]\<rparr>"
    and ids: "ob_id ob = int (length (outbox d)) + 1"
    by (auto simp: cancellation_def)
  show ?thesis
    using assms(2) ids
    by (auto simp: wf_db_def d' rider_exists_def upto_snoc list_all_iff in_set_sql_update map_sql_update_id)
qed

text \<open>The claimed rider is busy afterwards, every other rider is as before.\<close>

lemma claim_available:
  assumes "claim C now oid rid d d'"
  shows "rider_available r d' \<longleftrightarrow> r \<noteq> rid \<and> rider_available r d"
proof -
  from assms obtain t where d': "riders d' = sql_update (\<lambda>x. rider_ID x = rid \<and> rider_Status x = ''AVAILABLE'')
       (\<lambda>x. x\<lparr>rider_Status := ''BUSY'', rider_UpdatedAt := t\<rparr>) (riders d)"
    by (auto simp: claim_def)
  have "list_ex (\<lambda>x. rider_ID x = r \<and> rider_Status x = ''AVAILABLE'')
      (sql_update (\<lambda>x. rider_ID x = rid \<and> rider_Status x = ''AVAILABLE'')
         (\<lambda>x. x\<lparr>rider_Status := ''BUSY'', rider_UpdatedAt := t\<rparr>) rows)
    \<longleftrightarrow> r \<noteq> rid \<and> list_ex (\<lambda>x. rider_ID x = r \<and> rider_Status x = ''AVAILABLE'') rows" for rows
    by (induction rows) auto
  then show ?thesis by (simp add: rider_available_def d')
qed

lemma claim_order:
  assumes "claim C now oid rid d d'"
  shows "\<exists>t. \<forall>j. order_by_id j d' =
     (if j = oid then map_option (\<lambda>x. x\<lparr>order_RiderID := Some rid, order_UpdatedAt := t\<rparr>) (order_by_id oid d)
      else order_by_id j d)"
proof -
  from assms obtain t rs ev ob where d': "d' = d\<lparr>riders := rs, orders := sql_update (\<lambda>x. order_ID x = oid)
      (\<lambda>x. x\<lparr>order_RiderID := Some rid, order_UpdatedAt := t\<rparr>) (orders d),
      order_events := order_events d @ [ev], outbox := outbox d @ [ob]\<rparr>"
    by (auto simp: claim_def)
  have "d' = (d\<lparr>orders := sql_update (\<lambda>x. order_ID x = oid)
      (\<lambda>x. x\<lparr>order_RiderID := Some rid, order_UpdatedAt := t\<rparr>) (orders d)\<rparr>)\<lparr>riders := rs,
      order_events := order_events d @ [ev], outbox := outbox d @ [ob]\<rparr>"
    by (simp add: d')
  then show ?thesis by (intro exI [of _ t]) (simp add: order_by_id_update)
qed

lemma cancellation_order:
  assumes "cancellation C now oid d d'" "wf_db d"
  shows "\<exists>t x. order_by_id oid d = Some x \<and> order_Status x = ''PLACED''
     \<and> order_by_id oid d' = Some (x\<lparr>order_Status := ''CANCELLED'', order_UpdatedAt := t\<rparr>)
     \<and> (\<forall>j. j \<noteq> oid \<longrightarrow> order_by_id j d' = order_by_id j d)"
proof -
  let ?p = "\<lambda>x. order_ID x = oid \<and> order_Status x = ''PLACED''"
  from assms(1) obtain t ob x0 where d': "orders d' = sql_update ?p
        (\<lambda>x. x\<lparr>order_Status := ''CANCELLED'', order_UpdatedAt := t\<rparr>) (orders d)"
    and x0: "x0 \<in> set (orders d)" "?p x0"
    by (auto simp: cancellation_def)
  have view: "order_by_id j d' = map_option (\<lambda>x. if ?p x then x\<lparr>order_Status := ''CANCELLED'', order_UpdatedAt := t\<rparr> else x)
      (order_by_id j d)" for j
    unfolding order_by_id_def d' by (rule find_sql_update) simp
  have "order_by_id oid d \<noteq> None" using x0 by (auto simp: order_by_id_def find_None_iff_list)
  then obtain x where x: "order_by_id oid d = Some x" by blast
  have "inj_on order_ID (set (orders d))" using assms(2) by (simp add: wf_db_def distinct_map)
  then have "x = x0" using order_by_id_ID [OF x] x0 by (metis inj_onD)
  then have "order_by_id oid d' = Some (x\<lparr>order_Status := ''CANCELLED'', order_UpdatedAt := t\<rparr>)"
    using x x0 view [of oid] by simp
  moreover have "order_by_id j d' = order_by_id j d" if "j \<noteq> oid" for j
    using that view [of j] order_by_id_ID [of j d] by (cases "order_by_id j d") auto
  ultimately show ?thesis using x x0 \<open>x = x0\<close> by blast
qed

context codec_laws
begin

lemma claimRider_cases:
  assumes "claimRider C e now tc oid rid d = (v, d')"
  obtains (refused) "v \<noteq> Inr True" "d' = d"
  | (claimed) "v = Inr True" "claim C now oid rid d d'"
  | (hidden) err where "v = Inl err" "commit_outcome e = Lost" "claim C now oid rid d d'"
  using assms unfolding claimRider_def
  by (auto simp: run_tx_def dest: claim_body_commit claim_body_exit
      split: if_splits tx_exit.splits prod.splits outcome.splits)

lemma markCancelled_cases:
  assumes "markCancelled C e now tc oid ''no rider available'' d = (v, d')"
  obtains (failed) err where "v = Inl err" "d' = d"
  | (moved) "v = Inr ()" "d' = d" "\<forall>x \<in> set (orders d). order_ID x = oid \<longrightarrow> order_Status x \<noteq> ''PLACED''"
  | (cancelled) "v = Inr ()" "cancellation C now oid d d'"
  | (hidden) err where "v = Inl err" "commit_outcome e = Lost" "cancellation C now oid d d'"
proof -
  consider (r) err where "v = Inl err" "d' = d"
    | (c) "v = Inr ()" "cancel_body C e now tc oid ''no rider available'' d = (Commit (), d')"
    | (l) err where "v = Inl err" "commit_outcome e = Lost" "cancel_body C e now tc oid ''no rider available'' d = (Commit (), d')"
    using assms unfolding markCancelled_def
    by (auto simp: run_tx_def dest: cancel_body_exit
        split: if_splits tx_exit.splits prod.splits outcome.splits)
  then show thesis
  proof cases
    case r
    then show thesis by (rule failed)
  next
    case c
    with cancel_body_commit [OF c(2)] moved cancelled show thesis by blast
  next
    case l
    with cancel_body_commit [OF l(3)] failed hidden show thesis by blast
  qed
qed

end

section \<open>The loop over the candidates\<close>

lemma ZRem_pair: "(case ZRem G k n g of (_, g') \<Rightarrow> f g') = f (snd (ZRem G k n g))"
  by (simp add: split_beta)

context codec_laws
begin

lemma claimRider_clean:
  assumes "clean_env e" "rider_available rid d"
  shows "\<exists>d'. claimRider C e now tc oid rid d = (Inr True, d') \<and> claim C now oid rid d d'"
proof -
  let ?p = "\<lambda>x. rider_ID x = rid \<and> rider_Status x = ''AVAILABLE''"
  let ?d1 = "d\<lparr>riders := sql_update ?p (\<lambda>x. x\<lparr>rider_Status := ''BUSY'', rider_UpdatedAt := pg_now e\<rparr>) (riders d)\<rparr>"
  have "rider_exists rid d" using assms(2) by (auto simp: rider_available_def rider_exists_def list_ex_iff)
  moreover have "map rider_ID (riders ?d1) = map rider_ID (riders d)" by (simp add: map_sql_update_id)
  ultimately have "rider_exists rid ?d1" by (simp add: rider_exists_ids)
  then have "\<exists>d'. claim_body C e now tc oid rid d = (Commit True, d')"
    using assms rider_available_affected [of rid d]
    by (simp add: claim_body_def stmt_def clean_env_def claim_update_riders_def claim_update_orders_def Let_def
        insert_order_event_ok outbox_Write_def insert_outbox_ok topic_short key_short)
  then obtain d' where b: "claim_body C e now tc oid rid d = (Commit True, d')" ..
  with assms(1) have "claimRider C e now tc oid rid d = (Inr True, d')"
    by (simp add: claimRider_def run_tx_def clean_env_def)
  with claim_body_commit [OF b] show ?thesis by blast
qed

lemma try_claims_none:
  assumes "\<And>k. as_others E k = id" "\<forall>r \<in> set rs. \<not> rider_available r d"
  shows "try_claims C G E oid rs k (d, g, m) = (None, d, g, m)"
  using assms(2)
proof (induction rs arbitrary: k)
  case (Cons r rs)
  obtain v d' where c: "claimRider C (as_pg E k) (as_now E k) (as_trace E) oid r d = (v, d')" by fastforce
  with Cons.prems claimRider_unavailable [of r d] have "v \<noteq> Inr True" "d' = d" by auto
  with c Cons show ?case
    by (cases v) (auto simp: assms(1) split: bool.splits)
qed simp

lemma try_claims_first:
  assumes "\<And>k. as_others E k = id" "\<And>k. clean_env (as_pg E k)"
    and "\<forall>r \<in> set rs. \<not> rider_available r d" "rider_available r d"
  shows "\<exists>d' now. try_claims C G E oid (rs @ r # rest) k (d, g, m) =
       (Some r, d', snd (ZRem G RidersGeoKey (uuid_String C r) g), IncEvent ''order.assigned'' m)
     \<and> claim C now oid r d d'"
  using assms(3)
proof (induction rs arbitrary: k)
  case Nil
  obtain d' where "claimRider C (as_pg E k) (as_now E k) (as_trace E) oid r d = (Inr True, d')"
      "claim C (as_now E k) oid r d d'"
    using claimRider_clean [OF assms(2,4)] by blast
  then show ?case by (auto simp: assms(1) ZRem_pair)
next
  case (Cons q rs)
  obtain v d' where c: "claimRider C (as_pg E k) (as_now E k) (as_trace E) oid q d = (v, d')" by fastforce
  with Cons.prems claimRider_unavailable [of q d] have "v \<noteq> Inr True" "d' = d" by auto
  with c have "try_claims C G E oid ((q # rs) @ r # rest) k (d, g, m)
      = try_claims C G E oid (rs @ r # rest) (Suc k) (d, g, m)"
    by (cases v) (auto simp: assms(1) split: bool.splits)
  with Cons show ?case by simp
qed

text \<open>What holds of the database whatever fails and whoever interferes.\<close>

lemma try_claims_inv:
  assumes others: "\<And>k d. J d \<Longrightarrow> J (as_others E k d)"
    and claims: "\<And>now r d d'. J d \<Longrightarrow> claim C now oid r d d' \<Longrightarrow> J d'"
    and "J d" "try_claims C G E oid rs k (d, g, m) = (v, d', g', m')"
  shows "J d'"
  using assms(3,4)
proof (induction rs arbitrary: k d g m)
  case (Cons r rs)
  obtain w d1 where c: "claimRider C (as_pg E k) (as_now E k) (as_trace E) oid r (as_others E k d) = (w, d1)"
    by fastforce
  have "J (as_others E k d)" using Cons.prems(1) by (rule others)
  then have "J d1" by (cases rule: claimRider_cases [OF c]) (auto intro: claims)
  with Cons c show ?case
    by (cases w) (auto simp: ZRem_pair split: bool.splits)
qed simp

lemma try_claims_some:
  assumes "try_claims C G E oid rs k (d, g, m) = (Some r, d', g', m')"
  shows "r \<in> set rs \<and> (\<exists>now d0. claim C now oid r d0 d')"
  using assms
proof (induction rs arbitrary: k d g m)
  case (Cons q rs)
  obtain w d1 where c: "claimRider C (as_pg E k) (as_now E k) (as_trace E) oid q (as_others E k d) = (w, d1)"
    by fastforce
  show ?case
  proof (cases "w = Inr True")
    case True
    with Cons.prems c have "r = q" "d' = d1" by (auto simp: ZRem_pair)
    moreover have "claim C (as_now E k) oid q (as_others E k d) d1"
      using claimRider_cases [OF c] True by blast
    ultimately show ?thesis by auto
  next
    case False
    then have "try_claims C G E oid rs (Suc k) (d1, g, m) = (Some r, d', g', m')"
      using Cons.prems c by (cases w) (auto split: bool.splits)
    with Cons.IH show ?thesis by auto
  qed
qed simp

end

context codec_laws
begin

lemma Assign_cases:
  assumes "Assign C G E oid lat lng (d, g, m) = (r, d', g', m')"
  obtains (search) err where "r = Some (WrapError ''redis nearest: '' err '''')" "d' = d" "g' = g" "m' = m"
  | (assigned) cs q where "nearestAvailableRiders C G lat lng 10 g = Inr cs" "r = None"
      "try_claims C G E oid cs 0 (d, g, m) = (Some q, d', g', m')"
  | (unassigned) cs d1 m1 where "nearestAvailableRiders C G lat lng 10 g = Inr cs"
      "try_claims C G E oid cs 0 (d, g, m) = (None, d1, g', m1)"
      "\<exists>v. markCancelled C (as_pg E (length cs)) (as_now E (length cs)) (as_trace E) oid
         ''no rider available'' (as_others E (length cs) d1) = (v, d')
       \<and> (case v of Inl err \<Rightarrow> r = Some err \<and> m' = m1
            | Inr _ \<Rightarrow> r = Some ErrNoRiderAvailable \<and> m' = IncEvent ''order.assignment_failed'' m1)"
proof (cases "nearestAvailableRiders C G lat lng 10 g")
  case (Inl err)
  with assms search show thesis by (auto simp: Assign_def)
next
  case (Inr cs)
  obtain v d1 g1 m1 where t: "try_claims C G E oid cs 0 (d, g, m) = (v, d1, g1, m1)" by (metis prod_cases4)
  show thesis
  proof (cases v)
    case None
    obtain w d2 where mc: "markCancelled C (as_pg E (length cs)) (as_now E (length cs)) (as_trace E) oid
         ''no rider available'' (as_others E (length cs) d1) = (w, d2)" by fastforce
    have "(case w of Inl err \<Rightarrow> (Some err, d2, g1, m1)
        | Inr _ \<Rightarrow> (Some ErrNoRiderAvailable, d2, g1, IncEvent ''order.assignment_failed'' m1)) = (r, d', g', m')"
      using assms Inr t None mc by (simp add: Assign_def Let_def)
    then show thesis using unassigned [OF Inr, of d1 m1] t None mc by (auto split: sum.splits)
  next
    case (Some q)
    with assms Inr t assigned show thesis by (auto simp: Assign_def)
  qed
qed

lemma Assign_inv:
  assumes others: "\<And>k d. J d \<Longrightarrow> J (as_others E k d)"
    and claims: "\<And>now r d d'. J d \<Longrightarrow> claim C now oid r d d' \<Longrightarrow> J d'"
    and cancels: "\<And>now d d'. J d \<Longrightarrow> cancellation C now oid d d' \<Longrightarrow> J d'"
    and "J d" "Assign C G E oid lat lng (d, g, m) = (r, d', g', m')"
  shows "J d'"
proof -
  have T: "J d1" if "try_claims C G E oid cs 0 (d, g, m) = (v, d1, g1, m1)" for cs v d1 g1 m1
    by (rule try_claims_inv [where J = J and E = E and oid = oid, OF others claims \<open>J d\<close> that])
  show ?thesis
    using assms(5)
  proof (cases rule: Assign_cases)
  case search
  with \<open>J d\<close> show ?thesis by simp
next
  case (assigned cs q)
  with T show ?thesis by blast
next
  case (unassigned cs d1 m1)
  then obtain v where mc: "markCancelled C (as_pg E (length cs)) (as_now E (length cs)) (as_trace E) oid
         ''no rider available'' (as_others E (length cs) d1) = (v, d')" by blast
  have "J (as_others E (length cs) d1)"
    using T [OF unassigned(2)] others by blast
  then show ?thesis by (cases rule: markCancelled_cases [OF mc]) (auto intro: cancels)
  qed
qed

end

text \<open>
  The assignment consumer among other actors: as long as these keep the schema's constraints, so
  does the consumer loop, for every reader and every message.
\<close>

locale assignment_run = codec_laws C for C +
  fixes G :: "'g geo_client" and E :: assign_env
  assumes others_wf: "wf_db d \<Longrightarrow> wf_db (as_others E k d)"
begin

lemma Assign_wf: "wf_db d \<Longrightarrow> Assign C G E oid lat lng (d, g, m) = (r, d', g', m') \<Longrightarrow> wf_db d'"
  by (rule Assign_inv [where J = wf_db, OF others_wf claim_wf cancellation_wf])

lemma Handler_wf: "wf_db (fst s) \<Longrightarrow> wf_db (fst (snd (assignment_Handler C G E msg s)))"
proof (cases s)
  case (fields d g m)
  assume wf: "wf_db (fst s)"
  show ?thesis
  proof (cases "json_unmarshal (placed_event_fields C) (msg_Value msg) zero_placed_event")
    case (Inl err)
    with wf show ?thesis by (simp add: assignment_Handler_def)
  next
    case (Inr evt)
    obtain r d' g' m' where a: "Assign C G E (placed_OrderID evt) (placed_PickupLat evt) (placed_PickupLng evt) (d, g, m)
        = (r, d', g', m')" by (metis prod_cases4)
    with wf fields have "wf_db d'" using Assign_wf [OF _ a] by simp
    with a Inr fields show ?thesis by (simp add: assignment_Handler_def split: option.splits)
  qed
qed

end

sublocale assignment_run \<subseteq> consumer: message_handler "assignment_Handler C G E" "\<lambda>s. wf_db (fst s)"
  by unfold_locales (rule Handler_wf)

text \<open>An environment without failures, in which only an outbox relay is active.\<close>

definition quiet_env :: "int list \<Rightarrow> assign_env" where
  "quiet_env ids = \<lparr>as_pg = (\<lambda>_. example_env), as_now = (\<lambda>_. 6), as_trace = [],
     as_others = (\<lambda>_. mark_sent 4 ids)\<rparr>"

interpretation with_relay: assignment_run canonical_codec "list_geo mtr" "quiet_env ids" for mtr ids
  by unfold_locales (simp add: quiet_env_def mark_sent_wf)

context assignment_run
begin

lemma Run_wf: "wf_db d \<Longrightarrow> wf_db (fst (snd (snd (consumer_Run n R (assignment_Handler C G E) (r, d, g, m)))))"
  using consumer.Run_inv [of "(d, g, m)" n R r] by simp

end

section \<open>Sequences of claims\<close>

text \<open>Claims of any orders and riders, by any number of consumers, in the order their transactions
  run; the riders whose claim was reported as won.\<close>

record claim_call =
  cc_env :: pg_env
  cc_now :: time
  cc_trace :: carrier
  cc_order :: uuid
  cc_rider :: uuid

fun run_claims :: "codec \<Rightarrow> claim_call list \<Rightarrow> db \<Rightarrow> uuid list \<times> db" where
  "run_claims C [] d = ([], d)"
| "run_claims C (c # cs) d =
     (case claimRider C (cc_env c) (cc_now c) (cc_trace c) (cc_order c) (cc_rider c) d of
        (v, d') \<Rightarrow> (case run_claims C cs d' of
          (won, d'') \<Rightarrow> (if v = Inr True then cc_rider c # won else won, d'')))"

context codec_laws
begin

lemma run_claims_available:
  "run_claims C cs d = (won, d') \<Longrightarrow>
     distinct won \<and> set won \<subseteq> {r. rider_available r d} \<and> (\<forall>r. rider_available r d' \<longrightarrow> rider_available r d \<and> r \<notin> set won)"
proof (induction cs arbitrary: d won)
  case (Cons c cs)
  obtain v d1 where c: "claimRider C (cc_env c) (cc_now c) (cc_trace c) (cc_order c) (cc_rider c) d = (v, d1)"
    by fastforce
  obtain won1 where rest: "run_claims C cs d1 = (won1, d')"
    and won: "won = (if v = Inr True then cc_rider c # won1 else won1)"
    using Cons.prems c by (auto split: prod.splits)
  note IH = Cons.IH [OF rest]
  from c show ?case
  proof (cases rule: claimRider_cases)
    case refused
    with IH won show ?thesis by simp
  next
    case claimed
    note av = claim_available [OF claimed(2)]
    have "rider_available (cc_rider c) d" using claimed(2) by (simp add: claim_def)
    with IH won claimed av show ?thesis by auto
  next
    case (hidden err)
    note av = claim_available [OF hidden(3)]
    with IH won hidden show ?thesis by auto
  qed
qed simp

end

lemma markCancelled_error_kind:
  "markCancelled C e now tc oid reason d = (Inl err, d') \<Longrightarrow> err \<noteq> ErrNoRiderAvailable"
  by (auto simp: markCancelled_def run_tx_def cancel_body_def pg_begin_error_def pg_commit_error_def
      split: if_splits sum.splits prod.splits outcome.splits)

context codec_laws
begin

lemma Assign_resolves:
  assumes others: "\<And>k d. wf_db d \<and> order_by_id oid d \<noteq> None \<Longrightarrow>
      wf_db (as_others E k d) \<and> order_by_id oid (as_others E k d) \<noteq> None"
    and start: "wf_db d \<and> order_by_id oid d \<noteq> None"
    and a: "Assign C G E oid lat lng (d, g, m) = (r, d', g', m')"
  shows "(r = None \<longrightarrow> (\<exists>x. order_by_id oid d' = Some x \<and> order_RiderID x \<noteq> None))
     \<and> (r = Some ErrNoRiderAvailable \<longrightarrow> (\<exists>x. order_by_id oid d' = Some x \<and> order_Status x \<noteq> StatusPlaced))"
  using a
proof (cases rule: Assign_cases)
  case (search err)
  then show ?thesis by simp
next
  let ?J = "\<lambda>d. wf_db d \<and> order_by_id oid d \<noteq> None"
  have claims: "?J d'" if "?J d" "claim C now oid q d d'" for now q d d'
    using that claim_wf [OF that(2)] claim_order [OF that(2)] by auto
  have T: "?J d1" if "try_claims C G E oid cs 0 (d, g, m) = (v, d1, g1, m1)" for cs v d1 g1 m1
    by (rule try_claims_inv [where J = ?J and E = E and oid = oid, OF others claims start that])
  {
    case (assigned cs q)
    from try_claims_some [OF assigned(3)] obtain now d0 where cl: "claim C now oid q d0 d'" by blast
    obtain x where x: "order_by_id oid d' = Some x" using T [OF assigned(3)] by blast
    then have "order_RiderID x \<noteq> None" using claim_order [OF cl] by auto
    with x assigned(2) show ?thesis by simp
  next
    case (unassigned cs d1 m1)
    let ?d = "as_others E (length cs) d1"
    from unassigned(3) obtain v where mc: "markCancelled C (as_pg E (length cs)) (as_now E (length cs)) (as_trace E) oid
           ''no rider available'' ?d = (v, d')"
      and v': "case v of Inl err \<Rightarrow> r = Some err \<and> m' = m1
        | Inr _ \<Rightarrow> r = Some ErrNoRiderAvailable \<and> m' = IncEvent ''order.assignment_failed'' m1"
      by blast
    then have v: "case v of Inl err \<Rightarrow> r = Some err | Inr _ \<Rightarrow> r = Some ErrNoRiderAvailable"
      by (cases v) auto
    have J: "?J ?d" using T [OF unassigned(2)] others by blast
    from mc show ?thesis
    proof (cases rule: markCancelled_cases)
      case (failed err)
      with v mc markCancelled_error_kind show ?thesis by auto
    next
      case moved
      with J v order_by_id_ID [of oid ?d] show ?thesis by (auto simp: StatusPlaced_def)
    next
      case cancelled
      with J v cancellation_order [OF cancelled(2)] show ?thesis by (auto simp: StatusPlaced_def)
    next
      case (hidden err)
      with v mc markCancelled_error_kind show ?thesis by auto
    qed
  }
qed

lemma map_filter_uuid_String:
  "List.map_filter (uuid_Parse C) (map (uuid_String C) us) = us"
  by (induction us) (simp_all add: List.map_filter_simps uuid_Parse_String)

lemma markCancelled_clean:
  assumes "clean_env e" "order_by_id oid d = Some x" "order_Status x = StatusPlaced"
  shows "\<exists>d'. markCancelled C e now tc oid ''no rider available'' d = (Inr (), d') \<and> cancellation C now oid d d'"
proof -
  obtain v d' where mc: "markCancelled C e now tc oid ''no rider available'' d = (v, d')" by fastforce
  moreover have "v = Inr ()"
    using mc assms(1)
    by (auto simp: markCancelled_def run_tx_def cancel_body_def stmt_def clean_env_def cancel_update_orders_def
        Let_def outbox_Write_def insert_outbox_ok topic_short key_short split: if_splits)
  moreover have "\<exists>x \<in> set (orders d). order_ID x = oid \<and> order_Status x = ''PLACED''"
    using order_by_id_ID [OF assms(2)] assms(3) by (auto simp: StatusPlaced_def)
  ultimately show ?thesis using markCancelled_cases [OF mc] by blast
qed

lemma Assign_all_unavailable:
  assumes "\<And>k. as_others E k = id" "\<And>k. clean_env (as_pg E k)"
    "nearestAvailableRiders C G lat lng 10 g = Inr cs"
    "\<forall>r \<in> set cs. \<not> rider_available r d" "order_by_id oid d = Some x" "order_Status x = StatusPlaced"
  shows "\<exists>d' now. Assign C G E oid lat lng (d, g, m) =
       (Some ErrNoRiderAvailable, d', g, IncEvent ''order.assignment_failed'' m)
     \<and> cancellation C now oid d d'"
proof -
  have "try_claims C G E oid cs 0 (d, g, m) = (None, d, g, m)"
    by (rule try_claims_none) (use assms in auto)
  moreover obtain d' where "markCancelled C (as_pg E (length cs)) (as_now E (length cs)) (as_trace E) oid
      ''no rider available'' d = (Inr (), d')" "cancellation C (as_now E (length cs)) oid d d'"
    using markCancelled_clean [OF assms(2,5,6)] by blast
  ultimately show ?thesis using assms(1,3) by (auto simp: Assign_def Let_def)
qed

lemma Assign_first_available:
  assumes "\<And>k. as_others E k = id" "\<And>k. clean_env (as_pg E k)"
    "nearestAvailableRiders C G lat lng 10 g = Inr (cs @ r # rest)"
    "\<forall>q \<in> set cs. \<not> rider_available q d" "rider_available r d"
  shows "\<exists>d' now. Assign C G E oid lat lng (d, g, m) =
       (None, d', snd (ZRem G RidersGeoKey (uuid_String C r) g), IncEvent ''order.assigned'' m)
     \<and> claim C now oid r d d'"
proof -
  obtain d' now where "try_claims C G E oid (cs @ r # rest) 0 (d, g, m) =
       (Some r, d', snd (ZRem G RidersGeoKey (uuid_String C r) g), IncEvent ''order.assigned'' m)"
      "claim C now oid r d d'"
    using try_claims_first [where E = E and rs = cs and r = r and d = d and rest = rest and k = 0
      and G = G and oid = oid and g = g and m = m, OF assms(1,2,4,5)] by blast
  with assms(3) show ?thesis by (auto simp: Assign_def)
qed

lemma candidates_of_uuids:
  assumes "GeoSearch G RidersGeoKey lat lng searchRadiusKm 10 g = Inr res" "set res \<subseteq> range (uuid_String C)"
  shows "\<exists>us. res = map (uuid_String C) us \<and> nearestAvailableRiders C G lat lng 10 g = Inr us"
proof -
  obtain us where "res = map (uuid_String C) us" using assms(2) by (metis ex_map_conv image_iff subsetD)
  with assms(1) show ?thesis
    by (intro exI [of _ us]) (simp add: nearestAvailableRiders_def map_filter_uuid_String)
qed

end

section \<open>Examples and remarks\<close>

definition example_rider :: "uuid \<Rightarrow> string \<Rightarrow> Rider" where
  "example_rider i st = \<lparr>rider_ID = i, rider_Name = ''R'', rider_Phone = rfc4122_text i, rider_Status = st,
     rider_CreatedAt = 0, rider_UpdatedAt = 0\<rparr>"

definition example_fleet :: "(uuid \<times> string) list \<Rightarrow> db" where
  "example_fleet rs = (example_db StatusPlaced)\<lparr>riders := map (\<lambda>(i, st). example_rider i st) rs\<rparr>"

definition example_claim :: "uuid \<Rightarrow> uuid \<Rightarrow> claim_call" where
  "example_claim i r = \<lparr>cc_env = example_env, cc_now = 6, cc_trace = [], cc_order = i, cc_rider = r\<rparr>"

lemma example_fleet_order [simp]: "order_by_id 7 (example_fleet rs) = Some (example_order StatusPlaced)"
  using example_db_order [of StatusPlaced] by (simp add: example_fleet_def)

lemma example_fleet_available:
  "rider_available r (example_fleet rs) \<longleftrightarrow> list_ex (\<lambda>(i, st). i = r \<and> st = ''AVAILABLE'') rs"
  by (induction rs) (auto simp: rider_available_def example_fleet_def example_rider_def)

definition still_env :: assign_env where
  "still_env = \<lparr>as_pg = (\<lambda>_. example_env), as_now = (\<lambda>_. 6), as_trace = [], as_others = (\<lambda>_. id)\<rparr>"

lemma still_env_simps [simp]: "as_others still_env k = id" "clean_env (as_pg still_env k)"
  by (simp_all add: still_env_def example_clean)

lemma rfc4122_text_inj [simp]: "rfc4122_text u = rfc4122_text v \<longleftrightarrow> u = v"
  using canonical.uuid_String_inj [of u v] by (simp add: canonical_codec_def)

lemma uuid_String_canonical: "uuid_String canonical_codec = rfc4122_text"
  by (simp add: canonical_codec_def)

definition example_metric :: metric where
  "example_metric a b c d = 100 * (\<bar>a - c\<bar> + \<bar>b - d\<bar>)"

definition example_index :: "(uuid \<times> float64) list \<Rightarrow> geo_entry list" where
  "example_index rs = map (\<lambda>(i, lat). \<lparr>ge_key = RidersGeoKey, ge_name = rfc4122_text i, ge_lat = lat, ge_lng = 77\<rparr>) rs"

lemma example_index_members: "geo_members (example_index rs) RidersGeoKey = rfc4122_text ` fst ` set rs"
  by (induction rs) (auto simp: geo_members_def example_index_def)

lemma example_search:
  "GeoSearch (list_geo example_metric) RidersGeoKey 28 77 searchRadiusKm 10 (example_index [(3, 28.01), (4, 28.02), (5, 28.03)])
     = Inr [rfc4122_text 3, rfc4122_text 4, rfc4122_text 5]"
  by (simp add: list_geo_def example_index_def geo_distance_def example_metric_def searchRadiusKm_def)

lemma busy_search:
  "nearestAvailableRiders canonical_codec (list_geo example_metric) 28 77 10
     (example_index [(1, 28), (2, 28), (3, 28), (4, 28), (5, 28), (6, 28), (7, 28), (8, 28), (9, 28), (10, 28), (11, 28.01)])
   = Inr [1, 2, 3, 4, 5, 6, 7, 8, 9, 10]"
  by (simp add: nearestAvailableRiders_def list_geo_def example_index_def geo_distance_def example_metric_def
      searchRadiusKm_def List.map_filter_simps canonical_codec_def rfc4122_read_text)

text \<open>
  The search does not look at the riders' status: if none of the at most ten nearest members of
  the geo index is AVAILABLE (riders in service are put back into the index by their location
  updates), the order is cancelled, however many AVAILABLE riders are in the radius.
\<close>

lemma busy_candidates_cancel_order:
  assumes "codec_laws C" and "\<And>k. as_others E k = id" and "\<And>k. clean_env (as_pg E k)"
    and "nearestAvailableRiders C G lat lng 10 g = Inr cs" and "\<forall>r \<in> set cs. \<not> rider_available r d"
    and "order_by_id oid d = Some x" and "order_Status x = StatusPlaced"
  shows "\<exists>d' now. Assign C G E oid lat lng (d, g, m) =
       (Some ErrNoRiderAvailable, d', g, IncEvent ''order.assignment_failed'' m)
     \<and> cancellation C now oid d d'"
  by (rule codec_laws.Assign_all_unavailable [OF assms])

text \<open>
  Claims are not idempotent per order: an order that already has a rider can be claimed for a
  second one (a redelivered \<^verbatim>\<open>order.placed\<close> event does this); the second rider replaces the first
  in the order, and the first stays BUSY without an order.
\<close>

lemma second_claim_strands_first_rider:
  assumes "codec_laws C" and "clean_env e1" and "clean_env e2"
    and "rider_available r1 d" and "rider_available r2 d" and "r1 \<noteq> r2" and "order_by_id oid d = Some x"
  shows "\<exists>d1 d2 y. claimRider C e1 now1 tc1 oid r1 d = (Inr True, d1)
     \<and> claimRider C e2 now2 tc2 oid r2 d1 = (Inr True, d2)
     \<and> order_by_id oid d2 = Some y \<and> order_RiderID y = Some r2
     \<and> \<not> rider_available r1 d2 \<and> \<not> rider_available r2 d2"
proof -
  obtain d1 where 1: "claimRider C e1 now1 tc1 oid r1 d = (Inr True, d1)" "claim C now1 oid r1 d d1"
    using codec_laws.claimRider_clean [OF assms(1,2,4)] by blast
  have "rider_available r2 d1" using claim_available [OF 1(2)] assms(5,6) by simp
  then obtain d2 where 2: "claimRider C e2 now2 tc2 oid r2 d1 = (Inr True, d2)" "claim C now2 oid r2 d1 d2"
    using codec_laws.claimRider_clean [OF assms(1,3)] by blast
  obtain y where "order_by_id oid d2 = Some y" "order_RiderID y = Some r2"
    using claim_order [OF 1(2)] claim_order [OF 2(2)] assms(7) by auto
  moreover have "\<not> rider_available r1 d2" "\<not> rider_available r2 d2"
    using claim_available [OF 1(2)] claim_available [OF 2(2)] by simp_all
  ultimately show ?thesis using 1(1) 2(1) by blast
qed

section \<open>Properties\<close>

text \<open>
  C12: a rider is won by at most one order: over any sequence of claims, by whatever consumers and
  with whatever failures, no rider is won twice, every winner's rider was AVAILABLE at the start,
  and no claim makes a rider AVAILABLE.
\<close>

theorem claims_are_exclusive:
  assumes "codec_laws C" and "run_claims C cs d = (won, d')"
  shows "distinct won \<and> set won \<subseteq> {r. rider_available r d}
     \<and> (\<forall>r. rider_available r d' \<longrightarrow> rider_available r d \<and> r \<notin> set won)"
  by (rule codec_laws.run_claims_available [OF assms])

theorem claims_are_exclusive_witness:
  "distinct (fst (run_claims canonical_codec [example_claim 7 3, example_claim 8 3]
     (example_fleet [(3, ''AVAILABLE'')])))"
  using claims_are_exclusive [OF canonical.codec_laws_axioms prod.collapse [symmetric]] by blast



text \<open>
  C13: an assignment that reports its outcome resolves the order: it leaves the order with a rider
  when it returns nil, and out of PLACED when it returns \<open>ErrNoRiderAvailable\<close>, so that the order
  does not hang, whatever single calls fail and whatever other actors do between the
  transactions, short of deleting the order.
\<close>

theorem assign_resolves_order:
  assumes "codec_laws C"
    and "\<And>k d. wf_db d \<and> order_by_id oid d \<noteq> None \<Longrightarrow>
      wf_db (as_others E k d) \<and> order_by_id oid (as_others E k d) \<noteq> None"
    and "wf_db d \<and> order_by_id oid d \<noteq> None"
    and "Assign C G E oid lat lng (d, g, m) = (r, d', g', m')"
  shows "(r = None \<longrightarrow> (\<exists>x. order_by_id oid d' = Some x \<and> order_RiderID x \<noteq> None))
     \<and> (r = Some ErrNoRiderAvailable \<longrightarrow> (\<exists>x. order_by_id oid d' = Some x \<and> order_Status x \<noteq> StatusPlaced))"
  by (rule codec_laws.Assign_resolves [OF assms])

theorem assign_resolves_order_witness:
  "case Assign canonical_codec (list_geo (\<lambda>a b c d. 0)) still_env 7 28.6 77.2 (example_db StatusPlaced, [], no_metrics) of
     (r, d', g', m') \<Rightarrow> r = Some ErrNoRiderAvailable \<and> map_option order_Status (order_by_id 7 d') \<noteq> Some StatusPlaced"
proof -
  let ?d = "example_db StatusPlaced" and ?G = "list_geo (\<lambda>a b c d. 0)"
  have near: "nearestAvailableRiders canonical_codec ?G 28.6 77.2 10 [] = Inr []"
    by (simp add: nearestAvailableRiders_def list_geo_def List.map_filter_simps)
  obtain d' m' where a: "Assign canonical_codec ?G still_env 7 28.6 77.2 (?d, [], no_metrics)
      = (Some ErrNoRiderAvailable, d', [], m')"
    using codec_laws.Assign_all_unavailable [OF canonical.codec_laws_axioms, of still_env ?G "28.6" "77.2" "[]" "[]"
        ?d 7 "example_order StatusPlaced" no_metrics] near by auto
  have "wf_db ?d"
    by (simp add: wf_db_def example_db_def example_order_def order_of_request_def example_event_def empty_db_def
        known_status_def status_defs)
  with assign_resolves_order [OF canonical.codec_laws_axioms _ _ a] a show ?thesis by auto
qed

text \<open>
  C14: without interference and failures the nearest available rider gets the order: if the geo index
  returns some rider who is AVAILABLE, the assignment succeeds with a claim of an AVAILABLE rider
  such that no AVAILABLE rider of the index in the radius is nearer, and removes the claimed rider
  from the index.
\<close>

theorem assign_picks_nearest_available:
  assumes "codec_laws C" and "geo_index G members distance_km"
    and "\<And>k. as_others E k = id" and "\<And>k. clean_env (as_pg E k)"
    and "members g RidersGeoKey \<subseteq> range (uuid_String C)"
    and "GeoSearch G RidersGeoKey lat lng searchRadiusKm 10 g = Inr res"
    and "rider_available q d" and "uuid_String C q \<in> set res"
  shows "\<exists>r d' now. Assign C G E oid lat lng (d, g, m) =
       (None, d', snd (ZRem G RidersGeoKey (uuid_String C r) g), IncEvent ''order.assigned'' m)
     \<and> claim C now oid r d d'
     \<and> (\<forall>p. rider_available p d \<and> uuid_String C p \<in> members g RidersGeoKey
          \<and> distance_km g RidersGeoKey lat lng (uuid_String C p) \<le> searchRadiusKm
          \<longrightarrow> distance_km g RidersGeoKey lat lng (uuid_String C r)
              \<le> distance_km g RidersGeoKey lat lng (uuid_String C p))
     \<and> (fst (ZRem G RidersGeoKey (uuid_String C r) g) = None
          \<longrightarrow> uuid_String C r \<notin> members (snd (ZRem G RidersGeoKey (uuid_String C r) g)) RidersGeoKey)"
proof -
  note inj = codec_laws.uuid_String_inj [OF assms(1)]
  have "set res \<subseteq> range (uuid_String C)"
    using geo_index.search_sound [OF assms(2,6)] assms(5) by blast
  then obtain us where us: "res = map (uuid_String C) us" "nearestAvailableRiders C G lat lng 10 g = Inr us"
    using codec_laws.candidates_of_uuids [OF assms(1,6)] by blast
  have "\<exists>u \<in> set us. rider_available u d" using assms(7,8) us(1) by (auto simp: inj)
  then obtain ps r rest where split: "us = ps @ r # rest" "rider_available r d" "\<forall>p \<in> set ps. \<not> rider_available p d"
    using split_list_first_prop [of us "\<lambda>u. rider_available u d"] by blast
  obtain d' now where a: "Assign C G E oid lat lng (d, g, m) =
       (None, d', snd (ZRem G RidersGeoKey (uuid_String C r) g), IncEvent ''order.assigned'' m)"
      "claim C now oid r d d'"
    using codec_laws.Assign_first_available [where E = E, OF assms(1,3,4) us(2) [unfolded split(1)] split(3,2)] by blast
  have near: "distance_km g RidersGeoKey lat lng (uuid_String C r) \<le> distance_km g RidersGeoKey lat lng (uuid_String C p)"
    if "rider_available p d" "uuid_String C p \<in> members g RidersGeoKey"
      "distance_km g RidersGeoKey lat lng (uuid_String C p) \<le> searchRadiusKm" for p
  proof (rule geo_index.search_nearest_first [OF assms(2)])
    show "GeoSearch G RidersGeoKey lat lng searchRadiusKm 10 g
        = Inr (map (uuid_String C) ps @ uuid_String C r # map (uuid_String C) rest)"
      using assms(6) us(1) split(1) by simp
    show "uuid_String C p \<notin> set (map (uuid_String C) ps)"
      using that(1) split(3) by (auto simp: inj)
  qed (use that in simp_all)
  have rem: "uuid_String C r \<notin> members (snd (ZRem G RidersGeoKey (uuid_String C r) g)) RidersGeoKey"
    if "fst (ZRem G RidersGeoKey (uuid_String C r) g) = None"
    using geo_index.rem_ok [OF assms(2), of RidersGeoKey "uuid_String C r" g] that
    by (cases "ZRem G RidersGeoKey (uuid_String C r) g") auto
  show ?thesis
    by (intro exI [of _ r] exI [of _ d'] exI [of _ now] conjI allI impI) (use a near rem in simp_all)
qed

theorem assign_picks_nearest_available_witness:
  "\<exists>r d' now g' m'. Assign canonical_codec (list_geo example_metric) still_env 7 28 77
       (example_fleet [(3, ''BUSY''), (4, ''AVAILABLE''), (5, ''AVAILABLE'')],
        example_index [(3, 28.01), (4, 28.02), (5, 28.03)], no_metrics) = (None, d', g', m')
     \<and> claim canonical_codec now 7 r (example_fleet [(3, ''BUSY''), (4, ''AVAILABLE''), (5, ''AVAILABLE'')]) d'"
  using assign_picks_nearest_available [OF canonical.codec_laws_axioms memory_geo.geo_index_axioms
      still_env_simps _ example_search,
      of 5 "example_fleet [(3, ''BUSY''), (4, ''AVAILABLE''), (5, ''AVAILABLE'')]" 7 no_metrics]
  by (auto simp: example_index_members uuid_String_canonical example_fleet_available)

end
