(* ===== verification/Rider_Service.thy ===== *)
theory Rider_Service
  imports Assignment
begin

text \<open>
  \<^verbatim>\<open>internal/rider\<close>: registration, the shift status with its mirror in the geo index, the active
  order, and the HTTP handlers.  Two stores are involved and no transaction spans them; the
  properties say what agrees after each outcome.
\<close>

section \<open>Requests\<close>

definition rider_Valid :: "string \<Rightarrow> bool" where
  "rider_Valid s = (if s = ''OFFLINE'' \<or> s = ''AVAILABLE'' \<or> s = ''BUSY'' then True else False)"

record RegisterRequest =
  reg_Name :: string
  reg_Phone :: string

definition register_fields :: "RegisterRequest fields" where
  "register_fields =
     [(''name'', field dec_string (\<lambda>v r. r\<lparr>reg_Name := v\<rparr>)),
      (''phone'', field dec_string (\<lambda>v r. r\<lparr>reg_Phone := v\<rparr>))]"

record SetStatusRequest =
  set_Status :: string
  set_Lat :: "float64 option"
  set_Lng :: "float64 option"

definition set_status_fields :: "SetStatusRequest fields" where
  "set_status_fields =
     [(''status'', field dec_string (\<lambda>v r. r\<lparr>set_Status := v\<rparr>)),
      (''lat'', field_ptr dec_float (\<lambda>v r. r\<lparr>set_Lat := v\<rparr>)),
      (''lng'', field_ptr dec_float (\<lambda>v r. r\<lparr>set_Lng := v\<rparr>))]"

definition rider_json :: "codec \<Rightarrow> Rider \<Rightarrow> json" where
  "rider_json C x = JObj
     [(''id'', json_uuid C (rider_ID x)), (''name'', JStr (rider_Name x)), (''phone'', JStr (rider_Phone x)),
      (''status'', JStr (rider_Status x)), (''created_at'', json_time C (rider_CreatedAt x)),
      (''updated_at'', json_time C (rider_UpdatedAt x))]"

text \<open>\<^verbatim>\<open>%q\<close> for the ASCII range: quotes, backslashes and control characters are escaped; the bytes
  of other characters are printed as they are.\<close>

definition hex_digit :: "nat \<Rightarrow> char" where
  "hex_digit n = char_of (if n < 10 then 48 + n else 87 + n)"

definition quote_char :: "char \<Rightarrow> string" where
  "quote_char c =
     (let n = (of_char c :: nat) in
      if n = 34 \<or> n = 92 then [CHR 0x5C, c]
      else if n = 7 then [CHR 0x5C, CHR ''a''] else if n = 8 then [CHR 0x5C, CHR ''b'']
      else if n = 9 then [CHR 0x5C, CHR ''t''] else if n = 10 then [CHR 0x5C, CHR ''n'']
      else if n = 11 then [CHR 0x5C, CHR ''v''] else if n = 12 then [CHR 0x5C, CHR ''f'']
      else if n = 13 then [CHR 0x5C, CHR ''r'']
      else if n < 32 \<or> n = 127 then [CHR 0x5C, CHR ''x'', hex_digit (n div 16), hex_digit (n mod 16)]
      else [c])"

definition go_quote :: "string \<Rightarrow> string" where
  "go_quote s = [CHR 0x22] @ concat (map quote_char s) @ [CHR 0x22]"

section \<open>Repository\<close>

definition insert_rider :: "pg_env \<Rightarrow> Rider \<Rightarrow> db \<Rightarrow> error + Rider \<times> db" where
  "insert_rider e x d =
     (case (varchar 100 (rider_Name x), varchar 15 (rider_Phone x)) of
        (Some name, Some phone) \<Rightarrow>
          if list_ex (\<lambda>y. rider_Phone y = phone) (riders d) then Inl (ErrorString ''riders_phone_key'')
          else if rider_exists (pg_uuid e) d then Inl (ErrorString ''riders_pkey'')
          else if \<not> known_rider_status (rider_Status x) then Inl (ErrorString ''riders_status_chk'')
          else let y = x\<lparr>rider_ID := pg_uuid e, rider_CreatedAt := pg_now e, rider_UpdatedAt := pg_now e\<rparr>
               in Inr (y, d\<lparr>riders := riders d @ [y\<lparr>rider_Name := name, rider_Phone := phone\<rparr>]\<rparr>)
      | _ \<Rightarrow> Inl (ErrorString ''value too long for type character varying''))"

definition rider_Create :: "pg_env \<Rightarrow> RegisterRequest \<Rightarrow> db \<Rightarrow> (error + Rider) \<times> db" where
  "rider_Create e req d =
     (case autocommit e (insert_rider e
             \<lparr>rider_ID = uuid_Nil, rider_Name = reg_Name req, rider_Phone = reg_Phone req,
              rider_Status = ''OFFLINE'', rider_CreatedAt = 0, rider_UpdatedAt = 0\<rparr>) d of
        (Inl err, d') \<Rightarrow> (Inl (WrapError ''insert rider: '' err ''''), d')
      | (Inr x, d') \<Rightarrow> (Inr x, d'))"

definition rider_GetByID :: "pg_env \<Rightarrow> uuid \<Rightarrow> db \<Rightarrow> error + Rider" where
  "rider_GetByID e i d =
     (if \<not> stmt_ok e 0 then Inl pg_stmt_error
      else case rider_by_id i d of None \<Rightarrow> Inl RiderErrNotFound | Some x \<Rightarrow> Inr x)"

definition update_rider_status :: "pg_env \<Rightarrow> string \<Rightarrow> uuid \<Rightarrow> db \<Rightarrow> error + nat \<times> db" where
  "update_rider_status e s i d =
     (let n = rows_affected (\<lambda>x. rider_ID x = i) (riders d) in
      if n \<noteq> 0 \<and> \<not> known_rider_status s then Inl (ErrorString ''riders_status_chk'')
      else Inr (n, d\<lparr>riders := sql_update (\<lambda>x. rider_ID x = i)
                         (\<lambda>x. x\<lparr>rider_Status := s, rider_UpdatedAt := pg_now e\<rparr>) (riders d)\<rparr>))"

definition rider_repo_SetStatus :: "pg_env \<Rightarrow> uuid \<Rightarrow> string \<Rightarrow> db \<Rightarrow> error option \<times> db" where
  "rider_repo_SetStatus e i s d =
     (case autocommit e (update_rider_status e s i) d of
        (Inl err, d') \<Rightarrow> (Some err, d')
      | (Inr n, d') \<Rightarrow> (if n = 0 then Some RiderErrNotFound else None, d'))"

definition rider_ActiveOrder :: "pg_env \<Rightarrow> uuid \<Rightarrow> db \<Rightarrow> error + uuid \<times> string" where
  "rider_ActiveOrder e rid d =
     (if \<not> stmt_ok e 0 then Inl pg_stmt_error
      else case latest_active_order rid d of
          None \<Rightarrow> Inl RiderErrNotFound
        | Some x \<Rightarrow> Inr (order_ID x, order_Status x))"

section \<open>Service\<close>

definition rider_Register :: "pg_env \<Rightarrow> RegisterRequest \<Rightarrow> db \<Rightarrow> (error + Rider) \<times> db" where
  "rider_Register e req d =
     (if reg_Name req = '''' \<or> reg_Phone req = ''''
      then (Inl (WrapError '''' RiderErrInvalidRequest '': name and phone required''), d)
      else rider_Create e req d)"

definition rider_SetStatus ::
  "codec \<Rightarrow> 'g geo_client \<Rightarrow> pg_env \<Rightarrow> pg_env \<Rightarrow> uuid \<Rightarrow> SetStatusRequest \<Rightarrow> db \<times> 'g
     \<Rightarrow> (error + Rider) \<times> db \<times> 'g" where
  "rider_SetStatus C G ew er i req = (\<lambda>(d, g).
     (if \<not> rider_Valid (set_Status req)
      then (Inl (WrapError '''' RiderErrInvalidRequest ('': unknown status '' @ go_quote (set_Status req))), d, g)
      else case rider_repo_SetStatus ew i (set_Status req) d of
          (Some err, d') \<Rightarrow> (Inl err, d', g)
        | (None, d') \<Rightarrow>
            if set_Status req = ''AVAILABLE'' then
              (case (set_Lat req, set_Lng req) of
                 (Some lat, Some lng) \<Rightarrow>
                   (case GeoAdd G RidersGeoKey (uuid_String C i) lat lng g of
                      (Some err, g') \<Rightarrow> (Inl (WrapError ''geoadd: '' err ''''), d', g')
                    | (None, g') \<Rightarrow> (rider_GetByID er i d', d', g'))
               | _ \<Rightarrow> (Inl (WrapError '''' RiderErrInvalidRequest '': lat/lng required when going AVAILABLE''), d', g))
            else (case ZRem G RidersGeoKey (uuid_String C i) g of
                (_, g') \<Rightarrow> (rider_GetByID er i d', d', g'))))"

definition GetActiveOrder :: "pg_env \<Rightarrow> uuid \<Rightarrow> db \<Rightarrow> error + uuid \<times> string" where
  "GetActiveOrder e rid d =
     (case rider_ActiveOrder e rid d of Inl err \<Rightarrow> Inl err | Inr (i, s) \<Rightarrow> Inr (i, s))"

section \<open>HTTP handlers\<close>

definition handle_register :: "codec \<Rightarrow> pg_env \<Rightarrow> json option \<Rightarrow> db \<Rightarrow> response \<times> db" where
  "handle_register C e body d =
     (case decode_body register_fields \<lparr>reg_Name = '''', reg_Phone = ''''\<rparr> body of
        Inl _ \<Rightarrow> (writeErr 400 ''invalid json'', d)
      | Inr req \<Rightarrow>
          (case rider_Register e req d of
             (Inl err, d') \<Rightarrow>
               (if errors_Is err RiderErrInvalidRequest then writeErr 400 (Error err)
                else writeErr 500 ''internal error'', d')
           | (Inr x, d') \<Rightarrow> (writeJSON 201 (rider_json C x), d')))"

definition handle_setStatus ::
  "codec \<Rightarrow> 'g geo_client \<Rightarrow> pg_env \<Rightarrow> pg_env \<Rightarrow> string \<Rightarrow> json option \<Rightarrow> db \<times> 'g \<Rightarrow> response \<times> db \<times> 'g" where
  "handle_setStatus C G ew er idParam body s =
     (case uuid_Parse C idParam of
        None \<Rightarrow> (writeErr 400 ''invalid id'', s)
      | Some i \<Rightarrow>
          (case decode_body set_status_fields \<lparr>set_Status = '''', set_Lat = None, set_Lng = None\<rparr> body of
             Inl _ \<Rightarrow> (writeErr 400 ''invalid json'', s)
           | Inr req \<Rightarrow>
               (case rider_SetStatus C G ew er i req s of
                  (Inl err, s') \<Rightarrow>
                    (if errors_Is err RiderErrNotFound then writeErr 404 ''rider not found''
                     else if errors_Is err RiderErrInvalidRequest then writeErr 400 (Error err)
                     else writeErr 500 ''internal error'', s')
                | (Inr x, s') \<Rightarrow> (writeJSON 200 (rider_json C x), s'))))"

definition handle_activeOrder :: "codec \<Rightarrow> pg_env \<Rightarrow> string \<Rightarrow> db \<Rightarrow> response" where
  "handle_activeOrder C e idParam d =
     (case uuid_Parse C idParam of
        None \<Rightarrow> writeErr 400 ''invalid id''
      | Some rid \<Rightarrow>
          (case GetActiveOrder e rid d of
             Inl err \<Rightarrow>
               if errors_Is err RiderErrNotFound then writeErr 404 ''no active order''
               else writeErr 500 ''internal error''
           | Inr (i, s) \<Rightarrow> writeJSON 200 (JObj [(''order_id'', json_uuid C i), (''status'', JStr s)])))"

section \<open>Lemmas\<close>

lemma rider_Valid_iff: "rider_Valid s \<longleftrightarrow> known_rider_status s"
  by (auto simp: rider_Valid_def known_rider_status_def)

lemma autocommit_effect:
  assumes "autocommit e s d = (r, d')"
  shows "d' = d \<and> (\<exists>err. r = Inl err)
     \<or> (\<exists>x. s d = Inr (x, d') \<and> (r = Inr x \<or> commit_outcome e = Lost \<and> (\<exists>err. r = Inl err)))"
  using assms by (auto simp: autocommit_def split: sum.splits prod.splits outcome.splits)

lemma insert_rider_Inr:
  assumes "insert_rider e x d = Inr (y, d')"
  obtains z where "d' = d\<lparr>riders := riders d @ [z]\<rparr>" "rider_ID z = rider_ID y" "rider_Status z = rider_Status x"
    "rider_Status y = rider_Status x" "\<not> rider_exists (rider_ID z) d"
    "rider_Phone z \<notin> set (map rider_Phone (riders d))" "known_rider_status (rider_Status z)"
    "varchar 100 (rider_Name x) = Some (rider_Name z)" "varchar 15 (rider_Phone x) = Some (rider_Phone z)"
  using assms that
  by (fastforce simp: insert_rider_def Let_def list_ex_iff split: option.splits if_splits)

lemma insert_rider_wf: "insert_rider e x d = Inr (y, d') \<Longrightarrow> wf_db d \<Longrightarrow> wf_db d'"
proof -
  assume ins: "insert_rider e x d = Inr (y, d')" and wf: "wf_db d"
  from ins obtain z where z: "d' = d\<lparr>riders := riders d @ [z]\<rparr>" "\<not> rider_exists (rider_ID z) d"
      "rider_Phone z \<notin> set (map rider_Phone (riders d))" "known_rider_status (rider_Status z)"
    by (elim insert_rider_Inr) blast
  have "pred_option (\<lambda>r. rider_exists r d') q" if "pred_option (\<lambda>r. rider_exists r d) q" for q
    using that by (cases q) (auto simp: rider_exists_ids z(1))
  then have "list_all (\<lambda>x. pred_option (\<lambda>r. rider_exists r d') (order_RiderID x)) (orders d)"
    using wf by (auto simp: wf_db_def list_all_iff)
  with wf z show ?thesis by (auto simp: wf_db_def rider_exists_ids)
qed

lemma rider_Create_wf: "rider_Create e req d = (r, d') \<Longrightarrow> wf_db d \<Longrightarrow> wf_db d'"
  unfolding rider_Create_def
  by (auto split: sum.splits prod.splits elim!: autocommit_cases intro: insert_rider_wf)

lemma insert_rider_error: "insert_rider e x d = Inl err \<Longrightarrow> \<exists>s. err = ErrorString s"
  by (auto simp: insert_rider_def Let_def split: option.splits if_splits)

lemma rider_by_id_affected:
  "rows_affected (\<lambda>x. rider_ID x = i) (riders d) = 0 \<longleftrightarrow> rider_by_id i d = None"
  by (simp add: rows_affected_0 rider_by_id_def find_None_iff_list)

lemma rider_by_id_update:
  assumes "\<And>x. rider_ID (f x) = rider_ID x"
  shows "rider_by_id j (d\<lparr>riders := sql_update (\<lambda>x. rider_ID x = i) f (riders d)\<rparr>) =
     (if j = i then map_option f (rider_by_id i d) else rider_by_id j d)"
proof -
  have "find (\<lambda>x. rider_ID x = j) (sql_update (\<lambda>x. rider_ID x = i) f (riders d)) =
      map_option (\<lambda>x. if rider_ID x = i then f x else x) (rider_by_id j d)"
    by (simp add: rider_by_id_def assms find_sql_update)
  also have "\<dots> = (if j = i then map_option f (rider_by_id i d) else rider_by_id j d)"
    by (cases "rider_by_id j d") (auto simp: rider_by_id_def dest: find_in_set)
  finally show ?thesis by (simp add: rider_by_id_def)
qed

text \<open>The effect of a status update on the riders table, and its outcomes.\<close>

definition rider_update :: "uuid \<Rightarrow> string \<Rightarrow> db \<Rightarrow> db \<Rightarrow> bool" where
  "rider_update i s d d' \<longleftrightarrow> rider_by_id i d \<noteq> None \<and> known_rider_status s \<and>
     (\<exists>t. d' = d\<lparr>riders := sql_update (\<lambda>x. rider_ID x = i) (\<lambda>x. x\<lparr>rider_Status := s, rider_UpdatedAt := t\<rparr>) (riders d)\<rparr>)"

lemma rider_update_view:
  "rider_update i s d d' \<Longrightarrow> map_option rider_Status (rider_by_id j d') =
     (if j = i then Some s else map_option rider_Status (rider_by_id j d))"
  by (auto simp: rider_update_def rider_by_id_update option.map_comp comp_def)

lemma rider_update_wf: "rider_update i s d d' \<Longrightarrow> wf_db d \<Longrightarrow> wf_db d'"
proof -
  assume up: "rider_update i s d d'" and wf: "wf_db d"
  then obtain t where k: "known_rider_status s"
    and d': "d' = d\<lparr>riders := sql_update (\<lambda>x. rider_ID x = i) (\<lambda>x. x\<lparr>rider_Status := s, rider_UpdatedAt := t\<rparr>) (riders d)\<rparr>"
    by (auto simp: rider_update_def)
  have "map rider_ID (riders d') = map rider_ID (riders d)" by (simp add: d' map_sql_update_id)
  then have "rider_exists r d' \<longleftrightarrow> rider_exists r d" for r by (simp add: rider_exists_ids)
  with wf k show ?thesis
    by (auto simp: wf_db_def d' map_sql_update_id list_all_iff in_set_sql_update)
qed

lemma repo_SetStatus_cases:
  assumes "rider_repo_SetStatus e i s d = (r, d')"
  obtains (ok) "r = None" "rider_update i s d d'"
  | (missing) "r = Some RiderErrNotFound" "d' = d" "rider_by_id i d = None"
  | (failed) msg where "r = Some (ErrorString msg)" "d' = d \<or> commit_outcome e = Lost \<and> rider_update i s d d'"
proof -
  let ?f = "\<lambda>x. x\<lparr>rider_Status := s, rider_UpdatedAt := pg_now e\<rparr>"
  have same: "sql_update (\<lambda>x. rider_ID x = i) ?f (riders d) = riders d" if "rider_by_id i d = None"
    using that rider_by_id_affected [of i d] by (intro sql_update_none) simp
  show thesis
    using assms that rider_by_id_affected [of i d] same
    by (auto simp: rider_repo_SetStatus_def autocommit_def update_rider_status_def Let_def rider_update_def
        pg_stmt_error_def split: if_splits outcome.splits)
qed

text \<open>What the two stores hold after each outcome of \<open>rider_SetStatus\<close>.\<close>

context geo_index
begin

lemma SetStatus_outcomes:
  assumes "rider_SetStatus C G ew er i req (d, g) = (r, d', g')"
  shows "d' = d \<and> g' = g \<and> (\<exists>err. r = Inl err)
     \<or> (d' = d \<or> rider_update i (set_Status req) d d') \<and> commit_outcome ew = Lost \<and> g' = g \<and> (\<exists>err. r = Inl err)
     \<or> rider_update i (set_Status req) d d' \<and>
       (if set_Status req = ''AVAILABLE'' then
          (if set_Lat req = None \<or> set_Lng req = None
           then g' = g \<and> r = Inl (WrapError '''' RiderErrInvalidRequest '': lat/lng required when going AVAILABLE'')
           else (g' = g \<or> members g' = (members g)(RidersGeoKey := insert (uuid_String C i) (members g RidersGeoKey)))
              \<and> ((\<forall>err. r \<noteq> Inl (WrapError ''geoadd: '' err '''')) \<longrightarrow> uuid_String C i \<in> members g' RidersGeoKey))
        else g' = snd (ZRem G RidersGeoKey (uuid_String C i) g))"
proof (cases "rider_Valid (set_Status req)")
  case False
  with assms show ?thesis by (auto simp: rider_SetStatus_def)
next
  case True
  obtain v d1 where up: "rider_repo_SetStatus ew i (set_Status req) d = (v, d1)" by fastforce
  from up show ?thesis
  proof (cases rule: repo_SetStatus_cases)
    case ok
    show ?thesis
    proof (cases "set_Status req = ''AVAILABLE'' \<and> set_Lat req \<noteq> None \<and> set_Lng req \<noteq> None")
      case True
      then obtain lat lng where l: "set_Lat req = Some lat" "set_Lng req = Some lng" by blast
      obtain w g1 where ga: "GeoAdd G RidersGeoKey (uuid_String C i) lat lng g = (w, g1)" by fastforce
      have eq: "(case w of Some err \<Rightarrow> (Inl (WrapError ''geoadd: '' err ''''), d1, g1)
          | None \<Rightarrow> (rider_GetByID er i d1, d1, g1)) = (r, d', g')"
        using assms True up ok l ga \<open>rider_Valid (set_Status req)\<close> by (simp add: rider_SetStatus_def)
      show ?thesis
      proof (cases w)
        case None
        with eq ga add_ok [of RidersGeoKey "uuid_String C i" lat lng g g1] ok l True show ?thesis by auto
      next
        case (Some err)
        with eq ga add_err [of RidersGeoKey "uuid_String C i" lat lng g err g1] ok l True show ?thesis by auto
      qed
    next
      case False
      with assms up ok \<open>rider_Valid (set_Status req)\<close> show ?thesis
        by (auto simp: rider_SetStatus_def split: option.splits prod.splits)
    qed
  next
    case missing
    with assms up True show ?thesis by (auto simp: rider_SetStatus_def)
  next
    case (failed msg)
    with assms up True show ?thesis by (auto simp: rider_SetStatus_def)
  qed
qed

lemma rider_GetByID_no_geoadd: "rider_GetByID e i d = Inl err \<Longrightarrow> \<forall>x. err \<noteq> WrapError ''geoadd: '' x ''''"
  by (auto simp: rider_GetByID_def pg_stmt_error_def split: if_splits option.splits)

end

section \<open>Examples and remarks\<close>

text \<open>
  The stores can disagree after a rejected request: going AVAILABLE without coordinates is
  answered 400, but the rider is AVAILABLE in the database, and not in the geo index.
\<close>

lemma rejected_available_request_takes_effect:
  assumes "rider_by_id i d \<noteq> None" and "commit_outcome ew = Done" and "uuid_Parse C idParam = Some i"
    and "decode_body set_status_fields \<lparr>set_Status = '''', set_Lat = None, set_Lng = None\<rparr> body
      = Inr \<lparr>set_Status = ''AVAILABLE'', set_Lat = None, set_Lng = lng\<rparr>"
  shows "\<exists>d'. handle_setStatus C G ew er idParam body (d, g)
       = (writeErr 400 ''invalid request: lat/lng required when going AVAILABLE'', d', g)
     \<and> map_option rider_Status (rider_by_id i d') = Some ''AVAILABLE''"
proof -
  obtain r d' where up: "rider_repo_SetStatus ew i ''AVAILABLE'' d = (r, d')" by fastforce
  moreover have "r = None"
    using up assms(1,2) rider_by_id_affected [of i d]
    by (auto simp: rider_repo_SetStatus_def autocommit_def update_rider_status_def Let_def split: if_splits)
  moreover have "rider_update i ''AVAILABLE'' d d'"
    using repo_SetStatus_cases [OF up] \<open>r = None\<close> by blast
  ultimately show ?thesis
    using assms(3,4) rider_update_view [of i "''AVAILABLE''" d d' i]
    by (auto simp: handle_setStatus_def rider_SetStatus_def rider_Valid_def)
qed

text \<open>
  The active order of a rider, as \<^verbatim>\<open>GET /riders/{id}/orders\<close> reports it, is an order of that rider
  that is neither DELIVERED nor CANCELLED, and none of those is younger; 404 is answered exactly when
  the rider has no such order.
\<close>

lemma active_order_is_latest:
  assumes "stmt_ok e 0" and "uuid_Parse C idParam = Some rid"
  shows "(resp_code (handle_activeOrder C e idParam d) = 404 \<longleftrightarrow>
       (\<forall>x \<in> set (orders d). order_RiderID x = Some rid \<longrightarrow> terminal_status (order_Status x)))
     \<and> (resp_code (handle_activeOrder C e idParam d) \<noteq> 404 \<longrightarrow>
         (\<exists>x \<in> set (orders d). order_RiderID x = Some rid \<and> \<not> terminal_status (order_Status x)
            \<and> handle_activeOrder C e idParam d = writeJSON 200
                (JObj [(''order_id'', json_uuid C (order_ID x)), (''status'', JStr (order_Status x))])
            \<and> (\<forall>y \<in> set (orders d). order_RiderID y = Some rid \<and> \<not> terminal_status (order_Status y)
                 \<longrightarrow> order_CreatedAt y \<le> order_CreatedAt x)))"
proof (cases "latest_active_order rid d")
  case None
  then have "handle_activeOrder C e idParam d = writeErr 404 ''no active order''"
    using assms by (simp add: handle_activeOrder_def GetActiveOrder_def rider_ActiveOrder_def)
  with None show ?thesis using latest_active_order_None [of rid d] by simp
next
  case (Some x)
  then have h: "handle_activeOrder C e idParam d = writeJSON 200
      (JObj [(''order_id'', json_uuid C (order_ID x)), (''status'', JStr (order_Status x))])"
    using assms by (simp add: handle_activeOrder_def GetActiveOrder_def rider_ActiveOrder_def)
  note x = latest_active_order_Some [OF Some]
  have "\<not> (\<forall>x \<in> set (orders d). order_RiderID x = Some rid \<longrightarrow> terminal_status (order_Status x))"
    using x by blast
  with x h show ?thesis by (simp add: bexI [of _ x])
qed

text \<open>
  Registration: 201 only after exactly one rider has been added, OFFLINE, under a new id and
  with a phone number nobody else has; 400 exactly for a body that does not decode or lacks a name or
  phone, without an effect; every other failure, a duplicate phone included, is 500, without an
  effect unless the answer of the insert was lost.  The schema's constraints are kept.
\<close>

lemma register_responses:
  assumes "handle_register C e body d = (resp, d')"
  shows "(case decode_body register_fields \<lparr>reg_Name = '''', reg_Phone = ''''\<rparr> body of
       Inl _ \<Rightarrow> resp_code resp = 400 \<and> d' = d
     | Inr req \<Rightarrow>
         if reg_Name req = '''' \<or> reg_Phone req = '''' then resp_code resp = 400 \<and> d' = d
         else resp_code resp = 500 \<and> (commit_outcome e \<noteq> Lost \<longrightarrow> d' = d)
            \<or> resp_code resp = 201 \<and> (\<exists>z. d' = d\<lparr>riders := riders d @ [z]\<rparr> \<and> rider_Status z = ''OFFLINE''
                 \<and> \<not> rider_exists (rider_ID z) d \<and> rider_Phone z \<notin> set (map rider_Phone (riders d))))
     \<and> (wf_db d \<longrightarrow> wf_db d')"
proof (cases "decode_body register_fields \<lparr>reg_Name = '''', reg_Phone = ''''\<rparr> body")
  case (Inl err)
  with assms show ?thesis by (auto simp: handle_register_def)
next
  case (Inr req)
  show ?thesis
  proof (cases "reg_Name req = '''' \<or> reg_Phone req = ''''")
    case True
    with assms Inr show ?thesis by (auto simp: handle_register_def rider_Register_def)
  next
    case False
    let ?x = "\<lparr>rider_ID = uuid_Nil, rider_Name = reg_Name req, rider_Phone = reg_Phone req,
      rider_Status = ''OFFLINE'', rider_CreatedAt = 0, rider_UpdatedAt = 0\<rparr>"
    obtain v d1 where ac: "autocommit e (insert_rider e ?x) d = (v, d1)" by fastforce
    have wf: "wf_db d \<Longrightarrow> wf_db d1" using ac by (elim autocommit_cases) (auto intro: insert_rider_wf)
    have kind: "\<not> errors_Is err RiderErrInvalidRequest" if "v = Inl err" for err
      using ac that by (auto simp: autocommit_def pg_stmt_error_def dest!: insert_rider_error
          split: sum.splits prod.splits outcome.splits)
    show ?thesis
    proof (cases v)
      case (Inl err)
      with assms Inr False ac kind have "resp = writeErr 500 ''internal error''" "d' = d1"
        by (auto simp: handle_register_def rider_Register_def rider_Create_def)
      moreover have "commit_outcome e \<noteq> Lost \<Longrightarrow> d1 = d"
        using autocommit_effect [OF ac] Inl by auto
      ultimately show ?thesis using Inr False wf by simp
    next
      case (Inr y)
      with assms \<open>decode_body _ _ _ = Inr req\<close> False ac
      have res: "resp = writeJSON 201 (rider_json C y)" "d' = d1"
        by (auto simp: handle_register_def rider_Register_def rider_Create_def)
      from Inr ac have "insert_rider e ?x d = Inr (y, d1)" by (auto dest: autocommit_Inr)
      then obtain z where "d1 = d\<lparr>riders := riders d @ [z]\<rparr>" "rider_Status z = ''OFFLINE''"
          "\<not> rider_exists (rider_ID z) d" "rider_Phone z \<notin> set (map rider_Phone (riders d))"
        by (elim insert_rider_Inr) auto
      with res wf \<open>decode_body _ _ _ = Inr req\<close> False show ?thesis by auto
    qed
  qed
qed

section \<open>Properties\<close>

text \<open>
  C35: a successful change of the shift status brings both stores in line: the returned rider is the
  stored one with the requested status, no other rider's status has changed, a rider who went
  AVAILABLE is in the geo index, and one who went OFFLINE or BUSY is not, unless Redis failed.
\<close>

theorem set_status_synchronises:
  assumes "geo_index G members distance_km"
    and "rider_SetStatus C G ew er i req (d, g) = (Inr x, d', g')"
  shows "rider_by_id i d' = Some x \<and> rider_Status x = set_Status req
     \<and> (\<forall>j. j \<noteq> i \<longrightarrow> map_option rider_Status (rider_by_id j d') = map_option rider_Status (rider_by_id j d))
     \<and> (set_Status req = ''AVAILABLE'' \<longrightarrow> uuid_String C i \<in> members g' RidersGeoKey)
     \<and> (set_Status req \<noteq> ''AVAILABLE'' \<and> fst (ZRem G RidersGeoKey (uuid_String C i) g) = None
          \<longrightarrow> uuid_String C i \<notin> members g' RidersGeoKey)"
proof -
  note out = geo_index.SetStatus_outcomes [OF assms]
  then have up: "rider_update i (set_Status req) d d'"
    and geo: "if set_Status req = ''AVAILABLE'' then uuid_String C i \<in> members g' RidersGeoKey
        else g' = snd (ZRem G RidersGeoKey (uuid_String C i) g)"
    by (auto split: if_splits)
  have "rider_GetByID er i d' = Inr x"
    using assms(2) by (auto simp: rider_SetStatus_def split: if_splits prod.splits option.splits)
  then have x: "rider_by_id i d' = Some x"
    by (auto simp: rider_GetByID_def split: if_splits option.splits)
  have "uuid_String C i \<notin> members (snd (ZRem G RidersGeoKey (uuid_String C i) g)) RidersGeoKey"
    if "fst (ZRem G RidersGeoKey (uuid_String C i) g) = None"
    using geo_index.rem_ok [OF assms(1), of RidersGeoKey "uuid_String C i" g] that
    by (cases "ZRem G RidersGeoKey (uuid_String C i) g") auto
  with x geo rider_update_view [OF up, of i] rider_update_view [OF up] show ?thesis by auto
qed

theorem set_status_synchronises_witness:
  "\<exists>x d' g'. rider_SetStatus canonical_codec (list_geo example_metric) example_env example_env 3
       \<lparr>set_Status = ''AVAILABLE'', set_Lat = Some 28, set_Lng = Some 77\<rparr>
       (example_fleet [(3, ''OFFLINE'')], []) = (Inr x, d', g')
     \<and> uuid_String canonical_codec 3 \<in> geo_members g' RidersGeoKey"
proof -
  let ?req = "\<lparr>set_Status = ''AVAILABLE'', set_Lat = Some 28, set_Lng = Some 77\<rparr>"
  obtain x d' g' where s: "rider_SetStatus canonical_codec (list_geo example_metric) example_env example_env 3 ?req
      (example_fleet [(3, ''OFFLINE'')], []) = (Inr x, d', g')"
    by (simp add: rider_SetStatus_def rider_Valid_def rider_repo_SetStatus_def autocommit_def update_rider_status_def
        example_fleet_def example_db_def example_rider_def example_env_def list_geo_def rider_GetByID_def
        rider_by_id_def rows_affected_def Let_def)
  with set_status_synchronises [OF memory_geo.geo_index_axioms s] show ?thesis by auto
qed

end
