(* ===== verification/Websocket.thy ===== *)
theory Websocket
  imports Rush_Json
begin

text \<open>
  The connection handling the location and the notification service share (\<^verbatim>\<open>handler.go\<close> of both):
  the read loop under a deadline that every pong extends, and the goroutine that writes pings.  The
  library \<^verbatim>\<open>gorilla/websocket\<close> is seen through what the loop gets from it: messages in the order of
  their arrival, and one error, after which the loop ends.  Pongs are handled inside a read.  A read
  that still waits at the deadline fails then; the time a handler needs for a message is not
  counted against the next read.
\<close>

section \<open>Constants\<close>

definition seconds :: "int \<Rightarrow> time" where
  "seconds n = n * 1000000000"

definition pongWait :: time where
  "pongWait = seconds 60"

definition pingPeriod :: time where
  "pingPeriod = seconds 30"

lemmas heartbeat_defs = seconds_def pongWait_def pingPeriod_def

section \<open>The read loop\<close>

text \<open>What arrives on a connection: a pong, a message with its JSON value (\<open>None\<close> when it is not
  JSON), or the end of the connection.\<close>

datatype incoming = Pong | Message "json option" | Gone

type_synonym wire = "(time \<times> incoming) list"

text \<open>The results of the successive reads, each with its instant: a message, or the final error.  With
  nothing more on the wire the last read ends at the deadline.\<close>

fun next_reads :: "time \<Rightarrow> wire \<Rightarrow> (json option option \<times> time) list" where
  "next_reads deadline [] = [(None, deadline)]"
| "next_reads deadline ((t, m) # wire) =
     (if deadline \<le> t then [(None, deadline)]
      else case m of
          Pong \<Rightarrow> next_reads (t + pongWait) wire
        | Message v \<Rightarrow> (Some v, t) # next_reads deadline wire
        | Gone \<Rightarrow> [(None, t)])"

text \<open>\<open>reads opened wire\<close> is the loop of a connection opened at that instant, which ends at \<open>read_end\<close>.\<close>

definition reads :: "time \<Rightarrow> wire \<Rightarrow> (json option option \<times> time) list" where
  "reads opened wire = next_reads (opened + pongWait) wire"

definition read_end :: "time \<Rightarrow> wire \<Rightarrow> time" where
  "read_end opened wire = snd (last (reads opened wire))"

section \<open>The ping goroutine\<close>

definition ping_ticks :: "time \<Rightarrow> nat \<Rightarrow> time list" where
  "ping_ticks opened n = map (\<lambda>i. opened + pingPeriod * (int i + 1)) [0..<n]"

text \<open>It writes a ping at every tick until a write fails or the handler has returned (at \<open>done\<close>).\<close>

fun ping_loop :: "(time \<Rightarrow> bool) \<Rightarrow> time \<Rightarrow> time list \<Rightarrow> time list" where
  "ping_loop ok done [] = []"
| "ping_loop ok done (t # ticks) =
     (if done \<le> t then [] else t # (if ok t then ping_loop ok done ticks else []))"

section \<open>What a session returns\<close>

datatype ws_result = HttpError int string | UpgradeFailed | Session "json list"

section \<open>Lemmas\<close>

lemma next_reads_not_Nil [simp]: "next_reads deadline wire \<noteq> []"
  by (induction deadline wire rule: next_reads.induct) (auto split: incoming.splits)

lemma next_reads_last: "fst (last (next_reads deadline wire)) = None"
  by (induction deadline wire rule: next_reads.induct) (auto split: incoming.splits)

lemma next_reads_messages: "r \<in> set (butlast (next_reads deadline wire)) \<Longrightarrow> fst r \<noteq> None"
  by (induction deadline wire rule: next_reads.induct) (auto split: incoming.splits if_splits)

text \<open>A connection is read no longer than \<open>pongWait\<close> after its last pong.\<close>

lemma next_reads_bound:
  "deadline \<le> T + pongWait \<Longrightarrow> (\<And>t. (t, Pong) \<in> set wire \<Longrightarrow> t \<le> T) \<Longrightarrow>
     r \<in> set (next_reads deadline wire) \<Longrightarrow> snd r \<le> T + pongWait"
proof (induction deadline wire rule: next_reads.induct)
  case (2 deadline t m wire)
  show ?case
  proof (cases "deadline \<le> t")
    case True
    with 2 show ?thesis by simp
  next
    case False
    with 2 show ?thesis by (cases m) auto
  qed
qed simp

text \<open>The messages of a wire up to the end of the connection, without deadlines.\<close>

fun offered :: "wire \<Rightarrow> (json option option \<times> time) list" where
  "offered [] = []"
| "offered ((t, m) # wire) =
     (case m of
        Pong \<Rightarrow> offered wire
      | Message v \<Rightarrow> (Some v, t) # offered wire
      | Gone \<Rightarrow> [(None, t)])"

lemma offered_time: "r \<in> set (offered wire) \<Longrightarrow> snd r \<in> fst ` set wire"
  by (induction wire rule: offered.induct) (auto split: incoming.splits)

lemma ping_loop_sent:
  "list_all ok ticks \<Longrightarrow> p \<in> set ticks \<Longrightarrow> sorted ticks \<Longrightarrow> p < done \<Longrightarrow> p \<in> set (ping_loop ok done ticks)"
  by (induction ticks) auto

lemma sorted_ping_ticks: "sorted (ping_ticks opened n)"
  by (auto simp: ping_ticks_def sorted_iff_nth_mono heartbeat_defs)

lemma in_ping_ticks: "1 \<le> k \<Longrightarrow> k \<le> n \<Longrightarrow> opened + pingPeriod * int k \<in> set (ping_ticks opened n)"
  by (auto simp: ping_ticks_def intro!: image_eqI [of _ _ "k - 1"])

text \<open>
  \<open>answered\<close>: each of the first \<open>n\<close> pings has moved the deadline already, is not sent because the
  loop has ended before it, or has its pong still on the wire.
\<close>

definition answered :: "time \<Rightarrow> nat \<Rightarrow> time \<Rightarrow> wire \<Rightarrow> bool" where
  "answered opened n deadline wire \<longleftrightarrow>
     (\<forall>k. 1 \<le> k \<and> k \<le> n \<longrightarrow>
        opened + pingPeriod * int k + pongWait \<le> deadline
      \<or> snd (last (next_reads deadline wire)) \<le> opened + pingPeriod * int k
      \<or> (\<exists>t. (t, Pong) \<in> set wire \<and> opened + pingPeriod * int k \<le> t
              \<and> t < opened + pingPeriod * int k + (pongWait - pingPeriod)))"

lemma answered_deadline:
  assumes "answered opened n deadline wire" "opened + pongWait \<le> deadline"
    and "snd (last (next_reads deadline wire)) = deadline" "\<And>t. (t, Pong) \<in> set wire \<Longrightarrow> deadline \<le> t"
  shows "k \<le> n \<Longrightarrow> opened + pingPeriod * int k + pongWait \<le> deadline"
proof (induction k)
  case 0
  with assms(2) show ?case by simp
next
  case (Suc k)
  then have IH: "opened + pingPeriod * int k + pongWait \<le> deadline" by simp
  let ?p = "opened + pingPeriod * int (Suc k)"
  have p: "?p + (pongWait - pingPeriod) \<le> deadline" "?p < deadline"
    using IH by (simp_all add: heartbeat_defs)
  from assms(1) Suc.prems
  have "?p + pongWait \<le> deadline \<or> snd (last (next_reads deadline wire)) \<le> ?p
      \<or> (\<exists>t. (t, Pong) \<in> set wire \<and> ?p \<le> t \<and> t < ?p + (pongWait - pingPeriod))"
    unfolding answered_def by (elim allE [where x = "Suc k"]) simp
  with p assms(3,4) show ?case by fastforce
qed

lemma answered_reads:
  "sorted (map fst wire) \<Longrightarrow> (\<And>t. t \<in> fst ` set wire \<Longrightarrow> opened \<le> t \<and> deadline \<le> t + pongWait) \<Longrightarrow>
     opened + pongWait \<le> deadline \<Longrightarrow> answered opened n deadline wire \<Longrightarrow>
     filter (\<lambda>r. snd r < opened + pingPeriod * int n + pongWait) (next_reads deadline wire)
     = filter (\<lambda>r. snd r < opened + pingPeriod * int n + pongWait) (offered wire)"
proof (induction deadline wire rule: next_reads.induct)
  case (1 deadline)
  have "opened + pingPeriod * int n + pongWait \<le> deadline"
    using answered_deadline [OF 1(4,3), of n] by simp
  then show ?case by simp
next
  case (2 deadline t m wire)
  let ?H = "opened + pingPeriod * int n + pongWait"
  show ?case
  proof (cases "deadline \<le> t")
    case True
    have late: "t \<le> t'" if "(t', m') \<in> set ((t, m) # wire)" for t' m'
      using that 2(3) by force
    have "?H \<le> deadline"
      using True late by (intro answered_deadline [OF 2(6,5), of n]) fastforce+
    moreover from this True late offered_time [of _ "(t, m) # wire"]
    have "filter (\<lambda>r. snd r < ?H) (offered ((t, m) # wire)) = []"
      by (fastforce simp: filter_empty_conv)
    ultimately show ?thesis using True by simp
  next
    case False
    note t = False
    show ?thesis
    proof (cases m)
      case Gone
      with t show ?thesis by simp
    next
      case (Message v)
      have "answered opened n deadline wire"
        using 2(6) t Message by (auto simp: answered_def)
      with 2(2) [OF t Message] 2(3-5) t Message show ?thesis by simp
    next
      case Pong
      have "answered opened n (t + pongWait) wire"
        using 2(4) [of t] 2(6) t Pong by (fastforce simp: answered_def)
      moreover have "opened \<le> t' \<and> t + pongWait \<le> t' + pongWait" if "t' \<in> fst ` set wire" for t'
        using that 2(3) 2(4) [of t'] by auto
      ultimately show ?thesis using 2(1) [OF t Pong] 2(3) 2(4) [of t] t Pong by simp
    qed
  qed
qed

lemma read_end_bound:
  assumes "opened \<le> T" "\<And>t. (t, Pong) \<in> set wire \<Longrightarrow> t \<le> T"
  shows "read_end opened wire \<le> T + pongWait"
  unfolding read_end_def reads_def
  by (rule next_reads_bound [OF _ assms(2) last_in_set]) (simp_all add: assms(1))

lemma ping_loop_until: "p \<in> set (ping_loop ok done ticks) \<Longrightarrow> p < done"
  by (induction ticks) (auto split: if_splits)

section \<open>Properties\<close>

text \<open>
  C33: a client that answers is not dropped: if the pings the goroutine sends are written and each is
  answered before the next is due, then within \<open>pongWait\<close> of the last ping the read loop gets
  every message the client sends, and ends only where the client ends the connection.
\<close>

theorem responsive_client_is_read:
  assumes "sorted (map fst wire)" and "fst ` set wire \<subseteq> {opened..}"
    and "list_all ok (ping_ticks opened n)"
    and "\<forall>p \<in> set (ping_loop ok (read_end opened wire) (ping_ticks opened n)).
           \<exists>t. (t, Pong) \<in> set wire \<and> p \<le> t \<and> t < p + (pongWait - pingPeriod)"
  shows "filter (\<lambda>r. snd r < opened + pingPeriod * int n + pongWait) (reads opened wire)
     = filter (\<lambda>r. snd r < opened + pingPeriod * int n + pongWait) (offered wire)"
proof -
  have "answered opened n (opened + pongWait) wire"
    unfolding answered_def
  proof (intro allI impI)
    fix k :: nat assume k: "1 \<le> k \<and> k \<le> n"
    let ?p = "opened + pingPeriod * int k"
    have "?p \<in> set (ping_loop ok (read_end opened wire) (ping_ticks opened n))" if "?p < read_end opened wire"
      using ping_loop_sent [OF assms(3) in_ping_ticks sorted_ping_ticks that] k by simp
    with assms(4) show "?p + pongWait \<le> opened + pongWait \<or> snd (last (next_reads (opened + pongWait) wire)) \<le> ?p
        \<or> (\<exists>t. (t, Pong) \<in> set wire \<and> ?p \<le> t \<and> t < ?p + (pongWait - pingPeriod))"
      unfolding read_end_def reads_def by fastforce
  qed
  then show ?thesis
    using answered_reads [OF assms(1), of opened "opened + pongWait" n] assms(2) by (force simp: reads_def)
qed

theorem responsive_client_is_read_witness:
  "filter (\<lambda>r. snd r < pingPeriod + pongWait) (reads 0 [(1, Message None), (seconds 31, Pong), (seconds 70, Message None)])
     = [(Some None, 1), (Some None, seconds 70)]"
  using responsive_client_is_read [of "[(1, Message None), (seconds 31, Pong), (seconds 70, Message None)]" 0 "\<lambda>_. True" 1]
  by (auto simp: ping_ticks_def heartbeat_defs read_end_def reads_def)

text \<open>
  C34: a silent client is dropped: the read loop always ends, with one error after the messages it has
  read, no later than \<open>pongWait\<close> after the last pong (or the opening), and the goroutine has stopped
  pinging by then.
\<close>

theorem silent_client_is_dropped:
  assumes "opened \<le> T" and "\<And>t. (t, Pong) \<in> set wire \<Longrightarrow> t \<le> T"
  shows "fst (last (reads opened wire)) = None
     \<and> list_all (\<lambda>r. fst r \<noteq> None) (butlast (reads opened wire))
     \<and> list_all (\<lambda>r. snd r \<le> T + pongWait) (reads opened wire)
     \<and> list_all (\<lambda>p. p < T + pongWait) (ping_loop ok (read_end opened wire) ticks)"
proof -
  have "p < T + pongWait" if "p \<in> set (ping_loop ok (read_end opened wire) ticks)" for p
    using ping_loop_until [OF that] read_end_bound [OF assms(1), of wire] assms(2) by simp
  moreover have "list_all (\<lambda>r. snd r \<le> T + pongWait) (reads opened wire)"
    unfolding list_all_iff reads_def by (intro ballI next_reads_bound [OF _ assms(2)]) (simp_all add: assms(1))
  moreover have "list_all (\<lambda>r. fst r \<noteq> None) (butlast (reads opened wire))"
    using next_reads_messages unfolding list_all_iff reads_def by blast
  ultimately show ?thesis by (simp add: reads_def next_reads_last list_all_iff)
qed

theorem silent_client_is_dropped_witness:
  "list_all (\<lambda>r. snd r \<le> seconds 91) (reads 0 [(seconds 31, Pong), (seconds 80, Message None), (seconds 95, Message None)])"
  using silent_client_is_dropped [of 0 "seconds 31" "[(seconds 31, Pong), (seconds 80, Message None), (seconds 95, Message None)]"]
  by (simp add: heartbeat_defs)

end
