(* ===== verification/Location.thy ===== *)
theory Location
  imports Geo_Index Kafka_Bus Websocket
begin

text \<open>
  \<^verbatim>\<open>internal/location\<close>: a rider's WebSocket session.  Each frame is checked, written to the geo
  index and published; the rider gets an acknowledgement or an error for it.  A frame is the JSON
  value read, or \<open>None\<close> when \<^verbatim>\<open>ReadJSON\<close> fails (the connection is closed or the text is not JSON),
  which ends the session; where the heartbeat ends it is modelled in \<open>Websocket\<close>.  Write deadlines are
  not modelled.
\<close>

section \<open>Events and messages\<close>

record RiderLocationUpdatedEvent =
  loc_RiderID :: uuid
  loc_Lat :: float64
  loc_Lng :: float64
  loc_Timestamp :: time

definition location_event_json :: "codec \<Rightarrow> RiderLocationUpdatedEvent \<Rightarrow> json" where
  "location_event_json C ev = JObj
     [(''rider_id'', json_uuid C (loc_RiderID ev)), (''lat'', JNum (loc_Lat ev)),
      (''lng'', JNum (loc_Lng ev)), (''timestamp'', json_time C (loc_Timestamp ev))]"

definition zero_location_event :: RiderLocationUpdatedEvent where
  "zero_location_event = \<lparr>loc_RiderID = uuid_Nil, loc_Lat = 0, loc_Lng = 0, loc_Timestamp = 0\<rparr>"

definition location_event_fields :: "codec \<Rightarrow> RiderLocationUpdatedEvent fields" where
  "location_event_fields C =
     [(''rider_id'', field (dec_uuid C) (\<lambda>v s. s\<lparr>loc_RiderID := v\<rparr>)),
      (''lat'', field dec_float (\<lambda>v s. s\<lparr>loc_Lat := v\<rparr>)),
      (''lng'', field dec_float (\<lambda>v s. s\<lparr>loc_Lng := v\<rparr>)),
      (''timestamp'', field (dec_time C) (\<lambda>v s. s\<lparr>loc_Timestamp := v\<rparr>))]"

record IncomingMessage =
  in_Type :: string
  in_Payload :: "(string \<times> json) list"

fun dec_object :: "json \<Rightarrow> error + (string \<times> json) list" where
  "dec_object (JObj kvs) = Inr kvs"
| "dec_object _ = Inl unmarshal_type_error"

definition incoming_fields :: "IncomingMessage fields" where
  "incoming_fields =
     [(''type'', field dec_string (\<lambda>v s. s\<lparr>in_Type := v\<rparr>)),
      (''payload'', (\<lambda>v s. if v = JNull then Inr (s\<lparr>in_Payload := []\<rparr>)
         else case dec_object v of Inl e \<Rightarrow> Inl e | Inr kvs \<Rightarrow> Inr (s\<lparr>in_Payload := in_Payload s @ kvs\<rparr>)))]"

text \<open>A decoded map holds the last value given for a key; a missing key reads as \<^verbatim>\<open>nil\<close>.  Numbers
  decoded into \<^verbatim>\<open>any\<close> are \<^verbatim>\<open>float64\<close>, the only numeric case of \<^verbatim>\<open>asFloat\<close> that occurs.\<close>

definition payload_get :: "(string \<times> json) list \<Rightarrow> string \<Rightarrow> json" where
  "payload_get kvs k = (case map_of (rev kvs) k of None \<Rightarrow> JNull | Some v \<Rightarrow> v)"

fun asFloat :: "json \<Rightarrow> float64 option" where
  "asFloat (JNum x) = Some x"
| "asFloat _ = None"

section \<open>Service\<close>

definition UpdateLocation ::
  "codec \<Rightarrow> 'g geo_client \<Rightarrow> 'k writer \<Rightarrow> time \<Rightarrow> carrier \<Rightarrow> uuid \<Rightarrow> float64 \<Rightarrow> float64 \<Rightarrow> time
     \<Rightarrow> 'g \<times> 'k \<Rightarrow> error option \<times> 'g \<times> 'k" where
  "UpdateLocation C G wr now tc riderID lat lng ts = (\<lambda>(g, k).
     (case GeoAdd G RidersGeoKey (uuid_String C riderID) lat lng g of
        (Some err, g') \<Rightarrow> (Some err, g', k)
      | (None, g') \<Rightarrow>
          (case Publish wr now tc TopicRiderLocationUpdate (uuid_String C riderID)
                  (Inr (location_event_json C \<lparr>loc_RiderID = riderID, loc_Lat = lat, loc_Lng = lng, loc_Timestamp = ts\<rparr>)) k of
             (r, k') \<Rightarrow> (r, g', k'))))"

section \<open>The WebSocket session\<close>

definition ws_ack :: json where
  "ws_ack = json_strings [(''type'', ''ack'')]"

definition writeWSError :: "string \<Rightarrow> json" where
  "writeWSError msg = JObj [(''payload'', json_strings [(''message'', msg)]), (''type'', JStr ''error'')]"

definition frame_timestamp :: "codec \<Rightarrow> time \<Rightarrow> (string \<times> json) list \<Rightarrow> time" where
  "frame_timestamp C now payload =
     (case payload_get payload ''timestamp'' of
        JStr raw \<Rightarrow> (case time_Parse C raw of Some parsed \<Rightarrow> parsed | None \<Rightarrow> now)
      | _ \<Rightarrow> now)"

definition location_frame ::
  "codec \<Rightarrow> 'g geo_client \<Rightarrow> 'k writer \<Rightarrow> time \<Rightarrow> carrier \<Rightarrow> uuid \<Rightarrow> IncomingMessage \<Rightarrow> 'g \<times> 'k \<Rightarrow> json \<times> 'g \<times> 'k" where
  "location_frame C G wr now tc riderID msg s =
     (if in_Type msg \<noteq> ''location_update'' then (writeWSError ''unknown message type'', s)
      else case (asFloat (payload_get (in_Payload msg) ''lat''), asFloat (payload_get (in_Payload msg) ''lng'')) of
          (Some lat, Some lng) \<Rightarrow>
            (case UpdateLocation C G wr now tc riderID lat lng (frame_timestamp C now (in_Payload msg)) s of
               (Some err, s') \<Rightarrow> (writeWSError ''update failed'', s')
             | (None, s') \<Rightarrow> (ws_ack, s'))
        | _ \<Rightarrow> (writeWSError ''lat/lng required'', s))"

fun location_session ::
  "codec \<Rightarrow> 'g geo_client \<Rightarrow> 'k writer \<Rightarrow> carrier \<Rightarrow> uuid \<Rightarrow> (json option \<times> time) list \<Rightarrow> 'g \<times> 'k
     \<Rightarrow> json list \<times> 'g \<times> 'k" where
  "location_session C G wr tc riderID [] s = ([], s)"
| "location_session C G wr tc riderID ((frame, now) # frames) s =
     (case frame of
        None \<Rightarrow> ([], s)
      | Some v \<Rightarrow>
          (case json_unmarshal incoming_fields v \<lparr>in_Type = '''', in_Payload = []\<rparr> of
             Inl _ \<Rightarrow> ([], s)
           | Inr msg \<Rightarrow>
               (case location_frame C G wr now tc riderID msg s of
                  (reply, s') \<Rightarrow>
                    (case location_session C G wr tc riderID frames s' of
                       (replies, s'') \<Rightarrow> (reply # replies, s'')))))"

text \<open>
  \<open>handle_rider\<close> opens the connection at \<open>opened\<close> and works on what \<^verbatim>\<open>ReadJSON\<close> makes of the reads; the
  heartbeat of \<open>Websocket\<close> decides where they end.
\<close>

definition json_frames :: "(json option option \<times> time) list \<Rightarrow> (json option \<times> time) list" where
  "json_frames = map (\<lambda>(r, t). (case r of None \<Rightarrow> None | Some v \<Rightarrow> v, t))"

definition handle_rider ::
  "codec \<Rightarrow> 'g geo_client \<Rightarrow> 'k writer \<Rightarrow> carrier \<Rightarrow> string \<Rightarrow> bool \<Rightarrow> time \<Rightarrow> wire \<Rightarrow> 'g \<times> 'k
     \<Rightarrow> ws_result \<times> 'g \<times> 'k" where
  "handle_rider C G wr tc idParam upgraded opened wire s =
     (case uuid_Parse C idParam of
        None \<Rightarrow> (HttpError 400 ''invalid rider_id'', s)
      | Some riderID \<Rightarrow>
          if \<not> upgraded then (UpgradeFailed, s)
          else (case location_session C G wr tc riderID (json_frames (reads opened wire)) s of
              (replies, s') \<Rightarrow> (Session replies, s')))"

section \<open>Lemmas\<close>

text \<open>The updates a session has acknowledged, in order, as the events they stand for.\<close>

fun acknowledged :: "codec \<Rightarrow> uuid \<Rightarrow> (json option \<times> time) list \<Rightarrow> json list \<Rightarrow> event list" where
  "acknowledged C riderID ((Some v, now) # frames) (reply # replies) =
     (case json_unmarshal incoming_fields v \<lparr>in_Type = '''', in_Payload = []\<rparr> of
        Inr msg \<Rightarrow>
          (case (asFloat (payload_get (in_Payload msg) ''lat''), asFloat (payload_get (in_Payload msg) ''lng'')) of
             (Some lat, Some lng) \<Rightarrow>
               (if reply = ws_ack then
                  [(TopicRiderLocationUpdate, uuid_String C riderID, location_event_json C
                     \<lparr>loc_RiderID = riderID, loc_Lat = lat, loc_Lng = lng,
                      loc_Timestamp = frame_timestamp C now (in_Payload msg)\<rparr>)] else [])
           | _ \<Rightarrow> [])
      | Inl _ \<Rightarrow> []) @ acknowledged C riderID frames replies"
| "acknowledged C riderID _ _ = []"

lemma ws_ack_not_error: "writeWSError msg \<noteq> ws_ack"
  by (simp add: writeWSError_def ws_ack_def json_strings_def)

context kafka_writer
begin

lemma UpdateLocation_effect:
  assumes "UpdateLocation C G wr now tc rid lat lng ts (g, k) = (r, g', k')"
  defines "ev \<equiv> (TopicRiderLocationUpdate, uuid_String C rid, location_event_json C
      \<lparr>loc_RiderID = rid, loc_Lat = lat, loc_Lng = lng, loc_Timestamp = ts\<rparr>)"
  shows "map event_of (written k') = map event_of (written k) @ (if r = None then [ev] else [])
     \<or> r \<noteq> None \<and> map event_of (written k') = map event_of (written k) @ [ev]"
proof -
  let ?pub = "PublishRaw wr now tc TopicRiderLocationUpdate (uuid_String C rid) (snd (snd ev)) k"
  obtain v g1 where ga: "GeoAdd G RidersGeoKey (uuid_String C rid) lat lng g = (v, g1)" by fastforce
  show ?thesis
  proof (cases v)
    case (Some err)
    with ga assms(1) show ?thesis by (auto simp: UpdateLocation_def)
  next
    case None
    with ga assms have p: "?pub = (r, k')"
      by (auto simp: UpdateLocation_def Publish_def ev_def split: prod.splits)
    show ?thesis
    proof (cases r)
      case None
      with producer.publish_ok [OF p [unfolded None]] show ?thesis by (simp add: ev_def)
    next
      case (Some err)
      with producer.publish_err [OF p [unfolded Some]] show ?thesis by (auto simp: ev_def)
    qed
  qed
qed

lemma frame_grows:
  assumes "location_frame C G wr now tc rid msg (g, k) = (reply, g', k')"
  shows "\<exists>L. map event_of (written k') = map event_of (written k) @ L"
proof (cases "k' = k")
  case False
  with assms obtain lat lng where "\<exists>r. UpdateLocation C G wr now tc rid lat lng
      (frame_timestamp C now (in_Payload msg)) (g, k) = (r, g', k')"
    by (auto simp: location_frame_def split: if_splits option.splits prod.splits)
  then obtain r where "UpdateLocation C G wr now tc rid lat lng (frame_timestamp C now (in_Payload msg)) (g, k) = (r, g', k')" ..
  from UpdateLocation_effect [OF this] show ?thesis by auto
qed simp

lemma session_acknowledged:
  "location_session C G wr tc rid frames (g, k) = (replies, g', k') \<Longrightarrow>
     \<exists>L. map event_of (written k') = map event_of (written k) @ L \<and> subseq (acknowledged C rid frames replies) L"
proof (induction frames arbitrary: g k replies)
  case (Cons fr frames)
  obtain frame now where fr: "fr = (frame, now)" by (cases fr)
  show ?case
  proof (cases "\<exists>v msg. frame = Some v \<and> json_unmarshal incoming_fields v \<lparr>in_Type = '''', in_Payload = []\<rparr> = Inr msg")
    case False
    with Cons.prems fr have "replies = [] \<and> k' = k" by (auto split: option.splits sum.splits)
    then show ?thesis by auto
  next
    case True
    then obtain v msg where v: "frame = Some v"
        "json_unmarshal incoming_fields v \<lparr>in_Type = '''', in_Payload = []\<rparr> = Inr msg" by blast
    obtain reply g1 k1 where f: "location_frame C G wr now tc rid msg (g, k) = (reply, g1, k1)"
      by (metis prod_cases3)
    obtain rest where s: "location_session C G wr tc rid frames (g1, k1) = (rest, g', k')" "replies = reply # rest"
      using Cons.prems fr v f by (auto split: prod.splits)
    from Cons.IH [OF s(1)] obtain L where
      L: "map event_of (written k') = map event_of (written k1) @ L" "subseq (acknowledged C rid frames rest) L" by blast
    have "\<exists>L1. map event_of (written k1) = map event_of (written k) @ L1
        \<and> subseq (acknowledged C rid [(frame, now)] [reply]) L1"
    proof (cases "reply = ws_ack")
      case False
      with v frame_grows [OF f] show ?thesis by (auto split: option.splits)
    next
      case True
      then obtain lat lng where ll: "asFloat (payload_get (in_Payload msg) ''lat'') = Some lat"
          "asFloat (payload_get (in_Payload msg) ''lng'') = Some lng"
        and u: "UpdateLocation C G wr now tc rid lat lng (frame_timestamp C now (in_Payload msg)) (g, k) = (None, g1, k1)"
        using f ws_ack_not_error
        by (auto simp: location_frame_def split: if_splits option.splits prod.splits)
      from UpdateLocation_effect [OF u] ll v True show ?thesis by auto
    qed
    then obtain L1 where L1: "map event_of (written k1) = map event_of (written k) @ L1"
        "subseq (acknowledged C rid [(frame, now)] [reply]) L1" by blast
    have "acknowledged C rid (fr # frames) replies
        = acknowledged C rid [(frame, now)] [reply] @ acknowledged C rid frames rest"
      using fr v s(2) by simp
    with L L1 show ?thesis by (auto intro!: exI [of _ "L1 @ L"] list_emb_append_mono)
  qed
qed simp

end


definition readable_frame :: "json option \<times> time \<Rightarrow> bool" where
  "readable_frame fr \<longleftrightarrow> (case fst fr of None \<Rightarrow> False
     | Some v \<Rightarrow> (case json_unmarshal incoming_fields v \<lparr>in_Type = '''', in_Payload = []\<rparr> of Inl _ \<Rightarrow> False | Inr _ \<Rightarrow> True))"

lemma session_one_reply_per_frame:
  "location_session C G wr tc rid frames s = (replies, s') \<Longrightarrow> length replies = length (takeWhile readable_frame frames)"
proof (induction frames arbitrary: s replies)
  case (Cons fr frames)
  obtain frame now where fr: "fr = (frame, now)" by (cases fr)
  show ?case
  proof (cases "readable_frame fr")
    case False
    with Cons.prems fr show ?thesis
      by (auto simp: readable_frame_def split: option.splits sum.splits)
  next
    case True
    then obtain v msg where v: "frame = Some v"
        "json_unmarshal incoming_fields v \<lparr>in_Type = '''', in_Payload = []\<rparr> = Inr msg"
      by (auto simp: readable_frame_def fr split: option.splits sum.splits)
    obtain reply s1 where f: "location_frame C G wr now tc rid msg s = (reply, s1)" by (metis surj_pair)
    obtain rest where "location_session C G wr tc rid frames s1 = (rest, s')" "replies = reply # rest"
      using Cons.prems fr v f by (auto split: prod.splits)
    with Cons.IH True show ?thesis by simp
  qed
qed simp

section \<open>Examples and remarks\<close>

definition example_frame :: json where
  "example_frame = JObj [(''type'', JStr ''location_update''), (''payload'', JObj [(''lat'', JNum 28), (''lng'', JNum 77)])]"

text \<open>
  Nothing keeps the two writers of a connection apart: a frame may be read, and so answered by the read
  loop, at the very instant at which the other goroutine writes a ping, although a connection of the
  library takes one writer at a time.
\<close>

lemma reply_may_meet_ping:
  "seconds 30 \<in> set (ping_loop (\<lambda>_. True) (read_end 0 [(seconds 30, Message (Some example_frame))]) (ping_ticks 0 1))
     \<and> (Some example_frame, seconds 30) \<in> set (json_frames (reads 0 [(seconds 30, Message (Some example_frame))]))"
  by (simp add: heartbeat_defs reads_def read_end_def ping_ticks_def json_frames_def)

text \<open>
  A successful location update puts the rider into the geo index, whatever the rider's status in
  the database is, and changes no other member: a rider who was removed when an order was
  assigned is found again after the next update.
\<close>

lemma location_update_indexes_rider:
  assumes "geo_index G members distance_km"
    and "UpdateLocation C G wr now tc rid lat lng ts (g, k) = (None, g', k')"
  shows "members g' = (members g)(RidersGeoKey := insert (uuid_String C rid) (members g RidersGeoKey))"
proof -
  from assms(2) have "GeoAdd G RidersGeoKey (uuid_String C rid) lat lng g = (None, g')"
    by (auto simp: UpdateLocation_def split: prod.splits option.splits)
  then show ?thesis by (rule geo_index.add_ok [OF assms(1)])
qed



section \<open>Properties\<close>

text \<open>
  C27: a rider's session answers every readable frame with exactly one reply and ends at the first
  unreadable one, and what it acknowledges is published: the events of the acknowledged frames, keyed
  by the rider, appear among the session's messages in the order of the frames.
\<close>

theorem acknowledged_updates_are_published:
  assumes "kafka_writer wr written" and "location_session C G wr tc rid frames (g, k) = (replies, g', k')"
  shows "length replies = length (takeWhile readable_frame frames)
     \<and> (\<exists>L. map event_of (written k') = map event_of (written k) @ L \<and> subseq (acknowledged C rid frames replies) L)"
  using session_one_reply_per_frame [OF assms(2)] kafka_writer.session_acknowledged [OF assms] by blast

theorem acknowledged_updates_are_published_witness:
  "length (fst (location_session canonical_codec (list_geo (\<lambda>a b c d. 0)) broker_write [] 3
       [(Some example_frame, 1), (Some (JObj []), 2), (None, 3), (Some example_frame, 4)]
       ([], \<lparr>b_log = [], b_script = []\<rparr>))) = 2"
proof -
  let ?fs = "[(Some example_frame, 1), (Some (JObj []), 2), (None, 3), (Some example_frame, 4)]"
  let ?s = "([], \<lparr>b_log = [], b_script = []\<rparr>)"
  obtain replies g' k' where s: "location_session canonical_codec (list_geo (\<lambda>a b c d. 0)) broker_write [] 3 ?fs ?s
      = (replies, g', k')" by (metis prod_cases3)
  have "takeWhile readable_frame ?fs = take 2 ?fs"
    by (simp add: readable_frame_def example_frame_def incoming_fields_def decode_simps)
  with acknowledged_updates_are_published [OF broker.kafka_writer_axioms s] s show ?thesis by simp
qed

end
