(* ===== verification/Eta.thy ===== *)
theory Eta
  imports Location Order_Service
begin

text \<open>
  \<^verbatim>\<open>pkg/geo\<close> and \<^verbatim>\<open>internal/eta\<close>: the haversine distance, the estimate in whole minutes, and the
  consumer that recomputes a rider's active order's estimate at every location update.  The
  formulas are read over the real numbers: floating-point rounding is not modelled, and the
  argument of \<^verbatim>\<open>math.Sqrt\<close> is shown to be in range for latitudes in [-90, 90].
\<close>

section \<open>Distance\<close>

definition earthRadiusKm :: float64 where
  "earthRadiusKm = 6371"

definition rad :: "float64 \<Rightarrow> float64" where
  "rad deg = deg * pi / 180"

text \<open>\<^verbatim>\<open>math.Atan2\<close>, without signed zeros.\<close>

definition math_Atan2 :: "float64 \<Rightarrow> float64 \<Rightarrow> float64" where
  "math_Atan2 y x =
     (if x > 0 then arctan (y / x)
      else if x < 0 then (if y \<ge> 0 then arctan (y / x) + pi else arctan (y / x) - pi)
      else if y > 0 then pi / 2 else if y < 0 then - (pi / 2) else 0)"

definition haversine_a :: "float64 \<Rightarrow> float64 \<Rightarrow> float64 \<Rightarrow> float64 \<Rightarrow> float64" where
  "haversine_a lat1 lng1 lat2 lng2 =
     (let dLat = rad (lat2 - lat1); dLng = rad (lng2 - lng1)
      in sin (dLat / 2) * sin (dLat / 2) + cos (rad lat1) * cos (rad lat2) * sin (dLng / 2) * sin (dLng / 2))"

definition HaversineKm :: "float64 \<Rightarrow> float64 \<Rightarrow> float64 \<Rightarrow> float64 \<Rightarrow> float64" where
  "HaversineKm lat1 lng1 lat2 lng2 =
     (let a = haversine_a lat1 lng1 lat2 lng2; c = 2 * math_Atan2 (sqrt a) (sqrt (1 - a))
      in earthRadiusKm * c)"

section \<open>Estimate\<close>

definition AvgRiderSpeedKmh :: float64 where
  "AvgRiderSpeedKmh = 25"

definition Compute :: "float64 \<Rightarrow> float64 \<Rightarrow> float64 \<Rightarrow> float64 \<Rightarrow> int" where
  "Compute fromLat fromLng toLat toLng =
     (let km = HaversineKm fromLat fromLng toLat toLng;
          hours = km / AvgRiderSpeedKmh;
          mins = hours * 60
      in if mins < 1 then 1 else \<lceil>mins\<rceil>)"

section \<open>Events and the service\<close>

record ETAUpdatedEvent =
  eta_OrderID :: uuid
  eta_RiderID :: uuid
  eta_Minutes :: int
  eta_ComputedAt :: time

definition eta_event_json :: "codec \<Rightarrow> ETAUpdatedEvent \<Rightarrow> json" where
  "eta_event_json C ev = JObj
     [(''order_id'', json_uuid C (eta_OrderID ev)), (''rider_id'', json_uuid C (eta_RiderID ev)),
      (''eta_minutes'', json_int (eta_Minutes ev)), (''computed_at'', json_time C (eta_ComputedAt ev))]"

definition zero_eta_event :: ETAUpdatedEvent where
  "zero_eta_event = \<lparr>eta_OrderID = uuid_Nil, eta_RiderID = uuid_Nil, eta_Minutes = 0, eta_ComputedAt = 0\<rparr>"

definition eta_event_fields :: "codec \<Rightarrow> ETAUpdatedEvent fields" where
  "eta_event_fields C =
     [(''order_id'', field (dec_uuid C) (\<lambda>v s. s\<lparr>eta_OrderID := v\<rparr>)),
      (''rider_id'', field (dec_uuid C) (\<lambda>v s. s\<lparr>eta_RiderID := v\<rparr>)),
      (''eta_minutes'', field dec_int (\<lambda>v s. s\<lparr>eta_Minutes := v\<rparr>)),
      (''computed_at'', field (dec_time C) (\<lambda>v s. s\<lparr>eta_ComputedAt := v\<rparr>))]"

record activeOrder =
  ao_OrderID :: uuid
  ao_Status :: string
  ao_PickupLat :: float64
  ao_PickupLng :: float64
  ao_DropoffLat :: float64
  ao_DropoffLng :: float64

definition activeOrderForRider :: "pg_env \<Rightarrow> uuid \<Rightarrow> db \<Rightarrow> error + activeOrder" where
  "activeOrderForRider e rid d =
     (if \<not> stmt_ok e 0 then Inl pg_stmt_error
      else case latest_active_order rid d of
          None \<Rightarrow> Inl PgErrNoRows
        | Some x \<Rightarrow> Inr \<lparr>ao_OrderID = order_ID x, ao_Status = order_Status x,
            ao_PickupLat = order_PickupLat x, ao_PickupLng = order_PickupLng x,
            ao_DropoffLat = order_DropoffLat x, ao_DropoffLng = order_DropoffLng x\<rparr>)"

definition update_eta :: "pg_env \<Rightarrow> int \<Rightarrow> uuid \<Rightarrow> db \<Rightarrow> error + unit \<times> db" where
  "update_eta e mins i d =
     (if mins < - (2 ^ 31) \<or> mins \<ge> 2 ^ 31 then Inl (ErrorString ''integer out of range'')
      else Inr ((), d\<lparr>orders := sql_update (\<lambda>x. order_ID x = i)
             (\<lambda>x. x\<lparr>order_ETAMinutes := Some mins, order_UpdatedAt := pg_now e\<rparr>) (orders d)\<rparr>))"

definition eta_target :: "activeOrder \<Rightarrow> float64 \<times> float64" where
  "eta_target ao =
     (if ao_Status ao = ''PICKED_UP'' then (ao_DropoffLat ao, ao_DropoffLng ao)
      else (ao_PickupLat ao, ao_PickupLng ao))"

definition OnLocation ::
  "codec \<Rightarrow> 'k writer \<Rightarrow> call_env \<Rightarrow> RiderLocationUpdatedEvent \<Rightarrow> db \<times> 'k \<Rightarrow> error option \<times> db \<times> 'k" where
  "OnLocation C wr v evt = (\<lambda>(d, k).
     (case activeOrderForRider (env_read v) (loc_RiderID evt) d of
        Inl err \<Rightarrow> (if errors_Is err PgErrNoRows then None else Some err, d, k)
      | Inr ao \<Rightarrow>
          (let (targetLat, targetLng) = eta_target ao;
               mins = Compute (loc_Lat evt) (loc_Lng evt) targetLat targetLng
           in case autocommit (env_write v) (update_eta (env_write v) mins (ao_OrderID ao)) d of
                (Inl err, d') \<Rightarrow> (Some err, d', k)
              | (Inr _, d') \<Rightarrow>
                  (case Publish wr (env_now v) (env_trace v) TopicETAUpdated (uuid_String C (ao_OrderID ao))
                          (Inr (eta_event_json C \<lparr>eta_OrderID = ao_OrderID ao, eta_RiderID = loc_RiderID evt,
                             eta_Minutes = mins, eta_ComputedAt = env_now v\<rparr>)) k of
                     (r, k') \<Rightarrow> (r, d', k')))))"

definition eta_Handler :: "codec \<Rightarrow> 'k writer \<Rightarrow> call_env \<Rightarrow> (db \<times> 'k) handler" where
  "eta_Handler C wr v msg s =
     (case json_unmarshal (location_event_fields C) (msg_Value msg) zero_location_event of
        Inl _ \<Rightarrow> (None, s)
      | Inr evt \<Rightarrow> OnLocation C wr v evt s)"

section \<open>Lemmas on the distance\<close>

lemma haversine_a_range:
  assumes "\<bar>lat1\<bar> \<le> 90" "\<bar>lat2\<bar> \<le> 90"
  shows "0 \<le> haversine_a lat1 lng1 lat2 lng2 \<and> haversine_a lat1 lng1 lat2 lng2 \<le> 1"
proof -
  let ?p = "rad lat1" and ?q = "rad lat2" and ?s = "sin (rad (lng2 - lng1) / 2)"
  have rad_bound: "\<bar>rad x\<bar> \<le> pi / 2" if "\<bar>x\<bar> \<le> 90" for x
    using that by (simp add: rad_def abs_mult field_simps)
  have cp: "0 \<le> cos ?p" and cq: "0 \<le> cos ?q"
    using rad_bound [OF assms(1)] rad_bound [OF assms(2)] by (auto intro!: cos_ge_zero simp: abs_le_iff)
  have diff: "rad (lat2 - lat1) = ?q - ?p" by (simp add: rad_def field_simps)
  have a: "haversine_a lat1 lng1 lat2 lng2 = (sin ((?q - ?p) / 2))\<^sup>2 + cos ?p * cos ?q * ?s\<^sup>2"
    by (simp add: haversine_a_def Let_def diff power2_eq_square mult.assoc)
  have half: "2 * ((?q - ?p) / 2) = ?q - ?p" by simp
  have "(sin ((?q - ?p) / 2))\<^sup>2 = (1 - cos (?q - ?p)) / 2"
    using cos_double_sin [of "(?q - ?p) / 2"] unfolding half by simp
  moreover have "cos ?p * cos ?q = (cos (?q - ?p) + cos (?q + ?p)) / 2"
    using cos_times_cos [of ?q ?p] by (simp add: mult.commute)
  ultimately have "(sin ((?q - ?p) / 2))\<^sup>2 + cos ?p * cos ?q = (1 + cos (?q + ?p)) / 2"
    by (simp add: field_simps)
  also have "\<dots> \<le> 1" using cos_le_one [of "?q + ?p"] by simp
  finally have top: "(sin ((?q - ?p) / 2))\<^sup>2 + cos ?p * cos ?q \<le> 1" .
  have "?s\<^sup>2 \<le> 1" using abs_square_le_1 abs_sin_le_one by blast
  then have "cos ?p * cos ?q * ?s\<^sup>2 \<le> cos ?p * cos ?q"
    using cp cq by (simp add: mult_left_le)
  with top have "haversine_a lat1 lng1 lat2 lng2 \<le> 1" unfolding a by linarith
  moreover have "0 \<le> haversine_a lat1 lng1 lat2 lng2" unfolding a using cp cq by simp
  ultimately show ?thesis by simp
qed

lemma math_Atan2_quadrant: "0 \<le> y \<Longrightarrow> 0 \<le> x \<Longrightarrow> 0 \<le> math_Atan2 y x \<and> math_Atan2 y x \<le> pi / 2"
  using arctan_ubound [of "y / x"] by (auto simp: math_Atan2_def zero_le_arctan_iff)

lemma haversine_a_sym: "haversine_a lat1 lng1 lat2 lng2 = haversine_a lat2 lng2 lat1 lng1"
proof -
  have neg: "sin (rad (y - x) / 2) = - sin (rad (x - y) / 2)" for x y
  proof -
    have "rad (y - x) / 2 = - (rad (x - y) / 2)" by (simp add: rad_def field_simps)
    then show ?thesis by (simp only: sin_minus)
  qed
  show ?thesis by (simp add: haversine_a_def Let_def neg [of lat2 lat1] neg [of lng2 lng1] mult.commute)
qed


lemma HaversineKm_range:
  assumes "\<bar>lat1\<bar> \<le> 90" "\<bar>lat2\<bar> \<le> 90"
  shows "0 \<le> HaversineKm lat1 lng1 lat2 lng2 \<and> HaversineKm lat1 lng1 lat2 lng2 \<le> earthRadiusKm * pi"
proof -
  let ?a = "haversine_a lat1 lng1 lat2 lng2"
  have "0 \<le> math_Atan2 (sqrt ?a) (sqrt (1 - ?a)) \<and> math_Atan2 (sqrt ?a) (sqrt (1 - ?a)) \<le> pi / 2"
    using haversine_a_range [OF assms, of lng1 lng2] by (intro math_Atan2_quadrant) auto
  then show ?thesis by (simp add: HaversineKm_def Let_def earthRadiusKm_def)
qed

lemma Compute_max:
  "Compute a b c d = max 1 \<lceil>HaversineKm a b c d * 60 / AvgRiderSpeedKmh\<rceil>"
proof -
  let ?m = "HaversineKm a b c d / AvgRiderSpeedKmh * 60"
  have "?m = HaversineKm a b c d * 60 / AvgRiderSpeedKmh" by simp
  moreover have "?m < 1 \<Longrightarrow> \<lceil>?m\<rceil> \<le> 1" by linarith
  moreover have "\<not> ?m < 1 \<Longrightarrow> 1 \<le> \<lceil>?m\<rceil>" by linarith
  ultimately show ?thesis by (auto simp: Compute_def Let_def)
qed

lemma Compute_range:
  assumes "\<bar>a\<bar> \<le> 90" "\<bar>c\<bar> \<le> 90"
  shows "1 \<le> Compute a b c d \<and> Compute a b c d \<le> 61162"
proof -
  have "HaversineKm a b c d \<le> 6371 * 4"
    using HaversineKm_range [OF assms, of b d] pi_less_4 by (simp add: earthRadiusKm_def)
  then have "HaversineKm a b c d * 60 / AvgRiderSpeedKmh \<le> 61162"
    by (simp add: AvgRiderSpeedKmh_def)
  then have "\<lceil>HaversineKm a b c d * 60 / AvgRiderSpeedKmh\<rceil> \<le> 61162" by linarith
  then show ?thesis by (simp add: Compute_max)
qed

section \<open>Lemmas on the service\<close>

definition eta_written :: "uuid \<Rightarrow> int \<Rightarrow> db \<Rightarrow> db \<Rightarrow> bool" where
  "eta_written i mins d d' \<longleftrightarrow> (\<exists>t. d' = d\<lparr>orders := sql_update (\<lambda>x. order_ID x = i)
      (\<lambda>x. x\<lparr>order_ETAMinutes := Some mins, order_UpdatedAt := t\<rparr>) (orders d)\<rparr>)"

lemma update_eta_Inr: "update_eta e mins i d = Inr (u, d') \<Longrightarrow> eta_written i mins d d'"
  by (auto simp: update_eta_def eta_written_def split: if_splits)

lemma eta_written_wf: "eta_written i mins d d' \<Longrightarrow> wf_db d \<Longrightarrow> wf_db d'"
  by (auto simp: eta_written_def wf_db_def rider_exists_def list_all_iff in_set_sql_update map_sql_update_id)

lemma eta_written_order:
  "eta_written i mins d d' \<Longrightarrow> \<exists>t. \<forall>j. order_by_id j d' =
     (if j = i then map_option (\<lambda>x. x\<lparr>order_ETAMinutes := Some mins, order_UpdatedAt := t\<rparr>) (order_by_id i d)
      else order_by_id j d)"
  by (auto simp: eta_written_def order_by_id_update)

text \<open>The outcomes of \<open>OnLocation\<close> for a rider with an active order.\<close>

lemma OnLocation_idle:
  "latest_active_order (loc_RiderID evt) d = None \<Longrightarrow> stmt_ok (env_read v) 0 \<Longrightarrow> OnLocation C wr v evt (d, k) = (None, d, k)"
  by (simp add: OnLocation_def activeOrderForRider_def)

lemma OnLocation_cases:
  assumes "OnLocation C wr v evt (d, k) = (r, d', k')"
  obtains (kept) "d' = d" "k' = k"
  | (wrote) ao mins where "activeOrderForRider (env_read v) (loc_RiderID evt) d = Inr ao"
      "mins = Compute (loc_Lat evt) (loc_Lng evt) (fst (eta_target ao)) (snd (eta_target ao))"
      "eta_written (ao_OrderID ao) mins d d'"
      "r \<noteq> None \<and> k' = k \<or> PublishRaw wr (env_now v) (env_trace v) TopicETAUpdated (uuid_String C (ao_OrderID ao))
         (eta_event_json C \<lparr>eta_OrderID = ao_OrderID ao, eta_RiderID = loc_RiderID evt,
            eta_Minutes = mins, eta_ComputedAt = env_now v\<rparr>) k = (r, k')"
proof (cases "activeOrderForRider (env_read v) (loc_RiderID evt) d")
  case (Inl err)
  with assms kept show thesis by (auto simp: OnLocation_def)
next
  case (Inr ao)
  define mins where "mins = Compute (loc_Lat evt) (loc_Lng evt) (fst (eta_target ao)) (snd (eta_target ao))"
  obtain w d1 where ac: "autocommit (env_write v) (update_eta (env_write v) mins (ao_OrderID ao)) d = (w, d1)"
    by fastforce
  let ?pub = "PublishRaw wr (env_now v) (env_trace v) TopicETAUpdated (uuid_String C (ao_OrderID ao))
         (eta_event_json C \<lparr>eta_OrderID = ao_OrderID ao, eta_RiderID = loc_RiderID evt,
            eta_Minutes = mins, eta_ComputedAt = env_now v\<rparr>) k"
  have eq: "(case w of Inl err \<Rightarrow> (Some err, d1, k) | Inr _ \<Rightarrow> (case ?pub of (r, k') \<Rightarrow> (r, d1, k'))) = (r, d', k')"
    using assms Inr ac
    by (cases "eta_target ao"; cases w) (simp_all add: OnLocation_def Let_def mins_def Publish_def)
  from ac show thesis
  proof (cases rule: autocommit_cases)
    case kept
    show thesis
    proof (cases w)
      case (Inl err)
      with eq kept that(1) show thesis by auto
    next
      case (Inr u)
      with ac have "update_eta (env_write v) mins (ao_OrderID ao) d = Inr (u, d1)" by (auto dest: autocommit_Inr)
      with eq Inr wrote [OF \<open>activeOrderForRider _ _ _ = Inr ao\<close> mins_def] show thesis
        by (auto dest: update_eta_Inr split: prod.splits)
    qed
  next
    case (applied u)
    with eq wrote [OF Inr mins_def] show thesis
      by (auto dest: update_eta_Inr split: prod.splits sum.splits)
  qed
qed

lemma eta_Handler_wf:
  "wf_db (fst s) \<Longrightarrow> wf_db (fst (snd (eta_Handler C wr v msg s)))"
proof (cases "json_unmarshal (location_event_fields C) (msg_Value msg) zero_location_event")
  case (Inr evt)
  assume wf: "wf_db (fst s)"
  obtain d k where s: "s = (d, k)" by (cases s)
  obtain r d' k' where o: "OnLocation C wr v evt (d, k) = (r, d', k')" by (metis prod_cases3)
  then have "wf_db d'" using wf by (cases rule: OnLocation_cases) (auto simp: s intro: eta_written_wf)
  with Inr o show ?thesis by (simp add: eta_Handler_def s)
qed (simp add: eta_Handler_def)

interpretation eta_consumer: message_handler "eta_Handler C wr v" "\<lambda>s. wf_db (fst s)" for C wr v
  by unfold_locales (rule eta_Handler_wf)


section \<open>Examples and remarks\<close>

text \<open>
  The haversine distance of two points with latitudes in [-90, 90] is well defined (the value
  whose square roots are taken lies in [0, 1]), between 0 and half the circumference of the earth,
  symmetric, and 0 for equal points.
\<close>

lemma haversine_distance:
  assumes "\<bar>lat1\<bar> \<le> 90" and "\<bar>lat2\<bar> \<le> 90"
  shows "0 \<le> haversine_a lat1 lng1 lat2 lng2 \<and> haversine_a lat1 lng1 lat2 lng2 \<le> 1
     \<and> 0 \<le> HaversineKm lat1 lng1 lat2 lng2 \<and> HaversineKm lat1 lng1 lat2 lng2 \<le> earthRadiusKm * pi
     \<and> HaversineKm lat1 lng1 lat2 lng2 = HaversineKm lat2 lng2 lat1 lng1
     \<and> HaversineKm lat1 lng1 lat1 lng1 = 0"
proof -
  have "haversine_a lat1 lng1 lat1 lng1 = 0" by (simp add: haversine_a_def rad_def)
  then have "HaversineKm lat1 lng1 lat1 lng1 = 0" by (simp add: HaversineKm_def math_Atan2_def)
  moreover have "HaversineKm lat1 lng1 lat2 lng2 = HaversineKm lat2 lng2 lat1 lng1"
    by (simp add: HaversineKm_def haversine_a_sym [of lat1])
  ultimately show ?thesis
    using haversine_a_range [OF assms, of lng1 lng2] HaversineKm_range [OF assms, of lng1 lng2] by blast
qed

text \<open>
  The estimate is the travel time at the average speed rounded up to whole minutes, at least
  one; it never decreases with the distance, and between valid latitudes it is at most 61162 minutes,
  so it fits the column and the conversion to \<^verbatim>\<open>int\<close> cannot overflow.
\<close>

lemma eta_rounds_up:
  "real_of_int (Compute a b c d) \<ge> HaversineKm a b c d / AvgRiderSpeedKmh * 60
     \<and> (Compute a b c d = 1 \<or> real_of_int (Compute a b c d) - 1 < HaversineKm a b c d / AvgRiderSpeedKmh * 60)
     \<and> (HaversineKm a b c d \<le> HaversineKm a' b' c' d' \<longrightarrow> Compute a b c d \<le> Compute a' b' c' d')
     \<and> (\<bar>a\<bar> \<le> 90 \<and> \<bar>c\<bar> \<le> 90 \<longrightarrow> 1 \<le> Compute a b c d \<and> Compute a b c d \<le> 61162)"
proof (intro conjI)
  let ?m = "HaversineKm a b c d / AvgRiderSpeedKmh * 60"
  have c: "Compute a b c d = max 1 \<lceil>?m\<rceil>" by (simp add: Compute_max)
  show "real_of_int (Compute a b c d) \<ge> ?m" unfolding c by linarith
  show "Compute a b c d = 1 \<or> real_of_int (Compute a b c d) - 1 < ?m" unfolding c by linarith
  show "HaversineKm a b c d \<le> HaversineKm a' b' c' d' \<longrightarrow> Compute a b c d \<le> Compute a' b' c' d'"
  proof
    assume "HaversineKm a b c d \<le> HaversineKm a' b' c' d'"
    then have "HaversineKm a b c d * 60 / AvgRiderSpeedKmh \<le> HaversineKm a' b' c' d' * 60 / AvgRiderSpeedKmh"
      by (simp add: AvgRiderSpeedKmh_def)
    then show "Compute a b c d \<le> Compute a' b' c' d'"
      unfolding Compute_max by (intro max.mono ceiling_mono) simp_all
  qed
  show "\<bar>a\<bar> \<le> 90 \<and> \<bar>c\<bar> \<le> 90 \<longrightarrow> 1 \<le> Compute a b c d \<and> Compute a b c d \<le> 61162"
    using Compute_range by blast
qed



section \<open>Properties\<close>

text \<open>
  C28: a location update of a rider with an active order recomputes exactly that order's estimate, to
  the dropoff once it is picked up and to the pickup before, and on success publishes it under
  the order's key: status, rider and all other orders stay as they are.  Without an active order
  nothing happens.
\<close>

theorem on_location_updates_active_order:
  assumes "kafka_writer wr written" and "stmt_ok (env_read v) 0"
    and "OnLocation C wr v evt (d, k) = (r, d', k')"
  shows "case latest_active_order (loc_RiderID evt) d of
      None \<Rightarrow> r = None \<and> d' = d \<and> k' = k
    | Some x \<Rightarrow>
        (let mins = (if order_Status x = StatusPickedUp
             then Compute (loc_Lat evt) (loc_Lng evt) (order_DropoffLat x) (order_DropoffLng x)
             else Compute (loc_Lat evt) (loc_Lng evt) (order_PickupLat x) (order_PickupLng x))
         in (d' = d \<or> eta_written (order_ID x) mins d d')
          \<and> (r = None \<longrightarrow> eta_written (order_ID x) mins d d' \<and>
               map event_of (written k') = map event_of (written k) @
                 [(TopicETAUpdated, uuid_String C (order_ID x), eta_event_json C
                     \<lparr>eta_OrderID = order_ID x, eta_RiderID = loc_RiderID evt,
                      eta_Minutes = mins, eta_ComputedAt = env_now v\<rparr>)]))"
proof (cases "latest_active_order (loc_RiderID evt) d")
  case None
  with OnLocation_idle [OF None assms(2), of C wr k] assms(3) show ?thesis by simp
next
  case (Some x)
  define mins where "mins = (if order_Status x = StatusPickedUp
             then Compute (loc_Lat evt) (loc_Lng evt) (order_DropoffLat x) (order_DropoffLng x)
             else Compute (loc_Lat evt) (loc_Lng evt) (order_PickupLat x) (order_PickupLng x))"
  obtain ao where ao: "activeOrderForRider (env_read v) (loc_RiderID evt) d = Inr ao"
      "ao_OrderID ao = order_ID x"
      "Compute (loc_Lat evt) (loc_Lng evt) (fst (eta_target ao)) (snd (eta_target ao)) = mins"
    using Some assms(2) by (simp add: activeOrderForRider_def eta_target_def mins_def StatusPickedUp_def)
  let ?ev = "(TopicETAUpdated, uuid_String C (order_ID x), eta_event_json C
     \<lparr>eta_OrderID = order_ID x, eta_RiderID = loc_RiderID evt, eta_Minutes = mins, eta_ComputedAt = env_now v\<rparr>)"
  obtain w d1 where ac: "autocommit (env_write v) (update_eta (env_write v) mins (order_ID x)) d = (w, d1)" by fastforce
  have pub: "map event_of (written k2) = map event_of (written k) @ [?ev]"
    if "PublishRaw wr (env_now v) (env_trace v) TopicETAUpdated (uuid_String C (order_ID x)) (snd (snd ?ev)) k = (None, k2)" for k2
    using kafka_writer.PublishRaw_ok [OF assms(1) that] by (auto simp: event_of_def)
  have "r = None \<Longrightarrow> eta_written (order_ID x) mins d d' \<and> map event_of (written k') = map event_of (written k) @ [?ev]"
    using assms(3) ao ac pub
    by (cases "eta_target ao"; cases w)
      (auto simp: OnLocation_def Publish_def Let_def dest!: autocommit_Inr update_eta_Inr split: prod.splits)
  moreover have "d' = d \<or> eta_written (order_ID x) mins d d'"
    using assms(3) by (cases rule: OnLocation_cases) (use ao in auto)
  ultimately show ?thesis unfolding Some option.case Let_def mins_def [symmetric] by blast
qed

theorem on_location_updates_active_order_witness:
  "OnLocation canonical_codec broker_write example_call zero_location_event (empty_db, \<lparr>b_log = [], b_script = []\<rparr>)
     = (None, empty_db, \<lparr>b_log = [], b_script = []\<rparr>)"
proof -
  obtain r d' k' where o: "OnLocation canonical_codec broker_write example_call zero_location_event
      (empty_db, \<lparr>b_log = [], b_script = []\<rparr>) = (r, d', k')" by (metis prod_cases3)
  have "latest_active_order (loc_RiderID zero_location_event) empty_db = None"
    by (simp add: latest_active_order_None empty_db_def)
  with on_location_updates_active_order [OF broker.kafka_writer_axioms _ o] o show ?thesis
    by (simp add: example_call_def example_env_def)
qed

end
