(* ===== verification/Notification.thy ===== *)
theory Notification
  imports Eta Assignment
begin

text \<open>
  \<^verbatim>\<open>internal/notification\<close> and the order lookup of \<^verbatim>\<open>cmd/notification-service\<close>: the hub of customer
  connections by order, the broadcast, the four Kafka handlers that feed it, and the life of a
  connection.  A connection is an identifier; the WebSocket library is the parameter \<open>ws_client\<close>.
  A Go map has no iteration order; the model keeps the connections of an order as a list, and
  no property depends on its order.  The hub's mutex makes each operation one step.
\<close>

section \<open>The hub\<close>

type_synonym conn = nat
type_synonym Hub = "uuid \<Rightarrow> conn list option"

definition NewHub :: Hub where
  "NewHub = (\<lambda>_. None)"

definition Register :: "uuid \<Rightarrow> conn \<Rightarrow> Hub \<Rightarrow> Hub" where
  "Register orderID c h =
     (let cs = (case h orderID of None \<Rightarrow> [] | Some cs \<Rightarrow> cs)
      in h(orderID := Some (if c \<in> set cs then cs else cs @ [c])))"

definition Unregister :: "uuid \<Rightarrow> conn \<Rightarrow> Hub \<Rightarrow> Hub" where
  "Unregister orderID c h =
     (case h orderID of
        None \<Rightarrow> h
      | Some cs \<Rightarrow>
          let cs' = removeAll c cs
          in if length cs' = 0 then h(orderID := None) else h(orderID := Some cs'))"

record 'w ws_client =
  WriteJSON :: "conn \<Rightarrow> json \<Rightarrow> 'w \<Rightarrow> error option \<times> 'w"
  ws_Close :: "conn \<Rightarrow> 'w \<Rightarrow> 'w"

fun send_all :: "'w ws_client \<Rightarrow> json \<Rightarrow> conn list \<Rightarrow> 'w \<Rightarrow> 'w" where
  "send_all W v [] w = w"
| "send_all W v (c # cs) w =
     (case WriteJSON W c v w of
        (Some err, w') \<Rightarrow> send_all W v cs (ws_Close W c w')
      | (None, w') \<Rightarrow> send_all W v cs w')"

definition Broadcast :: "'w ws_client \<Rightarrow> uuid \<Rightarrow> json \<Rightarrow> Hub \<times> 'w \<Rightarrow> Hub \<times> 'w" where
  "Broadcast W orderID v = (\<lambda>(h, w).
     (h, send_all W v (case h orderID of None \<Rightarrow> [] | Some cs \<Rightarrow> cs) w))"

section \<open>Kafka handlers\<close>

definition outMsg :: "string \<Rightarrow> json \<Rightarrow> json" where
  "outMsg typ payload = JObj [(''type'', JStr typ), (''payload'', payload)]"

definition OrderAssignedHandler :: "codec \<Rightarrow> 'w ws_client \<Rightarrow> (Hub \<times> 'w) handler" where
  "OrderAssignedHandler C W msg s =
     (case json_unmarshal (assigned_event_fields C) (msg_Value msg) zero_assigned_event of
        Inl _ \<Rightarrow> (None, s)
      | Inr evt \<Rightarrow> (None, Broadcast W (assigned_OrderID evt) (outMsg ''order_assigned'' (JObj
          [(''assigned_at'', json_time C (assigned_AssignedAt evt)),
           (''order_id'', json_uuid C (assigned_OrderID evt)),
           (''rider_id'', json_uuid C (assigned_RiderID evt))])) s))"

definition status_payload_fields :: "codec \<Rightarrow> (uuid \<times> string) fields" where
  "status_payload_fields C =
     [(''order_id'', field (dec_uuid C) (\<lambda>v s. (v, snd s))), (''status'', field dec_string (\<lambda>v s. (fst s, v)))]"

definition OrderStatusHandler :: "codec \<Rightarrow> 'w ws_client \<Rightarrow> time \<Rightarrow> (Hub \<times> 'w) handler" where
  "OrderStatusHandler C W now msg s =
     (case json_unmarshal (status_payload_fields C) (msg_Value msg) (uuid_Nil, '''') of
        Inl _ \<Rightarrow> (None, s)
      | Inr (orderID, status) \<Rightarrow> (None, Broadcast W orderID (outMsg ''order_status_changed'' (JObj
          [(''changed_at'', json_time C now), (''order_id'', json_uuid C orderID), (''status'', JStr status)])) s))"

definition ETAHandler :: "codec \<Rightarrow> 'w ws_client \<Rightarrow> (Hub \<times> 'w) handler" where
  "ETAHandler C W msg s =
     (case json_unmarshal (eta_event_fields C) (msg_Value msg) zero_eta_event of
        Inl _ \<Rightarrow> (None, s)
      | Inr evt \<Rightarrow> (None, Broadcast W (eta_OrderID evt) (outMsg ''eta_updated'' (JObj
          [(''computed_at'', json_time C (eta_ComputedAt evt)),
           (''eta_minutes'', json_int (eta_Minutes evt)),
           (''order_id'', json_uuid C (eta_OrderID evt))])) s))"

definition LocationHandler ::
  "codec \<Rightarrow> 'w ws_client \<Rightarrow> (uuid \<Rightarrow> error + uuid) \<Rightarrow> (Hub \<times> 'w) handler" where
  "LocationHandler C W locateOrder msg s =
     (case json_unmarshal (location_event_fields C) (msg_Value msg) zero_location_event of
        Inl _ \<Rightarrow> (None, s)
      | Inr evt \<Rightarrow>
          (case locateOrder (loc_RiderID evt) of
             Inl _ \<Rightarrow> (None, s)
           | Inr orderID \<Rightarrow> (None, Broadcast W orderID (outMsg ''rider_location'' (JObj
               [(''lat'', JNum (loc_Lat evt)), (''lng'', JNum (loc_Lng evt)),
                (''timestamp'', json_time C (loc_Timestamp evt))])) s)))"

definition riderOrderLookup :: "pg_env \<Rightarrow> db \<Rightarrow> uuid \<Rightarrow> error + uuid" where
  "riderOrderLookup e d rid =
     (if \<not> stmt_ok e 0 then Inl pg_stmt_error
      else case latest_active_order rid d of None \<Rightarrow> Inl PgErrNoRows | Some x \<Rightarrow> Inr (order_ID x))"

section \<open>The life of a connection\<close>

text \<open>\<^verbatim>\<open>Handler.order\<close> registers the upgraded connection, reads until an error, and unregisters it on the
  way out, at the instant \<open>read_end\<close> of the heartbeat; \<open>meanwhile t\<close> is what the rest of the service does to
  the hub up to the instant \<open>t\<close>.\<close>

definition handle_order_ws ::
  "codec \<Rightarrow> string \<Rightarrow> bool \<Rightarrow> conn \<Rightarrow> time \<Rightarrow> wire \<Rightarrow> (time \<Rightarrow> Hub \<Rightarrow> Hub) \<Rightarrow> Hub \<Rightarrow> ws_result \<times> Hub" where
  "handle_order_ws C idParam upgraded c opened wire meanwhile h =
     (case uuid_Parse C idParam of
        None \<Rightarrow> (HttpError 400 ''invalid order_id'', h)
      | Some orderID \<Rightarrow>
          if \<not> upgraded then (UpgradeFailed, h)
          else (Session [], Unregister orderID c (meanwhile (read_end opened wire) (Register orderID c h))))"

section \<open>Lemmas\<close>

definition subscribers :: "Hub \<Rightarrow> uuid \<Rightarrow> conn set" where
  "subscribers h i = (case h i of None \<Rightarrow> {} | Some cs \<Rightarrow> set cs)"

text \<open>No entry is empty (an order without connections has none), and no connection is listed twice.\<close>

definition hub_wf :: "Hub \<Rightarrow> bool" where
  "hub_wf h \<longleftrightarrow> (\<forall>i cs. h i = Some cs \<longrightarrow> cs \<noteq> [] \<and> distinct cs)"

lemma hub_wf_NewHub: "hub_wf NewHub"
  by (simp add: hub_wf_def NewHub_def)

lemma subscribers_Register:
  "subscribers (Register i c h) = (subscribers h)(i := insert c (subscribers h i))"
  by (auto simp: fun_eq_iff subscribers_def Register_def Let_def split: option.splits)

lemma subscribers_Unregister:
  "subscribers (Unregister i c h) = (subscribers h)(i := subscribers h i - {c})"
proof -
  have "set cs \<subseteq> {c}" if "removeAll c cs = []" for cs
    using that by (metis list.set(1) set_removeAll Diff_eq_empty_iff)
  then show ?thesis
    by (fastforce simp: fun_eq_iff subscribers_def Unregister_def Let_def split: option.splits if_splits)
qed

lemma hub_wf_Register: "hub_wf h \<Longrightarrow> hub_wf (Register i c h)"
  by (auto simp: hub_wf_def Register_def Let_def split: option.splits)

lemma hub_wf_Unregister: "hub_wf h \<Longrightarrow> hub_wf (Unregister i c h)"
  by (auto simp: hub_wf_def Unregister_def Let_def distinct_removeAll split: option.splits)

lemma hub_wf_entry: "hub_wf h \<Longrightarrow> h i \<noteq> None \<longleftrightarrow> subscribers h i \<noteq> {}"
  by (cases "h i") (auto simp: hub_wf_def subscribers_def)

lemma hub_wf_distinct: "hub_wf h \<Longrightarrow> distinct (case h i of None \<Rightarrow> [] | Some cs \<Rightarrow> cs)"
  by (auto simp: hub_wf_def split: option.splits)

section \<open>The contract of the connections\<close>

text \<open>A successful write delivers the value to that connection and to no other; a failed one may or
  may not have delivered it; closing delivers nothing.\<close>

locale ws_contract =
  fixes W :: "'w ws_client" and received :: "'w \<Rightarrow> conn \<Rightarrow> json list"
  assumes write_ok: "WriteJSON W c v w = (None, w') \<Longrightarrow> received w' = (received w)(c := received w c @ [v])"
    and write_err: "WriteJSON W c v w = (Some e, w') \<Longrightarrow>
      received w' = received w \<or> received w' = (received w)(c := received w c @ [v])"
    and close: "received (ws_Close W c w) = received w"
begin

lemma send_all_others: "c \<notin> set cs \<Longrightarrow> received (send_all W v cs w) c = received w c"
proof (induction cs arbitrary: w)
  case (Cons x xs)
  obtain e w1 where wr: "WriteJSON W x v w = (e, w1)" by fastforce
  then have "received w1 c = received w c"
    using Cons.prems write_ok [of x v w w1] write_err [of x v w _ w1] by (cases e) auto
  with Cons wr show ?case by (cases e) (simp_all add: close)
qed simp

lemma send_all_received:
  "distinct cs \<Longrightarrow> c \<in> set cs \<Longrightarrow>
     received (send_all W v cs w) c = received w c \<or> received (send_all W v cs w) c = received w c @ [v]"
proof (induction cs arbitrary: w)
  case (Cons x xs)
  obtain e w1 where wr: "WriteJSON W x v w = (e, w1)" by fastforce
  show ?case
  proof (cases "c = x")
    case True
    then have "received w1 c = received w c \<or> received w1 c = received w c @ [v]"
      using wr write_ok [of x v w w1] write_err [of x v w _ w1] by (cases e) auto
    with True Cons.prems wr show ?thesis
      using send_all_others [of c xs] by (cases e) (simp_all add: close)
  next
    case False
    then have "received w1 c = received w c"
      using wr write_ok [of x v w w1] write_err [of x v w _ w1] by (cases e) auto
    with Cons.IH [of w1] Cons.IH [of "ws_Close W x w1"] Cons.prems False wr show ?thesis
      by (cases e) (auto simp: close)
  qed
qed simp

lemma send_all_ok:
  assumes "\<And>c w. \<exists>w'. WriteJSON W c v w = (None, w')"
  shows "distinct cs \<Longrightarrow> received (send_all W v cs w) = (\<lambda>c. received w c @ (if c \<in> set cs then [v] else []))"
proof (induction cs arbitrary: w)
  case (Cons x xs)
  obtain w1 where wr: "WriteJSON W x v w = (None, w1)" using assms by blast
  with Cons write_ok [OF wr] show ?case by (auto simp: fun_eq_iff)
qed simp

end

section \<open>Connections in memory\<close>

record ws_world =
  w_inbox :: "conn \<Rightarrow> json list"
  w_closed :: "conn list"

definition memory_ws :: "ws_world ws_client" where
  "memory_ws =
     \<lparr>WriteJSON = (\<lambda>c v w. if c \<in> set (w_closed w) then (Some (ErrorString ''use of closed network connection''), w)
        else (None, w\<lparr>w_inbox := (w_inbox w)(c := w_inbox w c @ [v])\<rparr>)),
      ws_Close = (\<lambda>c w. w\<lparr>w_closed := c # w_closed w\<rparr>)\<rparr>"

interpretation memory_conns: ws_contract memory_ws w_inbox
  by unfold_locales (auto simp: memory_ws_def split: if_splits)

text \<open>None of the four handlers touches the hub's entries, so the consumers keep its shape.\<close>

lemma Broadcast_hub [simp]: "fst (Broadcast W i v s) = fst s"
  by (simp add: Broadcast_def split_beta)

interpretation assigned_consumer: message_handler "OrderAssignedHandler C W" "\<lambda>s. hub_wf (fst s)" for C W
  by unfold_locales (simp add: OrderAssignedHandler_def split: sum.splits)

interpretation status_consumer: message_handler "OrderStatusHandler C W now" "\<lambda>s. hub_wf (fst s)" for C W now
  by unfold_locales (simp add: OrderStatusHandler_def split: sum.splits prod.splits)

interpretation eta_notifier: message_handler "ETAHandler C W" "\<lambda>s. hub_wf (fst s)" for C W
  by unfold_locales (simp add: ETAHandler_def split: sum.splits)

interpretation location_notifier: message_handler "LocationHandler C W locate" "\<lambda>s. hub_wf (fst s)" for C W locate
  by unfold_locales (simp add: LocationHandler_def split: sum.splits)

context codec_laws
begin

lemma assigned_event_decode:
  "json_unmarshal (assigned_event_fields C) (assigned_event_json C ev) zero_assigned_event = Inr ev"
  by (simp add: assigned_event_json_def assigned_event_fields_def zero_assigned_event_def decode_simps)

lemma eta_event_decode:
  "json_unmarshal (eta_event_fields C) (eta_event_json C ev) zero_eta_event = Inr ev"
  by (simp add: eta_event_json_def eta_event_fields_def zero_eta_event_def decode_simps)

lemma location_event_decode:
  "json_unmarshal (location_event_fields C) (location_event_json C ev) zero_location_event = Inr ev"
  by (simp add: location_event_json_def location_event_fields_def zero_location_event_def decode_simps)

lemma no_rider_event_decode:
  "json_unmarshal (status_payload_fields C) (no_rider_event_json C i reason t) (uuid_Nil, '''') = Inr (i, ''CANCELLED'')"
  by (simp add: no_rider_event_json_def status_payload_fields_def decode_simps)

lemma status_event_decode:
  "json_unmarshal (status_payload_fields C) (status_event_json C t i to) (uuid_Nil, '''') = Inr (i, to)"
  by (simp add: status_event_json_def status_payload_fields_def decode_simps)

end

section \<open>What a connection receives\<close>

definition assigned_notice :: "codec \<Rightarrow> OrderAssignedEvent \<Rightarrow> json" where
  "assigned_notice C a = outMsg ''order_assigned'' (JObj
     [(''assigned_at'', json_time C (assigned_AssignedAt a)), (''order_id'', json_uuid C (assigned_OrderID a)),
      (''rider_id'', json_uuid C (assigned_RiderID a))])"

context ws_contract
begin

lemma Broadcast_received:
  assumes "\<And>c v w. \<exists>w'. WriteJSON W c v w = (None, w')" "hub_wf h"
  shows "received (snd (Broadcast W i v (h, w))) c = received w c @ (if c \<in> subscribers h i then [v] else [])"
proof -
  have "subscribers h i = set (case h i of None \<Rightarrow> [] | Some cs \<Rightarrow> cs)"
    by (simp add: subscribers_def split: option.splits)
  then show ?thesis
    using send_all_ok [OF assms(1) hub_wf_distinct [OF assms(2)], where v = v and w = w]
    by (simp add: Broadcast_def)
qed

lemma assigned_fold:
  assumes "\<And>c v w. \<exists>w'. WriteJSON W c v w = (None, w')" "hub_wf h" "codec_laws C"
  shows "map msg_Value ms = map (assigned_event_json C) evs \<Longrightarrow>
     fst (fold (\<lambda>m s. snd (OrderAssignedHandler C W m s)) ms (h, w)) = h
     \<and> received (snd (fold (\<lambda>m s. snd (OrderAssignedHandler C W m s)) ms (h, w))) c
       = received w c @ map (assigned_notice C) (filter (\<lambda>a. c \<in> subscribers h (assigned_OrderID a)) evs)"
proof (induction evs arbitrary: ms w)
  case (Cons a evs)
  then obtain m ms' where ms: "ms = m # ms'" "msg_Value m = assigned_event_json C a"
      "map msg_Value ms' = map (assigned_event_json C) evs" by (cases ms) auto
  let ?s = "Broadcast W (assigned_OrderID a) (assigned_notice C a) (h, w)"
  have step: "snd (OrderAssignedHandler C W m (h, w)) = (h, snd ?s)"
    by (simp add: OrderAssignedHandler_def ms(2) codec_laws.assigned_event_decode [OF assms(3)] assigned_notice_def
        Broadcast_def)
  show ?case
    using Cons.IH [OF ms(3), of "snd ?s"] Broadcast_received [OF assms(1,2), of "assigned_OrderID a" "assigned_notice C a" w c]
    by (simp add: ms(1) step)
qed simp

end

lemma Unregister_Register:
  assumes "hub_wf h" "c \<notin> subscribers h i"
  shows "Unregister i c (Register i c h) = h"
proof (cases "h i")
  case None
  then show ?thesis by (auto simp: Unregister_def Register_def Let_def fun_eq_iff)
next
  case (Some cs)
  with assms have "c \<notin> set cs" "cs \<noteq> []" by (auto simp: subscribers_def hub_wf_def)
  with Some show ?thesis by (auto simp: Unregister_def Register_def Let_def fun_eq_iff)
qed

section \<open>Examples and remarks\<close>

text \<open>Connections that never fail: the state is what each has received.\<close>

definition open_ws :: "(conn \<Rightarrow> json list) ws_client" where
  "open_ws = \<lparr>WriteJSON = (\<lambda>c v w. (None, w(c := w c @ [v]))), ws_Close = (\<lambda>c w. w)\<rparr>"

interpretation open_conns: ws_contract open_ws id
  by unfold_locales (auto simp: open_ws_def)

definition example_assigned :: OrderAssignedEvent where
  "example_assigned = \<lparr>assigned_OrderID = 7, assigned_RiderID = 3, assigned_AssignedAt = 1\<rparr>"

text \<open>
  The reason of a cancellation does not reach the customer: what the status handler broadcasts for
  the event of an order nobody could be found for depends neither on the reason nor on the instant
  the event carries.
\<close>

lemma cancellation_reason_dropped:
  assumes "codec_laws C"
  shows "OrderStatusHandler C W now (m\<lparr>msg_Value := no_rider_event_json C i reason t\<rparr>) s =
       (None, Broadcast W i (outMsg ''order_status_changed'' (JObj
          [(''changed_at'', json_time C now), (''order_id'', json_uuid C i), (''status'', JStr ''CANCELLED'')])) s)"
  by (simp add: OrderStatusHandler_def codec_laws.no_rider_event_decode [OF assms])

text \<open>
  A broadcast reaches the subscribers of its order and nobody else: each of them gets the value at
  most once, and exactly once when every write succeeds; connections of other orders get nothing, and
  the hub is not changed.
\<close>

lemma broadcast_reaches_subscribers:
  assumes "ws_contract W received" and "hub_wf h" and "Broadcast W i v (h, w) = (h', w')"
  shows "h' = h
     \<and> (\<forall>c. c \<notin> subscribers h i \<longrightarrow> received w' c = received w c)
     \<and> (\<forall>c. received w' c = received w c \<or> received w' c = received w c @ [v])
     \<and> ((\<forall>c w. \<exists>w'. WriteJSON W c v w = (None, w')) \<longrightarrow>
          (\<forall>c \<in> subscribers h i. received w' c = received w c @ [v]))"
proof -
  let ?cs = "case h i of None \<Rightarrow> [] | Some cs \<Rightarrow> cs"
  have set: "subscribers h i = set ?cs" by (simp add: subscribers_def split: option.splits)
  have dist: "distinct ?cs" using assms(2) by (rule hub_wf_distinct)
  have res: "h' = h" "w' = send_all W v ?cs w" using assms(3) by (auto simp: Broadcast_def)
  have "received w' c = received w c" if "c \<notin> subscribers h i" for c
    using that ws_contract.send_all_others [OF assms(1)] unfolding res set by blast
  moreover have "received w' c = received w c \<or> received w' c = received w c @ [v]" if "c \<in> subscribers h i" for c
    using that ws_contract.send_all_received [OF assms(1) dist] unfolding res set by blast
  moreover have "received w' c = received w c @ [v]"
    if "\<forall>c w. \<exists>w'. WriteJSON W c v w = (None, w')" "c \<in> subscribers h i" for c
    using that ws_contract.send_all_ok [OF assms(1) _ dist, of v w] unfolding res set by simp
  ultimately show ?thesis using res(1) by blast
qed

text \<open>
  Customers see what the services published: the notification of an assignment, of a new estimate
  and of a status change is broadcast to the subscribers of the event's order with the event's
  values, and a rider's position to those of the rider's active order.
\<close>

lemma notifications_carry_events:
  assumes "codec_laws C"
  shows "OrderAssignedHandler C W (m\<lparr>msg_Value := assigned_event_json C a\<rparr>) s =
       (None, Broadcast W (assigned_OrderID a) (outMsg ''order_assigned'' (JObj
          [(''assigned_at'', json_time C (assigned_AssignedAt a)), (''order_id'', json_uuid C (assigned_OrderID a)),
           (''rider_id'', json_uuid C (assigned_RiderID a))])) s)
     \<and> ETAHandler C W (m\<lparr>msg_Value := eta_event_json C e\<rparr>) s =
       (None, Broadcast W (eta_OrderID e) (outMsg ''eta_updated'' (JObj
          [(''computed_at'', json_time C (eta_ComputedAt e)), (''eta_minutes'', json_int (eta_Minutes e)),
           (''order_id'', json_uuid C (eta_OrderID e))])) s)
     \<and> OrderStatusHandler C W now (m\<lparr>msg_Value := status_event_json C t i to\<rparr>) s =
       (None, Broadcast W i (outMsg ''order_status_changed'' (JObj
          [(''changed_at'', json_time C now), (''order_id'', json_uuid C i), (''status'', JStr to)])) s)
     \<and> LocationHandler C W (riderOrderLookup pe d) (m\<lparr>msg_Value := location_event_json C l\<rparr>) s =
       (None, case riderOrderLookup pe d (loc_RiderID l) of Inl _ \<Rightarrow> s
          | Inr oid \<Rightarrow> Broadcast W oid (outMsg ''rider_location'' (JObj
              [(''lat'', JNum (loc_Lat l)), (''lng'', JNum (loc_Lng l)), (''timestamp'', json_time C (loc_Timestamp l))])) s)"
  by (simp add: OrderAssignedHandler_def ETAHandler_def OrderStatusHandler_def LocationHandler_def
      codec_laws.assigned_event_decode [OF assms] codec_laws.eta_event_decode [OF assms]
      codec_laws.status_event_decode [OF assms] codec_laws.location_event_decode [OF assms] split: sum.splits)



section \<open>Properties\<close>

text \<open>
  C29: customers learn of their riders: while the connections work and the subscriptions stand, the
  notification service's consumer of \<^verbatim>\<open>order.assigned\<close> sends each connection exactly the assignments of the
  orders it is subscribed to, once each and in the order of the topic's log.
\<close>

theorem customers_get_assignments:
  assumes "codec_laws C" and "ws_contract W received" and "\<And>c v w. \<exists>w'. WriteJSON W c v w = (None, w')"
    and "hub_wf h" and "kafka_reader R plog pos committed"
    and "\<And>r. pos r < length (plog r) \<Longrightarrow> \<exists>m r'. FetchMessage R r = (Fetched m, r')"
    and "pos r + n \<le> length (plog r)"
    and "map msg_Value (take n (drop (pos r) (plog r))) = map (assigned_event_json C) evs"
  shows "\<exists>r' w'. consumer_Run n R (OrderAssignedHandler C W) (r, h, w) = (None, r', h, w') \<and> pos r' = pos r + n
     \<and> (\<forall>c. received w' c
          = received w c @ map (assigned_notice C) (filter (\<lambda>a. c \<in> subscribers h (assigned_OrderID a)) evs))"
proof -
  let ?s = "fold (\<lambda>m s. snd (OrderAssignedHandler C W m s)) (take n (drop (pos r) (plog r))) (h, w)"
  obtain r' where r': "consumer_Run n R (OrderAssignedHandler C W) (r, h, w) = (None, r', ?s)" "pos r' = pos r + n"
    using kafka_reader.Run_folds [OF assms(5-7), of "OrderAssignedHandler C W" "(h, w)"] by blast
  note s = ws_contract.assigned_fold [OF assms(2,3,4,1,8)]
  obtain w' where "?s = (h, w')" using s by (metis prod.collapse)
  with r' s [of w] show ?thesis by (intro exI [of _ r'] exI [of _ w']) simp
qed

theorem customers_get_assignments_witness:
  "\<exists>r' w'. consumer_Run 1 partition_reader (OrderAssignedHandler canonical_codec open_ws)
      (\<lparr>p_log = [example_message\<lparr>msg_Value := assigned_event_json canonical_codec example_assigned\<rparr>], p_pos = 0, p_committed = 0\<rparr>,
       Register 7 1 NewHub, \<lambda>_. []) = (None, r', Register 7 1 NewHub, w')
     \<and> w' 1 = [assigned_notice canonical_codec example_assigned] \<and> w' 2 = []"
proof -
  let ?p = "\<lparr>p_log = [example_message\<lparr>msg_Value := assigned_event_json canonical_codec example_assigned\<rparr>], p_pos = 0, p_committed = 0\<rparr>"
  have "map msg_Value (take 1 (drop (p_pos ?p) (p_messages ?p))) = map (assigned_event_json canonical_codec) [example_assigned]"
    by (simp add: p_messages_def enumerate_eq_zip)
  from customers_get_assignments [OF canonical.codec_laws_axioms open_conns.ws_contract_axioms _
      hub_wf_Register [OF hub_wf_NewHub] partition.kafka_reader_axioms _ _ this, of 7 1 "\<lambda>_. []"]
  show ?thesis
    by (auto simp: open_ws_def partition_reader_def p_messages_def example_assigned_def subscribers_Register)
      (auto simp: subscribers_def NewHub_def)
qed

text \<open>
  C32: subscriptions end with their connection: after a customer's session its connection receives no
  more broadcasts of the order, whatever happened to the hub meanwhile, the hub keeps no empty
  entries, if nothing else happened it is as it was before, and a customer whose last pong came by \<open>T\<close>
  is unregistered within \<open>pongWait\<close> of it.
\<close>

theorem session_leaves_no_subscription:
  assumes "hub_wf h" and "\<And>t h. hub_wf h \<Longrightarrow> hub_wf (meanwhile t h)" and "uuid_Parse C idParam = Some i"
    and "opened \<le> T" and "\<And>t. (t, Pong) \<in> set wire \<Longrightarrow> t \<le> T"
  shows "case handle_order_ws C idParam True c opened wire meanwhile h of
     (r, h') \<Rightarrow> hub_wf h' \<and> c \<notin> subscribers h' i
       \<and> (\<forall>j. h' j \<noteq> None \<longleftrightarrow> subscribers h' j \<noteq> {})
       \<and> (\<exists>t \<le> T + pongWait. h' = Unregister i c (meanwhile t (Register i c h))
            \<and> (c \<notin> subscribers h i \<and> meanwhile t = id \<longrightarrow> h' = h))"
proof -
  let ?h' = "Unregister i c (meanwhile (read_end opened wire) (Register i c h))"
  have wf: "hub_wf ?h'" using assms(1,2) by (intro hub_wf_Unregister) (simp add: hub_wf_Register)
  have "\<exists>t \<le> T + pongWait. ?h' = Unregister i c (meanwhile t (Register i c h))
      \<and> (c \<notin> subscribers h i \<and> meanwhile t = id \<longrightarrow> ?h' = h)"
    using read_end_bound [OF assms(4,5)] Unregister_Register [OF assms(1)]
    by (intro exI [of _ "read_end opened wire"]) auto
  with assms(3) wf hub_wf_entry [OF wf] show ?thesis
    by (simp add: handle_order_ws_def subscribers_Unregister)
qed

theorem session_leaves_no_subscription_witness:
  "case handle_order_ws canonical_codec (rfc4122_text 7) True 1 0 [(seconds 31, Pong)] (\<lambda>_. Register 7 2) NewHub of
     (r, h') \<Rightarrow> 1 \<notin> subscribers h' 7"
  using session_leaves_no_subscription [OF hub_wf_NewHub, of "\<lambda>_. Register 7 2" canonical_codec "rfc4122_text 7" 7
      0 "seconds 31" "[(seconds 31, Pong)]" 1]
  by (auto simp: hub_wf_Register canonical_codec_def rfc4122_read_text heartbeat_defs split: prod.splits)

end
