(* ===== verification/Delivery_System.thy ===== *)
theory Delivery_System
  imports Rider_Service Notification
begin

text \<open>
  The services together: one Postgres database, one geo index and one Kafka cluster, changed by
  the transactions of all the services in any order.  A step is one transaction or one call to
  Redis or Kafka; the read and the write of a status change are two steps, so the write may act on a
  read from an earlier database.  Which databases a status change may have read is the parameter
  \<open>stale\<close>: \<open>(=)\<close> when nothing comes between its read and its write.
\<close>

section \<open>Steps\<close>

record ('g, 'k) system =
  sys_db :: db
  sys_geo :: 'g
  sys_bus :: 'k
  sys_metrics :: metrics

inductive delivery_step ::
  "codec \<Rightarrow> 'g geo_client \<Rightarrow> 'k writer \<Rightarrow> (db \<Rightarrow> db \<Rightarrow> bool) \<Rightarrow> ('g, 'k) system \<Rightarrow> ('g, 'k) system \<Rightarrow> bool"
  for C G wr stale where
  place: "order_Place C e now tc req (sys_db s, sys_metrics s) = (r, d', m') \<Longrightarrow>
     delivery_step C G wr stale s (s\<lparr>sys_db := d', sys_metrics := m'\<rparr>)"
| transition: "stale d0 (sys_db s) \<Longrightarrow> Transition C v i to d0 (sys_db s, sys_metrics s) = (r, d', m') \<Longrightarrow>
     delivery_step C G wr stale s (s\<lparr>sys_db := d', sys_metrics := m'\<rparr>)"
| claim: "claimRider C e now tc oid rid (sys_db s) = (b, d') \<Longrightarrow>
     delivery_step C G wr stale s (s\<lparr>sys_db := d'\<rparr>)"
| unassigned: "markCancelled C e now tc oid ''no rider available'' (sys_db s) = (u, d') \<Longrightarrow>
     delivery_step C G wr stale s (s\<lparr>sys_db := d'\<rparr>)"
| register: "rider_Register e rq (sys_db s) = (x, d') \<Longrightarrow> delivery_step C G wr stale s (s\<lparr>sys_db := d'\<rparr>)"
| shift: "rider_SetStatus C G ew er i sq (sys_db s, sys_geo s) = (x, d', g') \<Longrightarrow>
     delivery_step C G wr stale s (s\<lparr>sys_db := d', sys_geo := g'\<rparr>)"
| unindex: "ZRem G RidersGeoKey name (sys_geo s) = (v', g') \<Longrightarrow>
     delivery_step C G wr stale s (s\<lparr>sys_geo := g'\<rparr>)"
| locate: "UpdateLocation C G wr now tc rid lat lng ts (sys_geo s, sys_bus s) = (o', g', k') \<Longrightarrow>
     delivery_step C G wr stale s (s\<lparr>sys_geo := g', sys_bus := k'\<rparr>)"
| estimate: "OnLocation C wr v evt (sys_db s, sys_bus s) = (o', d', k') \<Longrightarrow>
     delivery_step C G wr stale s (s\<lparr>sys_db := d', sys_bus := k'\<rparr>)"
| relay: "dispatch e locked n pctx (PublishRaw wr now) (sys_db s, sys_bus s) = (o', d', k') \<Longrightarrow>
     delivery_step C G wr stale s (s\<lparr>sys_db := d', sys_bus := k'\<rparr>)"

text \<open>What a step of a service other than the relay can do to the database: one of the components' effects.\<close>

inductive db_effect :: "codec \<Rightarrow> db \<Rightarrow> db \<Rightarrow> bool" for C where
  same: "db_effect C d d"
| placed: "placement C now req x d d' \<Longrightarrow> db_effect C d d'"
| status: "status_change C now i to d d' \<Longrightarrow> db_effect C d d'"
| claimed: "claim C now oid rid d d' \<Longrightarrow> db_effect C d d'"
| cancelled: "cancellation C now oid d d' \<Longrightarrow> db_effect C d d'"
| rider_added: "insert_rider e x d = Inr (y, d') \<Longrightarrow> db_effect C d d'"
| rider_changed: "rider_update i st d d' \<Longrightarrow> db_effect C d d'"
| estimated: "eta_written i mins d d' \<Longrightarrow> db_effect C d d'"


lemma Register_effect: "rider_Register e rq d = (x, d') \<Longrightarrow> db_effect C d d'"
  unfolding rider_Register_def rider_Create_def
  by (auto split: if_splits sum.splits prod.splits elim!: autocommit_cases intro: db_effect.intros)

lemma SetStatus_effect: "rider_SetStatus C G ew er i sq (d, g) = (x, d', g') \<Longrightarrow> db_effect C d d'"
proof -
  assume a: "rider_SetStatus C G ew er i sq (d, g) = (x, d', g')"
  show ?thesis
  proof (cases "rider_Valid (set_Status sq)")
    case False
    with a show ?thesis by (auto simp: rider_SetStatus_def intro: db_effect.same)
  next
    case True
    obtain r d1 where up: "rider_repo_SetStatus ew i (set_Status sq) d = (r, d1)" by fastforce
    have "d' = d1"
      using a True up by (auto simp: rider_SetStatus_def split: option.splits prod.splits if_splits)
    from up show ?thesis
      unfolding \<open>d' = d1\<close> by (cases rule: repo_SetStatus_cases) (auto intro: db_effect.intros)
  qed
qed

lemma SetStatus_riders:
  "rider_SetStatus C G ew er i sq (d, g) = (x, d', g') \<Longrightarrow> orders d' = orders d \<and> order_events d' = order_events d"
proof -
  assume a: "rider_SetStatus C G ew er i sq (d, g) = (x, d', g')"
  obtain r d1 where up: "rider_repo_SetStatus ew i (set_Status sq) d = (r, d1)" by fastforce
  then have "orders d1 = orders d \<and> order_events d1 = order_events d"
    by (cases rule: repo_SetStatus_cases) (auto simp: rider_update_def)
  moreover have "d' = d \<or> d' = d1"
    using a up by (auto simp: rider_SetStatus_def split: option.splits prod.splits if_splits)
  ultimately show ?thesis by auto
qed

lemma OnLocation_effect: "OnLocation C wr v evt (d, k) = (r, d', k') \<Longrightarrow> db_effect C d d'"
  by (erule OnLocation_cases) (auto intro: db_effect.intros)

context kafka_writer
begin

lemma dispatch_db:
  assumes "dispatch e locked n pctx (PublishRaw wr now) (d, k) = (r, d', k')"
  shows "\<exists>ids. d' = mark_sent (pg_now e) ids d"
  using producer.dispatch_effect [OF assms] mark_sent_Nil [of "pg_now e" d] by metis

lemma dispatch_bus:
  assumes "dispatch e locked n pctx (PublishRaw wr now) (d, k) = (r, d', k')"
  shows "\<exists>L. map event_of (written k') = map event_of (written k) @ L"
  using producer.dispatch_effect [OF assms] by blast

lemma OnLocation_bus:
  assumes "OnLocation C wr v evt (d, k) = (r, d', k')"
  shows "\<exists>L. map event_of (written k') = map event_of (written k) @ L"
  using assms
proof (cases rule: OnLocation_cases)
  case (wrote ao mins)
  then show ?thesis
    using producer.publish_ok producer.publish_err by (cases r) (fastforce)+
qed simp

lemma UpdateLocation_bus:
  "UpdateLocation C G wr now tc rid lat lng ts (g, k) = (r, g', k') \<Longrightarrow>
     \<exists>L. map event_of (written k') = map event_of (written k) @ L"
  by (drule UpdateLocation_effect) (elim disjE conjE; blast)

end

section \<open>What every interleaving keeps\<close>

definition outbox_headers :: "db \<Rightarrow> (string \<times> string) list" where
  "outbox_headers d = map (\<lambda>r. (ob_topic r, ob_partition_key r)) (outbox d)"

definition orders_announced :: "codec \<Rightarrow> db \<Rightarrow> bool" where
  "orders_announced C d \<longleftrightarrow>
     (\<forall>x \<in> set (orders d). (TopicOrderPlaced, uuid_String C (order_ID x)) \<in> set (outbox_headers d))"

lemma mark_sent_headers [simp]: "outbox_headers (mark_sent t ids d) = outbox_headers d"
proof -
  have "map (\<lambda>r. (ob_topic r, ob_partition_key r)) (sql_update p (\<lambda>r. r\<lparr>ob_sent_at := Some t\<rparr>) rows)
      = map (\<lambda>r. (ob_topic r, ob_partition_key r)) rows" for p rows
    by (rule map_sql_update_id) simp
  then show ?thesis by (simp add: outbox_headers_def mark_sent_def)
qed

lemma db_effect_wf: "db_effect C d d' \<Longrightarrow> wf_db d \<Longrightarrow> wf_db d'"
  by (induction rule: db_effect.induct)
    (auto intro: placement_wf status_change_wf claim_wf cancellation_wf insert_rider_wf rider_update_wf
      eta_written_wf)

lemma db_effect_events: "db_effect C d d' \<Longrightarrow> prefix (order_events d) (order_events d')"
  by (induction rule: db_effect.induct)
    (auto simp: placement_def status_change_def claim_def cancellation_def rider_update_def eta_written_def
      elim: insert_rider_Inr)

lemma outbox_headers_append: "outbox d' = outbox d @ rows \<Longrightarrow> set (outbox_headers d) \<subseteq> set (outbox_headers d')"
  by (auto simp: outbox_headers_def)



lemma announced_mono:
  assumes "orders_announced C d" "map order_ID (orders d') = map order_ID (orders d)"
    "set (outbox_headers d) \<subseteq> set (outbox_headers d')"
  shows "orders_announced C d'"
proof -
  have "order_ID ` set (orders d') = order_ID ` set (orders d)" using assms(2) by (metis list.set_map)
  moreover have "(TopicOrderPlaced, uuid_String C i) \<in> set (outbox_headers d')" if "i \<in> order_ID ` set (orders d)" for i
    using that assms(1,3) by (auto simp: orders_announced_def)
  ultimately show ?thesis by (auto simp: orders_announced_def)
qed

lemma effect_frames:
  "status_change C now i to d d' \<Longrightarrow>
     map order_ID (orders d') = map order_ID (orders d) \<and> (\<exists>ob. outbox d' = outbox d @ [ob] \<and> ob_sent_at ob = None)"
  "claim C now i r d d' \<Longrightarrow>
     map order_ID (orders d') = map order_ID (orders d) \<and> (\<exists>ob. outbox d' = outbox d @ [ob] \<and> ob_sent_at ob = None)"
  "cancellation C now i d d' \<Longrightarrow>
     map order_ID (orders d') = map order_ID (orders d) \<and> (\<exists>ob. outbox d' = outbox d @ [ob] \<and> ob_sent_at ob = None)"
  unfolding status_change_def claim_def cancellation_def by (elim conjE exE, simp add: map_sql_update_id)+

lemma db_effect_announced: "db_effect C d d' \<Longrightarrow> orders_announced C d \<Longrightarrow> orders_announced C d'"
proof (induction rule: db_effect.induct)
  case (placed now req x d d')
  then obtain amount ev ob where "d' = d\<lparr>orders := orders d @ [x\<lparr>order_TotalAmount := amount\<rparr>],
      order_events := order_events d @ [ev], outbox := outbox d @ [ob]\<rparr>"
      "ob_topic ob = TopicOrderPlaced" "ob_partition_key ob = uuid_String C (order_ID x)"
    by (auto simp: placement_def row_event_def)
  with placed show ?case by (auto simp: orders_announced_def outbox_headers_def)
next
  case (status now i to d d')
  obtain ob where o: "outbox d' = outbox d @ [ob]" and m: "map order_ID (orders d') = map order_ID (orders d)"
    using effect_frames(1) [OF status(1)] by blast
  show ?case by (rule announced_mono [OF status(2) m outbox_headers_append [OF o]])
next
  case (claimed now oid rid d d')
  obtain ob where o: "outbox d' = outbox d @ [ob]" and m: "map order_ID (orders d') = map order_ID (orders d)"
    using effect_frames(2) [OF claimed(1)] by blast
  show ?case by (rule announced_mono [OF claimed(2) m outbox_headers_append [OF o]])
next
  case (cancelled now oid d d')
  obtain ob where o: "outbox d' = outbox d @ [ob]" and m: "map order_ID (orders d') = map order_ID (orders d)"
    using effect_frames(3) [OF cancelled(1)] by blast
  show ?case by (rule announced_mono [OF cancelled(2) m outbox_headers_append [OF o]])
next
  case (rider_added e x d y d')
  then obtain z where "d' = d\<lparr>riders := riders d @ [z]\<rparr>" by (elim insert_rider_Inr) blast
  with rider_added(2) show ?case by - (rule announced_mono [of C d], simp_all add: outbox_headers_def)
next
  case (rider_changed i st d d')
  then show ?case by - (rule announced_mono [of C d], auto simp: rider_update_def outbox_headers_def)
next
  case (estimated i mins d d')
  then show ?case
    by - (rule announced_mono [of C d], auto simp: eta_written_def outbox_headers_def map_sql_update_id)
qed

text \<open>Every event of a row marked sent is on the bus.\<close>

definition sent_published :: "('k \<Rightarrow> message list) \<Rightarrow> db \<Rightarrow> 'k \<Rightarrow> bool" where
  "sent_published written d k \<longleftrightarrow> (\<forall>x \<in> set (sent_rows d). row_event x \<in> set (map event_of (written k)))"

lemma sent_rows_append:
  "outbox d' = outbox d @ [ob] \<Longrightarrow> ob_sent_at ob = None \<Longrightarrow> sent_rows d' = sent_rows d"
  by (simp add: sent_rows_def)

lemma db_effect_sent_rows:
  assumes "db_effect C d d'"
  shows "sent_rows d' = sent_rows d"
  using assms
proof (induction rule: db_effect.induct)
  case (rider_added e x d y d')
  then show ?case by (elim insert_rider_Inr) (simp add: sent_rows_def)
qed (auto simp: placement_def status_change_def claim_def cancellation_def rider_update_def eta_written_def sent_rows_def)

definition system_inv :: "codec \<Rightarrow> ('k \<Rightarrow> message list) \<Rightarrow> ('g, 'k) system \<Rightarrow> bool" where
  "system_inv C written s \<longleftrightarrow> wf_db (sys_db s) \<and> orders_announced C (sys_db s)
     \<and> sent_published written (sys_db s) (sys_bus s)"


lemma sent_published_mono:
  assumes "sent_published written d k" "sent_rows d' = sent_rows d"
    "map event_of (written k') = map event_of (written k) @ L"
  shows "sent_published written d' k'"
  using assms unfolding sent_published_def by (metis UnCI set_append)

text \<open>Every step is an effect on the database with a growing bus, or a dispatch of the relay.\<close>

locale delivery = codec_laws C + kafka_writer wr written
  for C and wr :: "'k writer" and written +
  fixes G :: "'g geo_client"
begin

lemma step_cases:
  assumes "delivery_step C G wr stale s s'"
  obtains (service) L where "db_effect C (sys_db s) (sys_db s')"
      "map event_of (written (sys_bus s')) = map event_of (written (sys_bus s)) @ L"
  | (relayed) e locked n pctx now r where
      "dispatch e locked n pctx (PublishRaw wr now) (sys_db s, sys_bus s) = (r, sys_db s', sys_bus s')"
  using assms
proof (cases rule: delivery_step.cases)
  case (place e now tc req r d' m')
  show thesis
    by (rule service [of "[]"], use place(2) in \<open>cases rule: Place_cases\<close>)
      (auto simp: place(1) intro: db_effect.intros)
next
  case (transition d0 v i to r d' m')
  show thesis
    by (rule service [of "[]"], use transition(3) in \<open>cases rule: Transition_cases\<close>)
      (auto simp: transition(1) intro: db_effect.intros)
next
  case (claim e now tc oid rid b d')
  show thesis
    by (rule service [of "[]"], use claim(2) in \<open>cases rule: claimRider_cases\<close>)
      (auto simp: claim(1) intro: db_effect.intros)
next
  case (unassigned e now tc oid u d')
  show thesis
    by (rule service [of "[]"], use unassigned(2) in \<open>cases rule: markCancelled_cases\<close>)
      (auto simp: unassigned(1) intro: db_effect.intros)
next
  case (register e rq x d')
  show thesis by (rule service [of "[]"]) (use Register_effect register in auto)
next
  case (shift ew er i sq x d' g')
  show thesis by (rule service [of "[]"]) (use SetStatus_effect shift in auto)
next
  case (unindex name v' g')
  show thesis by (rule service [of "[]"]) (use unindex in \<open>auto intro: db_effect.same\<close>)
next
  case (locate now tc rid lat lng ts o' g' k')
  then obtain L where "map event_of (written k') = map event_of (written (sys_bus s)) @ L"
    using UpdateLocation_bus [OF locate(2)] by blast
  then show thesis by (intro service [of L]) (use locate in \<open>auto intro: db_effect.same\<close>)
next
  case (estimate v evt o' d' k')
  then obtain L where "map event_of (written k') = map event_of (written (sys_bus s)) @ L"
    using OnLocation_bus [OF estimate(2)] by blast
  then show thesis by (intro service [of L]) (use estimate OnLocation_effect in auto)
next
  case (relay e locked n pctx now o' d' k')
  show thesis by (rule relayed) (use relay in simp)
qed

end


section \<open>How an order's status and trail move\<close>

definition status_of :: "uuid \<Rightarrow> db \<Rightarrow> Status option" where
  "status_of i d = map_option order_Status (order_by_id i d)"

text \<open>
  The moves of one order when no status change acts on a stale read: nothing, its placement, a
  legal transition with its audit event, and the cancellation by the assignment service, which
  leaves no audit event.
\<close>

inductive legal_move :: "uuid \<Rightarrow> db \<Rightarrow> db \<Rightarrow> bool" for i d d' where
  unmoved: "status_of i d' = status_of i d \<Longrightarrow> status_history i d' = status_history i d \<Longrightarrow> legal_move i d d'"
| placed: "status_of i d = None \<Longrightarrow> status_of i d' = Some StatusPlaced \<Longrightarrow>
     status_history i d' = status_history i d @ [StatusPlaced] \<Longrightarrow> legal_move i d d'"
| dropped: "status_of i d = Some StatusPlaced \<Longrightarrow> status_of i d' = Some StatusCancelled \<Longrightarrow>
     status_history i d' = status_history i d \<Longrightarrow> legal_move i d d'"
| moved: "status_of i d = Some a \<Longrightarrow> status_of i d' = Some b \<Longrightarrow> ValidateTransition a b = None \<Longrightarrow>
     status_history i d' = status_history i d @ [b] \<Longrightarrow> legal_move i d d'"

definition trail_ok :: "uuid \<Rightarrow> db \<Rightarrow> bool" where
  "trail_ok i d \<longleftrightarrow>
     (case status_of i d of
        None \<Rightarrow> status_history i d = []
      | Some st \<Rightarrow> legal_history (status_history i d) \<and> status_history i d \<noteq> []
          \<and> (st = last (status_history i d) \<or> st = StatusCancelled \<and> last (status_history i d) = StatusPlaced))"

lemma Validate_from_cancelled: "ValidateTransition StatusCancelled t \<noteq> None"
  by (simp add: ValidateTransition_def validTransitions_def status_defs)

lemma StatusPlaced_not_Cancelled: "StatusPlaced \<noteq> StatusCancelled"
  by (simp add: status_defs)

lemma legal_move_trail: "legal_move i d d' \<Longrightarrow> trail_ok i d \<Longrightarrow> trail_ok i d'"
proof (induction rule: legal_move.induct)
  case unmoved
  then show ?case by (simp add: trail_ok_def split: option.splits)
next
  case placed
  then show ?case by (simp add: trail_ok_def validTransitions_def)
next
  case dropped
  then show ?case using StatusPlaced_not_Cancelled by (simp add: trail_ok_def)
next
  case (moved a b)
  then have "a \<noteq> StatusCancelled" using Validate_from_cancelled by metis
  with moved have "a = last (status_history i d)" by (simp add: trail_ok_def)
  with moved show ?case using legal_history_snoc [of "status_history i d" b] by (simp add: trail_ok_def)
qed

lemma legal_move_lifecycle:
  assumes "legal_move i d d'" "status_of i d = Some (status_text a)"
  shows "\<exists>b. status_of i d' = Some (status_text b) \<and> lifecycle\<^sup>*\<^sup>* a b"
  using assms
proof (cases rule: legal_move.cases)
  case unmoved
  with assms(2) show ?thesis by (intro exI [of _ a]) simp
next
  case placed
  with assms(2) show ?thesis by simp
next
  case dropped
  with assms(2) have "a = Placed" by (metis option.inject status_text.simps(1) status_text_inj)
  moreover have "lifecycle Placed Cancelled" by simp
  ultimately show ?thesis using dropped(2) by (intro exI [of _ Cancelled]) (simp add: r_into_rtranclp)
next
  case (moved a' b')
  then obtain c b where cb: "a' = status_text c" "b' = status_text b" "lifecycle c b"
    by (metis ValidateTransition_iff)
  with moved(1) assms(2) have "c = a" by (metis option.inject status_text_inj)
  with moved(2) cb show ?thesis by (intro exI [of _ b]) (simp add: r_into_rtranclp)
qed

lemma legal_move_same:
  assumes "orders d' = orders d" "order_events d' = order_events d"
  shows "legal_move i d d'"
  by (rule legal_move.unmoved) (simp_all add: status_of_def order_by_id_def status_history_def assms)

lemma placement_move: "placement C now req x d d' \<Longrightarrow> legal_move i d d'"
proof (cases "i = order_ID x")
  case True
  assume p: "placement C now req x d d'"
  with True have "order_by_id i d = None" by (auto simp: placement_def)
  with True show ?thesis
    using placement_view [OF p, of i] placement_history [OF p, of i] placement_status [OF p]
    by (intro legal_move.placed) (simp_all add: status_of_def)
next
  case False
  assume p: "placement C now req x d d'"
  with False show ?thesis
    using placement_view [OF p, of i] placement_history [OF p, of i]
    by (intro legal_move.unmoved) (simp_all add: status_of_def)
qed

lemma claim_move: "claim C now oid rid d d' \<Longrightarrow> legal_move i d d'"
proof -
  assume cl: "claim C now oid rid d d'"
  then obtain ev where ev: "order_events d' = order_events d @ [ev]" "ev_event_type ev = ''order.assigned''"
    unfolding claim_def by (elim conjE exE) simp
  have "status_of i d' = status_of i d"
    using claim_order [OF cl] by (auto simp: status_of_def option.map_comp comp_def)
  moreover have "status_history i d' = status_history i d"
    using status_history_snoc [OF ev(1)] ev(2) by (simp add: status_of_event_def)
  ultimately show ?thesis by (rule legal_move.unmoved)
qed

lemma cancellation_move: "cancellation C now oid d d' \<Longrightarrow> wf_db d \<Longrightarrow> legal_move i d d'"
proof -
  assume ca: "cancellation C now oid d d'" and wf: "wf_db d"
  obtain t x where x: "order_by_id oid d = Some x" "order_Status x = ''PLACED''"
      "order_by_id oid d' = Some (x\<lparr>order_Status := ''CANCELLED'', order_UpdatedAt := t\<rparr>)"
      "\<forall>j. j \<noteq> oid \<longrightarrow> order_by_id j d' = order_by_id j d"
    using cancellation_order [OF ca wf] by blast
  have h: "status_history i d' = status_history i d"
    using ca unfolding cancellation_def by (elim conjE exE) (simp add: status_history_def)
  show ?thesis
  proof (cases "i = oid")
    case True
    with x h show ?thesis
      by (intro legal_move.dropped) (simp_all add: status_of_def StatusPlaced_def StatusCancelled_def)
  next
    case False
    with x h show ?thesis by (intro legal_move.unmoved) (simp_all add: status_of_def)
  qed
qed

lemma eta_move: "eta_written j mins d d' \<Longrightarrow> legal_move i d d'"
proof -
  assume e: "eta_written j mins d d'"
  have "status_of i d' = status_of i d"
    using eta_written_order [OF e] by (auto simp: status_of_def option.map_comp comp_def)
  moreover have "status_history i d' = status_history i d"
    by (rule status_history_cong) (use e in \<open>auto simp: eta_written_def\<close>)
  ultimately show ?thesis by (intro legal_move.unmoved)
qed

lemma status_change_move:
  assumes "status_change C now j to d d'" "order_by_id j d = Some y" "ValidateTransition (order_Status y) to = None"
  shows "legal_move i d d'"
proof -
  note h = status_change_history [OF assms(1), of i]
  show ?thesis
  proof (cases "i = j")
    case True
    then have "status_of i d' = Some to" "status_of i d = Some (order_Status y)"
      using status_change_view [OF assms(1)] assms(2) by (auto simp: status_of_def)
    with True h assms(3) show ?thesis by (intro legal_move.moved) simp_all
  next
    case False
    then have "order_by_id i d' = order_by_id i d" using status_change_view [OF assms(1)] by auto
    with False h show ?thesis by (intro legal_move.unmoved) (simp_all add: status_of_def)
  qed
qed


context delivery
begin

lemma step_inv:
  assumes "delivery_step C G wr stale s s'" "system_inv C written s"
  shows "system_inv C written s' \<and> prefix (order_events (sys_db s)) (order_events (sys_db s'))
     \<and> prefix (map event_of (written (sys_bus s))) (map event_of (written (sys_bus s')))"
  using assms(1)
proof (cases rule: step_cases)
  case (service L)
  note inv = assms(2) [unfolded system_inv_def]
  have "sent_published written (sys_db s') (sys_bus s')"
    by (rule sent_published_mono [where d = "sys_db s" and k = "sys_bus s" and L = L])
      (use inv service db_effect_sent_rows in auto)
  with inv service show ?thesis
    using db_effect_wf [OF service(1)] db_effect_announced [OF service(1)] db_effect_events [OF service(1)]
    by (simp add: system_inv_def)
next
  case (relayed e locked n pctx now r)
  note inv = assms(2) [unfolded system_inv_def sent_published_def]
  obtain ids where d': "sys_db s' = mark_sent (pg_now e) ids (sys_db s)" using dispatch_db [OF relayed] by blast
  obtain L where L: "map event_of (written (sys_bus s')) = map event_of (written (sys_bus s)) @ L"
    using dispatch_bus [OF relayed] by blast
  have "sent_published written (sys_db s') (sys_bus s')"
    unfolding sent_published_def using producer.dispatch_no_loss [OF relayed] inv by blast
  moreover have "orders_announced C (sys_db s')"
    using inv unfolding d' by (simp add: orders_announced_def)
  ultimately show ?thesis
    using inv L by (simp add: system_inv_def d' mark_sent_wf)
qed

lemma run_inv:
  "(delivery_step C G wr stale)\<^sup>*\<^sup>* s s' \<Longrightarrow> system_inv C written s \<Longrightarrow>
     system_inv C written s' \<and> prefix (order_events (sys_db s)) (order_events (sys_db s'))
     \<and> prefix (map event_of (written (sys_bus s))) (map event_of (written (sys_bus s')))"
proof (induction rule: rtranclp_induct)
  case (step t u)
  then show ?case using step_inv [OF step(2)] by (meson prefix_order.trans)
qed simp

lemma step_move:
  assumes "delivery_step C G wr (=) s s'" "wf_db (sys_db s)"
  shows "legal_move i (sys_db s) (sys_db s')"
  using assms(1)
proof (cases rule: delivery_step.cases)
  case (place e now tc req r d' m')
  have "legal_move i (sys_db s) d'"
    by (use place(2) in \<open>cases rule: Place_cases\<close>) (auto intro: placement_move legal_move_same)
  then show ?thesis by (simp add: place(1))
next
  case (transition d0 v j to r d' m')
  have "legal_move i (sys_db s) d'"
    by (use transition(3) in \<open>cases rule: Transition_cases\<close>)
      (use transition(2) in \<open>auto intro: status_change_move legal_move_same\<close>)
  then show ?thesis by (simp add: transition(1))
next
  case (claim e now tc oid rid b d')
  have "legal_move i (sys_db s) d'"
    by (use claim(2) in \<open>cases rule: claimRider_cases\<close>) (auto intro: claim_move legal_move_same)
  then show ?thesis by (simp add: claim(1))
next
  case (unassigned e now tc oid u d')
  have "legal_move i (sys_db s) d'"
    by (use unassigned(2) in \<open>cases rule: markCancelled_cases\<close>)
      (auto intro: cancellation_move [OF _ assms(2)] legal_move_same)
  then show ?thesis by (simp add: unassigned(1))
next
  case (register e rq x d')
  then have "d' = sys_db s \<or> (\<exists>e x y. insert_rider e x (sys_db s) = Inr (y, d'))"
    by (auto simp: rider_Register_def rider_Create_def elim: autocommit_cases split: if_splits sum.splits prod.splits)
  then have "orders d' = orders (sys_db s) \<and> order_events d' = order_events (sys_db s)"
    by (auto elim: insert_rider_Inr)
  then show ?thesis by (simp add: register(1) legal_move_same)
next
  case (shift ew er j sq x d' g')
  from SetStatus_riders [OF shift(2)] show ?thesis by (simp add: shift(1) legal_move_same)
next
  case (unindex name v' g')
  then show ?thesis by (simp add: legal_move_same)
next
  case (locate now tc rid lat lng ts o' g' k')
  then show ?thesis by (simp add: legal_move_same)
next
  case (estimate v evt o' d' k')
  have "legal_move i (sys_db s) d'"
    by (use estimate(2) in \<open>cases rule: OnLocation_cases\<close>) (auto intro: eta_move legal_move_same)
  then show ?thesis by (simp add: estimate(1))
next
  case (relay e locked n pctx now o' d' k')
  obtain ids where "d' = mark_sent (pg_now e) ids (sys_db s)" using dispatch_db [OF relay(2)] by blast
  then show ?thesis by (simp add: relay(1) legal_move_same)
qed

end

interpretation brokered: delivery canonical_codec broker_write b_log "list_geo mtr" for mtr
  by unfold_locales

context delivery
begin

lemma run_move:
  assumes "(delivery_step C G wr (=))\<^sup>*\<^sup>* s s'" "system_inv C written s"
  shows "(legal_move i)\<^sup>*\<^sup>* (sys_db s) (sys_db s')"
  using assms
proof (induction rule: rtranclp_induct)
  case (step t u)
  from run_inv [OF step(1,4)] have "wf_db (sys_db t)" by (simp add: system_inv_def)
  with step show ?case using step_move by (metis rtranclp.rtrancl_into_rtrancl)
qed simp

end

lemma legal_moves_trail: "(legal_move i)\<^sup>*\<^sup>* d d' \<Longrightarrow> trail_ok i d \<Longrightarrow> trail_ok i d'"
  by (induction rule: rtranclp_induct) (auto intro: legal_move_trail)

lemma legal_moves_lifecycle:
  "(legal_move i)\<^sup>*\<^sup>* d d' \<Longrightarrow> status_of i d = Some (status_text a) \<Longrightarrow>
     \<exists>b. status_of i d' = Some (status_text b) \<and> lifecycle\<^sup>*\<^sup>* a b"
proof (induction rule: rtranclp_induct)
  case base
  then show ?case by blast
next
  case (step y z)
  then obtain b where b: "status_of i y = Some (status_text b)" "lifecycle\<^sup>*\<^sup>* a b" by blast
  with legal_move_lifecycle [OF step(2)] show ?case by (meson rtranclp_trans)
qed

lemma lifecycle_final: "lifecycle\<^sup>*\<^sup>* a b \<Longrightarrow> a = Delivered \<or> a = Cancelled \<Longrightarrow> b = a"
  by (induction rule: rtranclp_induct) auto

definition empty_system :: "'g \<Rightarrow> 'k \<Rightarrow> ('g, 'k) system" where
  "empty_system g k = \<lparr>sys_db = empty_db, sys_geo = g, sys_bus = k, sys_metrics = no_metrics\<rparr>"

lemma empty_system_inv: "system_inv C written (empty_system g k)"
  using wf_empty_db
  by (simp add: system_inv_def empty_system_def orders_announced_def sent_published_def sent_rows_def empty_db_def)

lemma trail_ok_empty: "trail_ok i empty_db"
  by (simp add: trail_ok_def status_of_def order_by_id_def empty_db_def status_history_def)

lemma announced_row:
  assumes "orders_announced C d" "x \<in> set (orders d)"
  shows "\<exists>r b. r \<in> set (unsent d) \<union> set (sent_rows d)
     \<and> row_event r = (TopicOrderPlaced, uuid_String C (order_ID x), b)"
proof -
  from assms obtain r where "r \<in> set (outbox d)" "ob_topic r = TopicOrderPlaced"
      "ob_partition_key r = uuid_String C (order_ID x)"
    by (auto simp: orders_announced_def outbox_headers_def)
  then show ?thesis
    by (intro exI [of _ r] exI [of _ "ob_payload r"]) (auto simp: unsent_def sent_rows_def row_event_def)
qed

section \<open>Example systems\<close>

definition placed_system :: "(geo_entry list, broker) system" where
  "placed_system =
     (case order_Place canonical_codec example_env 3 [] example_request (empty_db, no_metrics) of
        (r, d', m') \<Rightarrow>
          (empty_system [] \<lparr>b_log = [], b_script = []\<rparr>)\<lparr>sys_db := d', sys_metrics := m'\<rparr>)"

lemma placed_system_run:
  "(delivery_step canonical_codec (list_geo mtr) broker_write stale)\<^sup>*\<^sup>*
     (empty_system [] \<lparr>b_log = [], b_script = []\<rparr>) placed_system"
proof (rule r_into_rtranclp)
  obtain r d' m' where p: "order_Place canonical_codec example_env 3 [] example_request (empty_db, no_metrics) = (r, d', m')"
    by (metis prod_cases3)
  show "delivery_step canonical_codec (list_geo mtr) broker_write stale
     (empty_system [] \<lparr>b_log = [], b_script = []\<rparr>) placed_system"
    unfolding placed_system_def p prod.case
    by (rule delivery_step.place) (use p in \<open>simp add: empty_system_def\<close>)
qed

lemma placed_system_order:
  "\<exists>y. order_by_id (order_ID y) (sys_db placed_system) = Some y \<and> order_Status y = StatusPlaced
     \<and> y \<in> set (orders (sys_db placed_system))"
proof -
  have "numeric_10_2 (req_TotalAmount example_request) \<noteq> None" "order_by_id (pg_uuid example_env) empty_db = None"
    by (simp_all add: example_request_def numeric_10_2_def Let_def order_by_id_def empty_db_def)
  then obtain x d' m' where p: "order_Place canonical_codec example_env 3 [] example_request (empty_db, no_metrics)
      = (Inr x, d', m')" "placement canonical_codec 3 example_request x empty_db d'"
    using canonical.Place_clean [OF example_clean(1) example_request_valid] by blast
  let ?y = "x\<lparr>order_TotalAmount := the (numeric_10_2 (req_TotalAmount example_request))\<rparr>"
  have "order_by_id (order_ID ?y) d' = Some ?y" using placement_view [OF p(2)] by simp
  moreover have "?y \<in> set (orders d')" using p(2) by (auto simp: placement_def)
  ultimately show ?thesis
    using placement_status [OF p(2)] by (intro exI [of _ ?y]) (simp add: placed_system_def p(1))
qed

lemma placed_system_bus: "sys_bus placed_system = \<lparr>b_log = [], b_script = []\<rparr>"
  by (simp add: placed_system_def empty_system_def split: prod.splits)

lemma placed_system_outbox: "length (outbox (sys_db placed_system)) \<le> 1"
proof -
  obtain r d' m' where p: "order_Place canonical_codec example_env 3 [] example_request (empty_db, no_metrics) = (r, d', m')"
    by (metis prod_cases3)
  then have "length (outbox d') \<le> 1"
    by (cases rule: canonical.Place_cases) (auto simp: placement_def empty_db_def)
  then show ?thesis by (simp add: placed_system_def p)
qed

section \<open>Properties\<close>

text \<open>
  C1: the services together keep the system consistent: however their transactions interleave, even when
  status changes act on stale reads, the database keeps its schema's constraints, every order has
  its \<^verbatim>\<open>order.placed\<close> event in the outbox, every outbox row marked sent has been published, the audit
  log only grows and nothing that was published is taken back.
\<close>

theorem interleavings_keep_system_consistent:
  assumes "codec_laws C" and "kafka_writer wr written"
    and "(delivery_step C G wr stale)\<^sup>*\<^sup>* s s'" and "system_inv C written s"
  shows "system_inv C written s'
     \<and> prefix (order_events (sys_db s)) (order_events (sys_db s'))
     \<and> prefix (map event_of (written (sys_bus s))) (map event_of (written (sys_bus s')))"
  by (rule delivery.run_inv [OF delivery.intro [OF assms(1,2)] assms(3,4)])

theorem interleavings_keep_system_consistent_witness:
  "system_inv canonical_codec b_log placed_system"
  using interleavings_keep_system_consistent [OF canonical.codec_laws_axioms broker.kafka_writer_axioms
      placed_system_run empty_system_inv] by blast

text \<open>
  C6: the audit trail stays legal across services: when each status change acts on the database it
  read, the recorded trail of every order remains a legal history that ends in the order's status;
  the one exception is an order the assignment service cancelled, whose trail still ends in PLACED.
\<close>

theorem interleavings_keep_audit_trail:
  assumes "codec_laws C" and "kafka_writer wr written"
    and "(delivery_step C G wr (=))\<^sup>*\<^sup>* s s'" and "system_inv C written s" and "trail_ok i (sys_db s)"
  shows "trail_ok i (sys_db s')"
  by (rule legal_moves_trail [OF delivery.run_move [OF delivery.intro [OF assms(1,2)] assms(3,4)] assms(5)])

theorem interleavings_keep_audit_trail_witness:
  "trail_ok 7 (sys_db placed_system)"
  using interleavings_keep_audit_trail [OF canonical.codec_laws_axioms broker.kafka_writer_axioms
      placed_system_run empty_system_inv] trail_ok_empty
  by (simp add: empty_system_def)

text \<open>
  C2: the system refines the order lifecycle: when each status change acts on the database it read, the
  stored status of an order only moves along lifecycle steps whatever services act on it, the order
  never disappears, and once it is DELIVERED or CANCELLED its status is final.
\<close>

theorem interleavings_refine_lifecycle:
  assumes "codec_laws C" and "kafka_writer wr written"
    and "(delivery_step C G wr (=))\<^sup>*\<^sup>* s s'" and "system_inv C written s"
    and "status_of i (sys_db s) = Some (status_text a)"
  shows "\<exists>b. status_of i (sys_db s') = Some (status_text b) \<and> lifecycle\<^sup>*\<^sup>* a b
     \<and> (a = Delivered \<or> a = Cancelled \<longrightarrow> b = a)"
  using legal_moves_lifecycle [OF delivery.run_move [OF delivery.intro [OF assms(1,2)] assms(3,4)] assms(5)]
    lifecycle_final by blast

theorem interleavings_refine_lifecycle_witness:
  "\<exists>i s' b. status_of i (sys_db placed_system) = Some (status_text Placed)
     \<and> delivery_step canonical_codec (list_geo (\<lambda>_ _ _ _. 0)) broker_write (=) placed_system s'
     \<and> status_of i (sys_db s') = Some (status_text b) \<and> lifecycle\<^sup>*\<^sup>* Placed b"
proof -
  let ?R = "delivery_step canonical_codec (list_geo (\<lambda>_ _ _ _. 0)) broker_write (=)"
  obtain y where y: "order_by_id (order_ID y) (sys_db placed_system) = Some y" "order_Status y = StatusPlaced"
    using placed_system_order by blast
  then have st: "status_of (order_ID y) (sys_db placed_system) = Some (status_text Placed)"
    by (simp add: status_of_def)
  obtain r d' m' where t: "Transition canonical_codec example_call (order_ID y) StatusAccepted (sys_db placed_system)
      (sys_db placed_system, sys_metrics placed_system) = (r, d', m')" by (metis prod_cases3)
  from delivery_step.transition [OF refl t] have step: "?R placed_system (placed_system\<lparr>sys_db := d', sys_metrics := m'\<rparr>)" .
  have inv: "system_inv canonical_codec b_log placed_system"
    using brokered.run_inv [OF placed_system_run empty_system_inv] by blast
  have "?R\<^sup>*\<^sup>* placed_system (placed_system\<lparr>sys_db := d', sys_metrics := m'\<rparr>)" using step by (rule r_into_rtranclp)
  from interleavings_refine_lifecycle [OF canonical.codec_laws_axioms broker.kafka_writer_axioms this inv st] st step
  show ?thesis by blast
qed

text \<open>
  C3: every placed order is announced: in any state the services can reach, once the relay gets enough
  ticks in which Postgres, Kafka and the locks do not interfere, each stored order has an
  \<^verbatim>\<open>order.placed\<close> event on the bus, keyed by its id.
\<close>

theorem placed_orders_get_announced:
  assumes "codec_laws C" and "kafka_writer wr written"
    and "(delivery_step C G wr stale)\<^sup>*\<^sup>* (empty_system g0 k0) s"
    and "\<And>tc t key b k. up k \<Longrightarrow> \<exists>k'. PublishRaw wr now tc t key b k = (None, k') \<and> up k'" and "up (sys_bus s)"
    and "list_all clean_tick ticks" and "length (unsent (sys_db s)) \<le> relay_batchSize * length ticks"
    and "relay_Run pctx (PublishRaw wr now) ticks (sys_db s, sys_bus s) = (d', k')"
  shows "\<forall>x \<in> set (orders (sys_db s)).
     \<exists>b. (TopicOrderPlaced, uuid_String C (order_ID x), b) \<in> set (map event_of (written k'))"
proof
  fix x assume x: "x \<in> set (orders (sys_db s))"
  have s: "system_inv C written s"
    using delivery.run_inv [OF delivery.intro [OF assms(1,2)] assms(3) empty_system_inv] by blast
  then have wf: "wf_db (sys_db s)" by (simp add: system_inv_def)
  have pub: "publisher (PublishRaw wr now) (\<lambda>k. map event_of (written k))"
    by (rule kafka_writer.is_publisher [OF assms(2)])
  have bus: "map event_of (written k') = map event_of (written (sys_bus s)) @ map row_event (unsent (sys_db s))"
    using publisher.relay_Run_clean [where up = up, OF pub wf assms(6,4,5,8)] assms(7) by simp
  obtain r b where r: "r \<in> set (unsent (sys_db s)) \<union> set (sent_rows (sys_db s))"
      "row_event r = (TopicOrderPlaced, uuid_String C (order_ID x), b)"
    using announced_row x s by (metis system_inv_def)
  have "row_event r \<in> set (map event_of (written k'))"
    using r(1) s unfolding bus by (auto simp: system_inv_def sent_published_def)
  then show "\<exists>b. (TopicOrderPlaced, uuid_String C (order_ID x), b) \<in> set (map event_of (written k'))"
    using r(2) by auto
qed

theorem placed_orders_get_announced_witness:
  "\<exists>x b. x \<in> set (orders (sys_db placed_system)) \<and> (TopicOrderPlaced, uuid_String canonical_codec (order_ID x), b)
     \<in> set (map event_of (b_log (snd (relay_Run (\<lambda>_. []) (PublishRaw broker_write 0)
          [\<lparr>tick_env = example_env, tick_locked = (\<lambda>_. False)\<rparr>] (sys_db placed_system, sys_bus placed_system)))))"
proof -
  let ?ticks = "[\<lparr>tick_env = example_env, tick_locked = (\<lambda>_. False)\<rparr>]"
  let ?run = "relay_Run (\<lambda>_. []) (PublishRaw broker_write 0) ?ticks (sys_db placed_system, sys_bus placed_system)"
  have "\<forall>x \<in> set (orders (sys_db placed_system)).
      \<exists>b. (TopicOrderPlaced, uuid_String canonical_codec (order_ID x), b) \<in> set (map event_of (b_log (snd ?run)))"
  proof (rule placed_orders_get_announced [where up = "\<lambda>b. b_script b = []" and stale = "(=)" and
        G = "list_geo (\<lambda>_ _ _ _. 0)" and d' = "fst ?run",
        OF canonical.codec_laws_axioms broker.kafka_writer_axioms placed_system_run])
    show "\<exists>k'. PublishRaw broker_write 0 tc t key b k = (None, k') \<and> b_script k' = []" if "b_script k = []"
      for tc t key b k
      using that by (simp add: PublishRaw_def broker_write_def Let_def)
    show "length (unsent (sys_db placed_system)) \<le> relay_batchSize * length ?ticks"
      using placed_system_outbox by (simp add: unsent_def relay_batchSize_def le_trans [OF length_filter_le])
  qed (simp_all add: placed_system_bus clean_tick_def example_env_def)
  then show ?thesis using placed_system_order by blast
qed

end
