(* ===== verification/Service_Apis.thy ===== *)
theory Service_Apis
  imports Order_Api Delivery_System
begin

text \<open>
  The HTTP interfaces of the rider, location and notification services as their \<^verbatim>\<open>main.go\<close> put them
  together: the metrics middleware around the router, with the health and metrics pages and the
  service's own routes.  The router library is the parameter \<open>chi\<close> of \<open>Order_Api\<close>.  A WebSocket
  session takes the connection over, so that nothing is written through the recorded writer; what the
  upgrader answers when it refuses is the parameter \<open>up_code\<close>.
\<close>

section \<open>Routes\<close>

definition ops_routes :: "(string \<times> string \<times> endpoint) list" where
  "ops_routes = [(''GET'', ''/healthz'', Healthz), (''*'', ''/metrics'', MetricsPage)]"

datatype rider_endpoint = RegisterRider | SetRiderStatus | ActiveOrderOf

definition rider_Routes :: "(string \<times> string \<times> rider_endpoint) list" where
  "rider_Routes =
     [(''POST'', ''/api/v1/riders/'', RegisterRider),
      (''PATCH'', ''/api/v1/riders/{id}/status'', SetRiderStatus),
      (''GET'', ''/api/v1/riders/{id}/orders'', ActiveOrderOf)]"

definition location_Routes :: "(string \<times> string) list" where
  "location_Routes = [(''GET'', ''/ws/rider/{rider_id}'')]"

definition notification_Routes :: "(string \<times> string) list" where
  "notification_Routes = [(''GET'', ''/ws/order/{order_id}'')]"

text \<open>A request ends at a page, at an endpoint of the service with its parameters, or at the router.\<close>

datatype 'e target = OpsPage endpoint string | At 'e "string \<Rightarrow> string" string | Unrouted int

definition find_route :: "chi \<Rightarrow> (string \<times> string \<times> 'e) list \<Rightarrow> http_request \<Rightarrow> 'e target" where
  "find_route chi routes r =
     (case chi (map (\<lambda>(m, p, _). (m, p)) ops_routes @ map (\<lambda>(m, p, _). (m, p)) routes) (hr_Method r) (hr_Path r) of
        Inl code \<Rightarrow> Unrouted code
      | Inr (i, param, pattern) \<Rightarrow>
          if i < length ops_routes then OpsPage (snd (snd (ops_routes ! i))) pattern
          else if i - length ops_routes < length routes
          then At (snd (snd (routes ! (i - length ops_routes)))) param pattern
          else Unrouted 404)"

record edge_env =
  ed_read :: pg_env
  ed_write :: pg_env
  ed_elapsed :: float64
  ed_page :: "metrics \<Rightarrow> json"
  up_code :: int

definition ops_response :: "edge_env \<Rightarrow> endpoint \<Rightarrow> metrics \<Rightarrow> response" where
  "ops_response E ep m = plain_response 200 (case ep of Healthz \<Rightarrow> JStr ''ok'' | _ \<Rightarrow> ed_page E m)"

section \<open>Services\<close>

fun rider_endpoint_handler ::
  "codec \<Rightarrow> 'g geo_client \<Rightarrow> edge_env \<Rightarrow> (string \<Rightarrow> string) \<Rightarrow> rider_endpoint \<Rightarrow> (db \<times> 'g) http_handler" where
  "rider_endpoint_handler C G E param RegisterRider r (d, g) =
     (case handle_register C (ed_write E) (hr_Body r) d of (resp, d') \<Rightarrow> (resp, d', g))"
| "rider_endpoint_handler C G E param SetRiderStatus r (d, g) =
     handle_setStatus C G (ed_write E) (ed_read E) (param ''id'') (hr_Body r) (d, g)"
| "rider_endpoint_handler C G E param ActiveOrderOf r (d, g) =
     (handle_activeOrder C (ed_read E) (param ''id'') d, d, g)"

definition rider_service_HTTP ::
  "codec \<Rightarrow> 'g geo_client \<Rightarrow> chi \<Rightarrow> edge_env \<Rightarrow> (db \<times> 'g \<times> metrics) http_handler" where
  "rider_service_HTTP C G chi E r = (\<lambda>(d, g, m).
     (let (resp, (d', g'), route) =
            (case find_route chi rider_Routes r of
               OpsPage ep pattern \<Rightarrow> (ops_response E ep m, (d, g), pattern)
             | At ep param pattern \<Rightarrow>
                 (case rider_endpoint_handler C G E param ep r (d, g) of (resp, s') \<Rightarrow> (resp, s', pattern))
             | Unrouted code \<Rightarrow> (plain_response code JNull, (d, g), ''''))
      in (resp, d', g', HTTPMiddleware ''rider-service'' (hr_Method r) route (ed_elapsed E) (response_calls resp) m)))"

text \<open>The answer to a request of a service with WebSockets, and what passes the recorded writer.\<close>

datatype answer = Page response | Ws ws_result

fun answer_calls :: "edge_env \<Rightarrow> answer \<Rightarrow> write_call list" where
  "answer_calls E (Page resp) = response_calls resp"
| "answer_calls E (Ws (HttpError code msg)) = [WriteHeader code, WriteBody (JStr msg)]"
| "answer_calls E (Ws UpgradeFailed) = [WriteHeader (up_code E)]"
| "answer_calls E (Ws (Session _)) = []"

definition location_service_HTTP ::
  "codec \<Rightarrow> 'g geo_client \<Rightarrow> 'k writer \<Rightarrow> chi \<Rightarrow> edge_env \<Rightarrow> carrier \<Rightarrow> bool \<Rightarrow> time \<Rightarrow> wire \<Rightarrow> http_request
     \<Rightarrow> 'g \<times> 'k \<times> metrics \<Rightarrow> answer \<times> 'g \<times> 'k \<times> metrics" where
  "location_service_HTTP C G wr chi E tc upgraded opened wire r = (\<lambda>(g, k, m).
     (let (ans, (g', k'), route) =
            (case find_route chi (map (\<lambda>(m, p). (m, p, ())) location_Routes) r of
               OpsPage ep pattern \<Rightarrow> (Page (ops_response E ep m), (g, k), pattern)
             | At _ param pattern \<Rightarrow>
                 (case handle_rider C G wr tc (param ''rider_id'') upgraded opened wire (g, k) of
                    (res, s') \<Rightarrow> (Ws res, s', pattern))
             | Unrouted code \<Rightarrow> (Page (plain_response code JNull), (g, k), ''''))
      in (ans, g', k', HTTPMiddleware ''location-service'' (hr_Method r) route (ed_elapsed E) (answer_calls E ans) m)))"

definition notification_service_HTTP ::
  "codec \<Rightarrow> chi \<Rightarrow> edge_env \<Rightarrow> bool \<Rightarrow> conn \<Rightarrow> time \<Rightarrow> wire \<Rightarrow> (time \<Rightarrow> Hub \<Rightarrow> Hub) \<Rightarrow> http_request \<Rightarrow> Hub \<times> metrics \<Rightarrow> answer \<times> Hub \<times> metrics" where
  "notification_service_HTTP C chi E upgraded c opened wire meanwhile r = (\<lambda>(h, m).
     (let (ans, h', route) =
            (case find_route chi (map (\<lambda>(m, p). (m, p, ())) notification_Routes) r of
               OpsPage ep pattern \<Rightarrow> (Page (ops_response E ep m), h, pattern)
             | At _ param pattern \<Rightarrow>
                 (case handle_order_ws C (param ''order_id'') upgraded c opened wire meanwhile h of (res, h') \<Rightarrow> (Ws res, h', pattern))
             | Unrouted code \<Rightarrow> (Page (plain_response code JNull), h, ''''))
      in (ans, h', HTTPMiddleware ''notification-service'' (hr_Method r) route (ed_elapsed E) (answer_calls E ans) m)))"

section \<open>What a rider request can do\<close>

lemma handle_register_effect: "handle_register C e body d = (resp, d') \<Longrightarrow> db_effect C' d d'"
  by (auto simp: handle_register_def split: sum.splits prod.splits intro: Register_effect db_effect.same)

lemma handle_setStatus_effect: "handle_setStatus C G ew er param body (d, g) = (resp, d', g') \<Longrightarrow> db_effect C d d'"
  by (auto simp: handle_setStatus_def split: option.splits sum.splits prod.splits
      intro: SetStatus_effect db_effect.same)

definition same_orders :: "db \<Rightarrow> db \<Rightarrow> bool" where
  "same_orders d d' \<longleftrightarrow> orders d' = orders d \<and> order_events d' = order_events d \<and> outbox d' = outbox d"

lemma same_orders_refl [simp]: "same_orders d d"
  by (simp add: same_orders_def)

lemma register_same_orders: "handle_register C e body d = (resp, d') \<Longrightarrow> same_orders d d'"
  by (auto simp: handle_register_def rider_Register_def rider_Create_def same_orders_def
      split: sum.splits prod.splits if_splits elim!: autocommit_cases insert_rider_Inr)

lemma setStatus_same_orders:
  assumes "handle_setStatus C G ew er param body (d, g) = (resp, d', g')"
  shows "same_orders d d'"
proof (cases "d' = d")
  case False
  with assms obtain i sq x where up: "rider_SetStatus C G ew er i sq (d, g) = (x, d', g')"
    by (auto simp: handle_setStatus_def split: option.splits sum.splits prod.splits)
  obtain r d1 where r: "rider_repo_SetStatus ew i (set_Status sq) d = (r, d1)" by fastforce
  then have "same_orders d d1" by (cases rule: repo_SetStatus_cases) (auto simp: rider_update_def same_orders_def)
  moreover have "d' = d1" using up r False by (auto simp: rider_SetStatus_def split: option.splits prod.splits if_splits)
  ultimately show ?thesis by simp
qed simp

lemma rider_endpoint_effect:
  assumes "rider_endpoint_handler C G E param ep r (d, g) = (resp, d', g')"
  shows "same_orders d d' \<and> (wf_db d \<longrightarrow> wf_db d')"
proof (cases ep)
  case RegisterRider
  then obtain resp' where h: "handle_register C (ed_write E) (hr_Body r) d = (resp', d')"
    using assms by (auto split: prod.splits)
  show ?thesis using register_same_orders [OF h] db_effect_wf [OF handle_register_effect [OF h]] by blast
next
  case SetRiderStatus
  then have h: "handle_setStatus C G (ed_write E) (ed_read E) (param ''id'') (hr_Body r) (d, g) = (resp, d', g')"
    using assms by simp
  show ?thesis using setStatus_same_orders [OF h] db_effect_wf [OF handle_setStatus_effect [OF h]] by blast
next
  case ActiveOrderOf
  then show ?thesis using assms by simp
qed

text \<open>
  A request to the rider service never touches orders, their audit log or the outbox, keeps the schema's
  constraints, and is counted once under the status sent.
\<close>

lemma rider_service_frame:
  assumes "rider_service_HTTP C G chi E r (d, g, m) = (resp, d', g', m')"
  shows "same_orders d d' \<and> (wf_db d \<longrightarrow> wf_db d')
     \<and> (\<exists>route. m' = HTTPMiddleware ''rider-service'' (hr_Method r) route (ed_elapsed E) (response_calls resp) m)"
proof (cases "find_route chi rider_Routes r")
  case (At ep param pattern)
  with assms show ?thesis
    by (auto simp: rider_service_HTTP_def Let_def split: prod.splits dest: rider_endpoint_effect)
qed (use assms in \<open>auto simp: rider_service_HTTP_def\<close>)

text \<open>A request to the notification service leaves no subscription behind.\<close>

lemma notification_service_hub:
  assumes "notification_service_HTTP C chi E upgraded c opened wire (\<lambda>_. id) r (h, m) = (ans, h', m')" "hub_wf h"
    "\<And>i. c \<notin> subscribers h i"
  shows "h' = h"
  using assms(1) Unregister_Register [OF assms(2,3)]
  by (auto simp: notification_service_HTTP_def handle_order_ws_def Let_def
      split: target.splits option.splits if_splits prod.splits)

end
