(* ===== verification/Order_Flow.thy ===== *)
theory Order_Flow
  imports Delivery_System
begin

text \<open>
  The path of one order through the services when nothing fails: placed at the order service, published
  by the relay, consumed by the assignment service, and then with a rider or cancelled.  The
  lemmas say what the relay leaves alone and what the handler does with a published placement.
\<close>

section \<open>The relay only marks rows\<close>

context kafka_writer
begin

lemma relay_Run_frame:
  "relay_Run pctx (PublishRaw wr now) ticks (d, k) = (d', k') \<Longrightarrow>
     orders d' = orders d \<and> riders d' = riders d \<and> order_events d' = order_events d \<and> (wf_db d \<longrightarrow> wf_db d')"
proof (induction ticks arbitrary: d k)
  case (Cons t ts)
  obtain r d1 k1 where s: "dispatch (tick_env t) (tick_locked t) relay_batchSize pctx (PublishRaw wr now) (d, k) = (r, d1, k1)"
    by (metis prod_cases3)
  obtain ids where "d1 = mark_sent (pg_now (tick_env t)) ids d" using dispatch_db [OF s] by blast
  with Cons.IH [of d1 k1] Cons.prems s show ?case by (auto simp: mark_sent_wf)
qed simp

end

section \<open>A published placement\<close>

lemma placement_row:
  assumes "placement C now req x d d'"
  shows "\<exists>row. unsent d' = unsent d @ [row]
     \<and> row_event row = (TopicOrderPlaced, uuid_String C (order_ID x), placed_event_json C (placed_event_of now x))"
proof -
  from assms obtain amount ev ob where "d' = d\<lparr>orders := orders d @ [x\<lparr>order_TotalAmount := amount\<rparr>],
      order_events := order_events d @ [ev], outbox := outbox d @ [ob]\<rparr>" "ob_sent_at ob = None"
      "row_event ob = (TopicOrderPlaced, uuid_String C (order_ID x), placed_event_json C (placed_event_of now x))"
    unfolding placement_def by blast
  then show ?thesis by (intro exI [of _ ob]) (simp add: unsent_def)
qed

lemma placement_pickup:
  "placement C now req x d d' \<Longrightarrow> order_PickupLat x = req_PickupLat req \<and> order_PickupLng x = req_PickupLng req"
proof -
  assume "placement C now req x d d'"
  then obtain t where "x = (order_of_request req)\<lparr>order_ID := order_ID x, order_CreatedAt := t, order_UpdatedAt := t\<rparr>"
    by (auto simp: placement_def)
  then have "order_PickupLat x = order_PickupLat ((order_of_request req)\<lparr>order_ID := order_ID x,
        order_CreatedAt := t, order_UpdatedAt := t\<rparr>)"
      "order_PickupLng x = order_PickupLng ((order_of_request req)\<lparr>order_ID := order_ID x,
        order_CreatedAt := t, order_UpdatedAt := t\<rparr>)"
    by (rule arg_cong)+
  then show ?thesis by (simp add: order_of_request_def)
qed

definition resolved :: "Order \<Rightarrow> bool" where
  "resolved y \<longleftrightarrow> order_RiderID y \<noteq> None \<or> order_Status y = StatusCancelled"

context codec_laws
begin

lemma Assign_clean:
  assumes "\<And>k. as_others E k = id" "\<And>k. clean_env (as_pg E k)" "nearestAvailableRiders C G lat lng 10 g = Inr cs"
    and "wf_db d" "order_by_id oid d = Some x" "order_Status x = StatusPlaced"
  shows "\<exists>r d' g' m' y. Assign C G E oid lat lng (d, g, m) = (r, d', g', m')
     \<and> (r = None \<or> r = Some ErrNoRiderAvailable) \<and> order_by_id oid d' = Some y \<and> resolved y"
proof (cases "\<exists>q \<in> set cs. rider_available q d")
  case True
  then obtain bs q rest where cs: "cs = bs @ q # rest" "rider_available q d" "\<forall>b \<in> set bs. \<not> rider_available b d"
    using split_list_first_prop [OF True] by blast
  obtain d' now g' m' where a: "Assign C G E oid lat lng (d, g, m) = (None, d', g', m')" "claim C now oid q d d'"
    using Assign_first_available [where G = G and lat = lat and lng = lng and g = g and oid = oid and m = m,
        OF assms(1,2) assms(3) [unfolded cs(1)] cs(3,2)] by blast
  then obtain t where "order_by_id oid d' = Some (x\<lparr>order_RiderID := Some q, order_UpdatedAt := t\<rparr>)"
    using claim_order [OF a(2)] assms(5) by auto
  with a(1) show ?thesis by (auto simp: resolved_def)
next
  case False
  then obtain d' now m' where a: "Assign C G E oid lat lng (d, g, m) = (Some ErrNoRiderAvailable, d', g, m')"
      "cancellation C now oid d d'"
    using Assign_all_unavailable [where G = G and lat = lat and lng = lng and g = g and m = m,
        OF assms(1,2,3) _ assms(5,6)] by blast
  then show ?thesis using cancellation_order [OF a(2) assms(4)] by (auto simp: resolved_def StatusCancelled_def)
qed

lemma Handler_clean:
  assumes "msg_Value msg = placed_event_json C (placed_event_of now x)"
    and "\<And>k. as_others E k = id" "\<And>k. clean_env (as_pg E k)"
    and "nearestAvailableRiders C G (order_PickupLat x) (order_PickupLng x) 10 g = Inr cs"
    and "wf_db d" "order_by_id (order_ID x) d = Some z" "order_Status z = StatusPlaced"
  shows "\<exists>d' g' m' y. assignment_Handler C G E msg (d, g, m) = (None, d', g', m')
     \<and> order_by_id (order_ID x) d' = Some y \<and> resolved y"
proof -
  obtain r d' g' m' y where
    a: "Assign C G E (order_ID x) (order_PickupLat x) (order_PickupLng x) (d, g, m) = (r, d', g', m')"
    and r: "r = None \<or> r = Some ErrNoRiderAvailable" and y: "order_by_id (order_ID x) d' = Some y" "resolved y"
    using Assign_clean [where E = E and G = G and g = g and m = m, OF assms(2-7)] by blast
  have "assignment_Handler C G E msg (d, g, m) = (None, d', g', m')"
    using r a assms(1) by (auto simp: assignment_Handler_def placed_event_decode placed_event_of_def)
  with y show ?thesis by blast
qed

end

section \<open>Properties\<close>

text \<open>
  C4: an order runs through the services: when no call fails and nobody interferes, a valid request is
  placed, the relay's ticks put its \<^verbatim>\<open>order.placed\<close> event on the bus under the order's id, and the
  assignment service, given that message, acknowledges it and leaves the order with a rider or
  cancelled.
\<close>

theorem order_flows_to_resolution:
  assumes "codec_laws C" and "kafka_writer wr written" and "wf_db d"
    and "clean_env e" "validatePlace req = None" "numeric_10_2 (req_TotalAmount req) \<noteq> None"
      "order_by_id (pg_uuid e) d = None"
    and "\<And>tc t key b k. up k \<Longrightarrow> \<exists>k'. PublishRaw wr now' tc t key b k = (None, k') \<and> up k'" "up k"
    and "list_all clean_tick ticks" "length (unsent d) < relay_batchSize * length ticks"
    and "\<And>i. as_others E i = id" "\<And>i. clean_env (as_pg E i)"
    and "nearestAvailableRiders C G (req_PickupLat req) (req_PickupLng req) 10 g = Inr cs"
  shows "\<exists>x d1 m1 d2 k2 msg d3 g3 m3 y.
       order_Place C e now tc req (d, m) = (Inr x, d1, m1)
     \<and> relay_Run pctx (PublishRaw wr now') ticks (d1, k) = (d2, k2)
     \<and> msg \<in> set (written k2) \<and> msg_Topic msg = TopicOrderPlaced \<and> msg_Key msg = uuid_String C (order_ID x)
     \<and> assignment_Handler C G E msg (d2, g, m1) = (None, d3, g3, m3)
     \<and> order_by_id (order_ID x) d3 = Some y \<and> resolved y"
proof -
  obtain x d1 where p: "order_Place C e now tc req (d, m) = (Inr x, d1, IncEvent ''order.placed'' m)"
    and pl: "placement C now req x d d1"
    using codec_laws.Place_clean [OF assms(1,4-7)] by blast
  obtain row where row: "unsent d1 = unsent d @ [row]"
      "row_event row = (TopicOrderPlaced, uuid_String C (order_ID x), placed_event_json C (placed_event_of now x))"
    using placement_row [OF pl] by blast
  have wf1: "wf_db d1" by (rule placement_wf [OF pl assms(3)])
  obtain d2 k2 where run: "relay_Run pctx (PublishRaw wr now') ticks (d1, k) = (d2, k2)" by fastforce
  have "map event_of (written k2) = map event_of (written k) @ map row_event (unsent d1)"
    using publisher.relay_Run_clean [where up = up, OF kafka_writer.is_publisher [OF assms(2)] wf1 assms(10,8,9) run]
      assms(11) row(1) by simp
  then have "row_event row \<in> set (map event_of (written k2))" using row(1) by simp
  then obtain msg where msg: "msg \<in> set (written k2)" "event_of msg = row_event row" by auto
  note frame = kafka_writer.relay_Run_frame [OF assms(2) run]
  have stored: "order_by_id (order_ID x) d2 = Some (x\<lparr>order_TotalAmount := the (numeric_10_2 (req_TotalAmount req))\<rparr>)"
    using placement_view [OF pl, of "order_ID x"] frame by (simp add: order_by_id_def)
  have "\<exists>d3 g3 m3 y. assignment_Handler C G E msg (d2, g, IncEvent ''order.placed'' m) = (None, d3, g3, m3)
      \<and> order_by_id (order_ID x) d3 = Some y \<and> resolved y"
  proof (rule codec_laws.Handler_clean [OF assms(1) _ assms(12,13) _ _ stored])
    show "msg_Value msg = placed_event_json C (placed_event_of now x)" using msg(2) row(2) by (simp add: event_of_def)
    show "nearestAvailableRiders C G (order_PickupLat x) (order_PickupLng x) 10 g = Inr cs"
      using placement_pickup [OF pl] assms(14) by simp
  qed (use frame wf1 placement_status [OF pl] in auto)
  with p run msg row(2) show ?thesis by (auto simp: event_of_def)
qed

theorem order_flows_to_resolution_witness:
  "\<exists>x d1 m1 d2 k2 msg d3 g3 m3 y.
       order_Place canonical_codec example_env 3 [] example_request (empty_db, no_metrics) = (Inr x, d1, m1)
     \<and> relay_Run (\<lambda>_. []) (PublishRaw broker_write 4) [\<lparr>tick_env = example_env, tick_locked = (\<lambda>_. False)\<rparr>]
         (d1, \<lparr>b_log = [], b_script = []\<rparr>) = (d2, k2)
     \<and> msg \<in> set (b_log k2) \<and> msg_Topic msg = TopicOrderPlaced
     \<and> msg_Key msg = uuid_String canonical_codec (order_ID x)
     \<and> assignment_Handler canonical_codec (list_geo (\<lambda>_ _ _ _. 0)) still_env msg (d2, [], m1) = (None, d3, g3, m3)
     \<and> order_by_id (order_ID x) d3 = Some y \<and> resolved y"
proof (rule order_flows_to_resolution [where up = "\<lambda>b. b_script b = []" and cs = "[]",
      OF canonical.codec_laws_axioms broker.kafka_writer_axioms wf_empty_db example_clean(1) example_request_valid])
  show "\<exists>k'. PublishRaw broker_write 4 tc t key b k = (None, k') \<and> b_script k' = []" if "b_script k = []"
    for tc t key b k
    using that by (simp add: PublishRaw_def broker_write_def Let_def)
qed (simp_all add: example_request_def numeric_10_2_def Let_def order_by_id_def empty_db_def clean_tick_def
    example_env_def unsent_def relay_batchSize_def nearestAvailableRiders_def list_geo_def List.map_filter_simps
    still_env_def clean_env_def)

end
