(* ===== verification/Tracing.thy ===== *)
theory Tracing
  imports Order_Flow
begin

text \<open>
  Trace contexts across the asynchronous hops: \<^verbatim>\<open>outbox.Write\<close> stores what the propagator injects for
  the request's context, the relay extracts it again (\<^verbatim>\<open>relay.go\<close>), \<^verbatim>\<open>Producer.PublishRaw\<close> opens a
  span under it and injects that into the message headers, and \<^verbatim>\<open>Consumer.Run\<close> extracts those and opens
  the span the handler runs under.  OpenTelemetry is the parameter \<open>otel\<close>; what the code relies on is
  the locale \<open>otel_laws\<close>.  The property is that a trace survives the whole way, over two services.
\<close>

section \<open>The OpenTelemetry interface\<close>

text \<open>
  \<open>ot_Inject c\<close> is the list of pairs the propagator sets for the context \<open>c\<close>, \<open>ot_Extract c get\<close> the
  context it builds on top of \<open>c\<close> by reading a carrier through \<open>get\<close>, and \<open>ot_Start name c\<close> the context
  with a span of that name started under \<open>c\<close>.
\<close>

record 'c otel =
  ot_Inject :: "'c \<Rightarrow> carrier"
  ot_Extract :: "'c \<Rightarrow> (string \<Rightarrow> string) \<Rightarrow> 'c"
  ot_Start :: "string \<Rightarrow> 'c \<Rightarrow> 'c"

text \<open>\<^verbatim>\<open>propagation.MapCarrier\<close> is a Go map: the last value of a key counts, a missing key reads empty.\<close>

definition MapCarrier_Get :: "carrier \<Rightarrow> string \<Rightarrow> string" where
  "MapCarrier_Get c k = (case map_of (rev c) k of Some v \<Rightarrow> v | None \<Rightarrow> '''')"

section \<open>The hops\<close>

definition relay_context :: "'c otel \<Rightarrow> 'c \<Rightarrow> json option \<Rightarrow> 'c" where
  "relay_context T = publish_context (\<lambda>ctx c. ot_Extract T ctx (MapCarrier_Get c))"

definition PublishRaw_in ::
  "'c otel \<Rightarrow> 'k writer \<Rightarrow> time \<Rightarrow> ('c, 'k) publish" where
  "PublishRaw_in T wr now ctx topic key body k =
     PublishRaw wr now (ot_Inject T (ot_Start T (topic @ '' publish'') ctx)) topic key body k"

definition process_context :: "'c otel \<Rightarrow> 'c \<Rightarrow> message \<Rightarrow> 'c" where
  "process_context T ctx msg =
     ot_Start T (msg_Topic msg @ '' process'') (ot_Extract T ctx (carrier_Get (msg_Headers msg)))"

text \<open>The assignment consumer's handler runs under that context, and so do its outbox writes.\<close>

definition assignment_Handler_in ::
  "'c otel \<Rightarrow> 'c \<Rightarrow> codec \<Rightarrow> 'g geo_client \<Rightarrow> assign_env \<Rightarrow> (db \<times> 'g \<times> metrics) handler" where
  "assignment_Handler_in T ctx C G E msg =
     assignment_Handler C G (E\<lparr>as_trace := ot_Inject T (process_context T ctx msg)\<rparr>) msg"

section \<open>The contract of the propagator\<close>

text \<open>
  A context may belong to a trace.  The propagator sets each key once; extracting from a carrier
  that gives back what was injected restores the trace; a span started under a context belongs to the
  trace of that context (the no-op tracer of a service without tracing keeps the context).
\<close>

locale otel_laws =
  fixes T :: "'c otel" and trace_of :: "'c \<Rightarrow> string option"
  assumes inject_distinct: "distinct (map fst (ot_Inject T c))"
    and extract_injected: "trace_of c = Some t \<Longrightarrow> (\<And>k v. (k, v) \<in> set (ot_Inject T c) \<Longrightarrow> get k = v) \<Longrightarrow>
      trace_of (ot_Extract T ctx get) = Some t"
    and start_child: "trace_of c = Some t \<Longrightarrow> trace_of (ot_Start T name c) = Some t"
begin

lemma stored_trace:
  "trace_of c = Some t \<Longrightarrow> trace_of (relay_context T ctx (Some (json_strings (ot_Inject T c)))) = Some t"
  unfolding relay_context_def publish_context_strings
  by (erule extract_injected)
    (auto simp: MapCarrier_Get_def inject_distinct rev_map [symmetric] map_of_eq_Some_iff split: option.splits)

lemma header_trace:
  assumes "trace_of c = Some t" and "msg_Headers msg = inject_headers (ot_Inject T c) []"
  shows "trace_of (process_context T ctx msg) = Some t"
  unfolding process_context_def assms(2)
  by (intro start_child extract_injected [OF assms(1)])
    (simp add: inject_headers_Get inject_distinct map_of_eq_Some_iff)

end

section \<open>The default propagator\<close>

text \<open>
  \<^verbatim>\<open>telemetry.Init\<close> installs \<^verbatim>\<open>defaultPropagator\<close>, with tracing on or off: the composite of the trace
  context and the baggage propagator.  The two and \<^verbatim>\<open>NewCompositeTextMapPropagator\<close> belong to the library;
  a composite injects what its parts inject and extracts with one part after the other.
\<close>

record 'c propagator =
  pr_Inject :: "'c \<Rightarrow> carrier"
  pr_Extract :: "'c \<Rightarrow> (string \<Rightarrow> string) \<Rightarrow> 'c"

record 'c propagation =
  prop_TraceContext :: "'c propagator"
  prop_Baggage :: "'c propagator"
  prop_NewComposite :: "'c propagator list \<Rightarrow> 'c propagator"

definition defaultPropagator :: "'c propagation \<Rightarrow> 'c propagator" where
  "defaultPropagator L = prop_NewComposite L [prop_TraceContext L, prop_Baggage L]"

definition otel_with :: "'c propagator \<Rightarrow> (string \<Rightarrow> 'c \<Rightarrow> 'c) \<Rightarrow> 'c otel" where
  "otel_with p start = \<lparr>ot_Inject = pr_Inject p, ot_Extract = pr_Extract p, ot_Start = start\<rparr>"

locale propagation_laws =
  fixes L :: "'c propagation" and start :: "string \<Rightarrow> 'c \<Rightarrow> 'c" and trace_of :: "'c \<Rightarrow> string option"
  assumes composite_inject: "pr_Inject (prop_NewComposite L ps) c = concat (map (\<lambda>p. pr_Inject p c) ps)"
    and composite_extract: "pr_Extract (prop_NewComposite L ps) c get = fold (\<lambda>p c. pr_Extract p c get) ps c"
    and trace_keys: "distinct (map fst (pr_Inject (prop_TraceContext L) c))"
      "fst ` set (pr_Inject (prop_TraceContext L) c) \<subseteq> {''traceparent'', ''tracestate''}"
    and baggage_keys: "distinct (map fst (pr_Inject (prop_Baggage L) c))"
      "fst ` set (pr_Inject (prop_Baggage L) c) \<subseteq> {''baggage''}"
    and trace_extract: "trace_of c = Some t \<Longrightarrow> (\<And>k v. (k, v) \<in> set (pr_Inject (prop_TraceContext L) c) \<Longrightarrow> get k = v) \<Longrightarrow>
      trace_of (pr_Extract (prop_TraceContext L) ctx get) = Some t"
    and baggage_extract: "trace_of (pr_Extract (prop_Baggage L) ctx get) = trace_of ctx"
    and start_trace: "trace_of c = Some t \<Longrightarrow> trace_of (start name c) = Some t"

sublocale propagation_laws \<subseteq> default: otel_laws "otel_with (defaultPropagator L) start" trace_of
proof unfold_locales
  fix c
  have "{''traceparent'', ''tracestate''} \<inter> {''baggage''} = {}" by simp
  from Int_mono [OF trace_keys(2) [of c] baggage_keys(2) [of c]]
  have "fst ` set (pr_Inject (prop_TraceContext L) c) \<inter> fst ` set (pr_Inject (prop_Baggage L) c) = {}"
    by (simp only: \<open>_ \<inter> _ = {}\<close> subset_empty)
  then show "distinct (map fst (ot_Inject (otel_with (defaultPropagator L) start) c))"
    using trace_keys(1) baggage_keys(1) by (simp add: otel_with_def defaultPropagator_def composite_inject)
next
  fix c t ctx and get :: "string \<Rightarrow> string"
  assume "trace_of c = Some t"
    and "\<And>k v. (k, v) \<in> set (ot_Inject (otel_with (defaultPropagator L) start) c) \<Longrightarrow> get k = v"
  then show "trace_of (ot_Extract (otel_with (defaultPropagator L) start) ctx get) = Some t"
    by (simp add: otel_with_def defaultPropagator_def composite_inject composite_extract baggage_extract trace_extract)
qed (simp add: otel_with_def start_trace)

section \<open>Rows of a trace\<close>

text \<open>A row carries a trace when it stores what the propagator injects for a context of that trace.  The
  rows of an order are those with its partition key.\<close>

definition row_traced :: "'c otel \<Rightarrow> ('c \<Rightarrow> string option) \<Rightarrow> string \<Rightarrow> outbox_row \<Rightarrow> bool" where
  "row_traced T trace_of t r \<longleftrightarrow>
     (\<exists>c. ob_trace_context r = Some (json_strings (ot_Inject T c)) \<and> trace_of c = Some t)"

definition key_traced :: "'c otel \<Rightarrow> ('c \<Rightarrow> string option) \<Rightarrow> string \<Rightarrow> string \<Rightarrow> db \<Rightarrow> bool" where
  "key_traced T trace_of t key d \<longleftrightarrow>
     (\<forall>r \<in> set (outbox d). ob_partition_key r = key \<longrightarrow> row_traced T trace_of t r)"

text \<open>What the writers of the services do to the outbox: at most one row, with the caller's trace.\<close>

definition adds_traced_row :: "carrier \<Rightarrow> db \<Rightarrow> db \<Rightarrow> bool" where
  "adds_traced_row tc d d' \<longleftrightarrow>
     outbox d' = outbox d \<or> (\<exists>r. outbox d' = outbox d @ [r] \<and> ob_trace_context r = Some (json_strings tc))"

lemma adds_traced_row_refl [simp]: "adds_traced_row tc d d"
  by (simp add: adds_traced_row_def)

lemma adds_traced_row_key:
  assumes "adds_traced_row (ot_Inject T c) d d'" "trace_of c = Some t" "key_traced T trace_of t key d"
  shows "key_traced T trace_of t key d'"
  using assms unfolding adds_traced_row_def key_traced_def by (auto simp: row_traced_def)

lemma run_tx_adds:
  assumes "run_tx e body d = (r, d')" and "\<And>x d'. body d = (Commit x, d') \<Longrightarrow> adds_traced_row tc d d'"
  shows "adds_traced_row tc d d'"
  using assms(1) by (rule run_tx_cases) (auto intro: assms(2))

lemmas row_writers = adds_traced_row_def outbox_Write_def insert_outbox_def insert_order_event_def stmt_def

lemma order_Create_adds: "order_Create C e now tc req d = (r, d') \<Longrightarrow> adds_traced_row tc d d'"
  unfolding order_Create_def
  by (erule run_tx_adds)
    (auto simp: order_create_body_def insert_order_def row_writers Let_def
       split: sum.splits prod.splits if_splits option.splits)

lemma order_UpdateStatus_adds: "order_UpdateStatus C e now tc i to d = (r, d') \<Longrightarrow> adds_traced_row tc d d'"
  unfolding order_UpdateStatus_def
  by (erule run_tx_adds)
    (auto simp: order_update_body_def update_order_status_def row_writers Let_def
       split: sum.splits prod.splits if_splits option.splits)

lemma claimRider_adds: "claimRider C e now tc oid rid d = (r, d') \<Longrightarrow> adds_traced_row tc d d'"
  unfolding claimRider_def
  by (erule run_tx_adds)
    (auto simp: claim_body_def claim_update_riders_def claim_update_orders_def row_writers Let_def
       split: sum.splits prod.splits if_splits option.splits)

lemma markCancelled_adds: "markCancelled C e now tc oid reason d = (r, d') \<Longrightarrow> adds_traced_row tc d d'"
  unfolding markCancelled_def
  by (erule run_tx_adds)
    (auto simp: cancel_body_def cancel_update_orders_def row_writers Let_def
       split: sum.splits prod.splits if_splits option.splits)

lemma order_Place_adds: "order_Place C e now tc req (d, m) = (r, d', m') \<Longrightarrow> adds_traced_row tc d d'"
  by (auto simp: order_Place_def split: option.splits prod.splits sum.splits dest: order_Create_adds)

section \<open>The relay forwards the traces\<close>

lemma key_traced_columns:
  "key_traced T trace_of t key d \<longleftrightarrow>
     (\<forall>(key', tctx) \<in> set (map (\<lambda>r. (ob_partition_key r, ob_trace_context r)) (outbox d)). key' = key \<longrightarrow>
        (\<exists>c. tctx = Some (json_strings (ot_Inject T c)) \<and> trace_of c = Some t))"
  by (auto simp: key_traced_def row_traced_def)

lemma key_traced_mark_sent [simp]:
  "key_traced T trace_of t key (mark_sent now ids d) = key_traced T trace_of t key d"
proof -
  have "map (\<lambda>r. (ob_partition_key r, ob_trace_context r)) (outbox (mark_sent now ids d))
      = map (\<lambda>r. (ob_partition_key r, ob_trace_context r)) (outbox d)"
    by (simp add: mark_sent_def map_sql_update_id)
  then show ?thesis by (simp only: key_traced_columns)
qed

text \<open>A message belongs to a trace when every consumer that takes it up works in that trace.\<close>

definition message_traced :: "'c otel \<Rightarrow> ('c \<Rightarrow> string option) \<Rightarrow> string \<Rightarrow> message \<Rightarrow> bool" where
  "message_traced T trace_of t msg \<longleftrightarrow> (\<forall>ctx. trace_of (process_context T ctx msg) = Some t)"

definition bus_traced :: "'c otel \<Rightarrow> ('c \<Rightarrow> string option) \<Rightarrow> string \<Rightarrow> string \<Rightarrow> message list \<Rightarrow> bool" where
  "bus_traced T trace_of t key msgs \<longleftrightarrow>
     (\<forall>msg \<in> set msgs. msg_Key msg = key \<longrightarrow> message_traced T trace_of t msg)"

locale traced_bus = otel_laws T trace_of + kafka_writer wr written
  for T :: "'c otel" and trace_of and wr :: "'k writer" and written
begin

text \<open>\<open>since n k\<close>: what was written to the bus after its first \<open>n\<close> messages.\<close>

abbreviation since :: "nat \<Rightarrow> 'k \<Rightarrow> message list" where
  "since n k \<equiv> drop n (written k)"

lemma publish_traced:
  assumes "key' = key \<Longrightarrow> trace_of ctx = Some t"
    and "n \<le> length (written k)" "bus_traced T trace_of t key (since n k)"
    and "PublishRaw_in T wr now ctx topic key' body k = (r, k')"
  shows "n \<le> length (written k') \<and> bus_traced T trace_of t key (since n k')"
proof -
  let ?c = "ot_Start T (topic @ '' publish'') ctx"
  let ?m = "\<lparr>msg_Topic = topic, msg_Key = key', msg_Value = body, msg_Time = now,
      msg_Headers = inject_headers (ot_Inject T ?c) [], msg_Offset = 0\<rparr>"
  have w: "wr ?m k = (r, k')" using assms(4) by (simp add: PublishRaw_in_def PublishRaw_def)
  have "written k' = written k \<or> (\<exists>off. written k' = written k @ [?m\<lparr>msg_Offset := off\<rparr>])"
    using w write_ok [of ?m k k'] write_err [of ?m k _ k'] by (cases r) blast+
  moreover have "message_traced T trace_of t (?m\<lparr>msg_Offset := off\<rparr>)" if "key' = key" for off
    unfolding message_traced_def
    by (intro allI header_trace [of ?c] start_child assms(1) that) simp
  ultimately show ?thesis using assms(2,3) by (auto simp: bus_traced_def)
qed

lemma publish_batch_traced:
  assumes "\<And>r. r \<in> set rows \<Longrightarrow> ob_partition_key r = key \<Longrightarrow> row_traced T trace_of t r"
    and "n \<le> length (written k)" "bus_traced T trace_of t key (since n k)"
    and "publish_batch (relay_context T ctx) (PublishRaw_in T wr now) rows k = (x, k')"
  shows "n \<le> length (written k') \<and> bus_traced T trace_of t key (since n k')"
  using assms
proof (induction rows arbitrary: k x k')
  case (Cons it rest)
  obtain v k1 where p: "PublishRaw_in T wr now (relay_context T ctx (ob_trace_context it)) (ob_topic it)
      (ob_partition_key it) (ob_payload it) k = (v, k1)" by fastforce
  have "trace_of (relay_context T ctx (ob_trace_context it)) = Some t" if "ob_partition_key it = key"
    using Cons.prems(1) [of it] that stored_trace by (auto simp: row_traced_def)
  from publish_traced [OF this Cons.prems(2,3) p]
  have step: "n \<le> length (written k1)" "bus_traced T trace_of t key (since n k1)" by auto
  show ?case
  proof (cases v)
    case (Some e)
    with p Cons.prems(4) step show ?thesis by simp
  next
    case None
    obtain y k2 where rest: "publish_batch (relay_context T ctx) (PublishRaw_in T wr now) rest k1 = (y, k2)" by fastforce
    have "n \<le> length (written k2) \<and> bus_traced T trace_of t key (since n k2)"
      using Cons.IH [OF Cons.prems(1) step rest] by simp
    moreover have "k' = k2" using p None rest Cons.prems(4) by (auto split: sum.splits)
    ultimately show ?thesis by simp
  qed
qed simp

lemma dispatch_traced:
  assumes "key_traced T trace_of t key d" "n \<le> length (written k)" "bus_traced T trace_of t key (since n k)"
    and "dispatch e locked b (relay_context T ctx) (PublishRaw_in T wr now) (d, k) = (r, d', k')"
  shows "key_traced T trace_of t key d' \<and> n \<le> length (written k') \<and> bus_traced T trace_of t key (since n k')"
proof -
  let ?B = "select_unsent locked b d"
  obtain x k1 where pb: "publish_batch (relay_context T ctx) (PublishRaw_in T wr now) ?B k = (x, k1)" by fastforce
  have "row_traced T trace_of t it" if "it \<in> set ?B" "ob_partition_key it = key" for it
    using that assms(1) select_unsent_subset [of locked b d] by (auto simp: key_traced_def unsent_def)
  from publish_batch_traced [OF this assms(2,3) pb]
  have sent: "n \<le> length (written k1) \<and> bus_traced T trace_of t key (since n k1)" .
  have "(k' = k \<or> k' = k1) \<and> (d' = d \<or> (\<exists>ids. d' = mark_sent (pg_now e) ids d))"
    using assms(4) pb
    by (auto simp: dispatch_def Let_def split: if_splits sum.splits outcome.splits)
  with sent assms(1-3) show ?thesis by auto
qed

lemma relay_Run_traced:
  "key_traced T trace_of t key d \<Longrightarrow> n \<le> length (written k) \<Longrightarrow> bus_traced T trace_of t key (since n k) \<Longrightarrow>
     relay_Run (relay_context T ctx) (PublishRaw_in T wr now) ticks (d, k) = (d', k') \<Longrightarrow>
     key_traced T trace_of t key d' \<and> n \<le> length (written k') \<and> bus_traced T trace_of t key (since n k')"
proof (induction ticks arbitrary: d k)
  case (Cons tk ts)
  obtain r d1 k1 where s: "dispatch (tick_env tk) (tick_locked tk) relay_batchSize (relay_context T ctx)
      (PublishRaw_in T wr now) (d, k) = (r, d1, k1)" by (metis prod_cases3)
  from dispatch_traced [OF Cons.prems(1-3) s] Cons.IH [of d1 k1] Cons.prems(4) s show ?case by simp
qed simp

end

section \<open>The assignment service stays in the trace\<close>

context otel_laws
begin

lemma try_claims_traced:
  assumes "as_trace E = ot_Inject T c" "trace_of c = Some t"
    and others: "\<And>k d. key_traced T trace_of t key d \<Longrightarrow> key_traced T trace_of t key (as_others E k d)"
  shows "key_traced T trace_of t key d \<Longrightarrow> try_claims C G E oid cs k (d, g, m) = (r, d', g', m') \<Longrightarrow>
     key_traced T trace_of t key d'"
proof (induction cs arbitrary: k d g m)
  case (Cons rid rest)
  obtain v d1 where cl: "claimRider C (as_pg E k) (as_now E k) (as_trace E) oid rid (as_others E k d) = (v, d1)"
    by fastforce
  from claimRider_adds [OF cl [unfolded assms(1)]]
  have "key_traced T trace_of t key d1"
    by (rule adds_traced_row_key [OF _ assms(2) others [OF Cons.prems(1)]])
  with Cons.IH [of d1 "Suc k" g m] Cons.prems(2) cl show ?case
    by (auto split: sum.splits bool.splits prod.splits)
qed simp

lemma Assign_traced:
  assumes "as_trace E = ot_Inject T c" "trace_of c = Some t"
    and others: "\<And>k d. key_traced T trace_of t key d \<Longrightarrow> key_traced T trace_of t key (as_others E k d)"
    and "key_traced T trace_of t key d" and "Assign C G E oid lat lng (d, g, m) = (r, d', g', m')"
  shows "key_traced T trace_of t key d'"
proof (cases "nearestAvailableRiders C G lat lng 10 g")
  case (Inl err)
  with assms(4,5) show ?thesis by (simp add: Assign_def)
next
  case (Inr cs)
  obtain v d1 g1 m1 where tc: "try_claims C G E oid cs 0 (d, g, m) = (v, d1, g1, m1)" by (metis prod_cases4)
  note k1 = try_claims_traced [OF assms(1,2) others assms(4) tc]
  show ?thesis
  proof (cases v)
    case (Some rid)
    with Inr tc assms(5) k1 show ?thesis by (simp add: Assign_def)
  next
    case None
    let ?n = "length cs"
    obtain w d2 where mc: "markCancelled C (as_pg E ?n) (as_now E ?n) (as_trace E) oid ''no rider available''
        (as_others E ?n d1) = (w, d2)" by fastforce
    from markCancelled_adds [OF mc [unfolded assms(1)]]
    have "key_traced T trace_of t key d2"
      by (rule adds_traced_row_key [OF _ assms(2) others [OF k1]])
    moreover have "d' = d2" using Inr tc None mc assms(5) by (auto simp: Assign_def Let_def split: sum.splits)
    ultimately show ?thesis by simp
  qed
qed

lemma Handler_traced:
  assumes "trace_of (process_context T ctx msg) = Some t"
    and "\<And>k d. key_traced T trace_of t key d \<Longrightarrow> key_traced T trace_of t key (as_others E k d)"
    and "key_traced T trace_of t key d" and "assignment_Handler_in T ctx C G E msg (d, g, m) = (r, d', g', m')"
  shows "key_traced T trace_of t key d'"
proof -
  let ?E = "E\<lparr>as_trace := ot_Inject T (process_context T ctx msg)\<rparr>"
  consider "d' = d" | oid lat lng r' where "Assign C G ?E oid lat lng (d, g, m) = (r', d', g', m')"
    using assms(4) by (auto simp: assignment_Handler_in_def assignment_Handler_def
        split: sum.splits prod.splits option.splits if_splits)
  then show ?thesis
  proof cases
    case 1
    with assms(3) show ?thesis by simp
  next
    case 2
    show ?thesis by (rule Assign_traced [OF _ assms(1) _ assms(3) 2]) (simp_all add: assms(2))
  qed
qed

end

section \<open>A propagator in the W3C format\<close>

text \<open>
  A context with a 32-digit trace id, a 16-digit span id and baggage, propagated as
  \<^verbatim>\<open>traceparent: 00-<trace>-<span>-01\<close> and \<^verbatim>\<open>baggage\<close>, the two keys of \<^verbatim>\<open>defaultPropagator\<close>.
\<close>

record w3c_context =
  w3c_trace :: string
  w3c_span :: string
  w3c_baggage :: string

definition w3c_valid :: "w3c_context \<Rightarrow> bool" where
  "w3c_valid c \<longleftrightarrow> length (w3c_trace c) = 32 \<and> length (w3c_span c) = 16"

definition w3c_inject :: "w3c_context \<Rightarrow> carrier" where
  "w3c_inject c =
     (if w3c_valid c then [(''traceparent'', ''00-'' @ w3c_trace c @ ''-'' @ w3c_span c @ ''-01'')] else [])
     @ (if w3c_baggage c = '''' then [] else [(''baggage'', w3c_baggage c)])"

definition w3c_extract :: "w3c_context \<Rightarrow> (string \<Rightarrow> string) \<Rightarrow> w3c_context" where
  "w3c_extract c get =
     (let tp = get ''traceparent'';
          c' = (if length tp = 55 then c\<lparr>w3c_trace := take 32 (drop 3 tp), w3c_span := take 16 (drop 36 tp)\<rparr> else c)
      in if get ''baggage'' = '''' then c' else c'\<lparr>w3c_baggage := get ''baggage''\<rparr>)"

definition w3c_start :: "string \<Rightarrow> w3c_context \<Rightarrow> w3c_context" where
  "w3c_start name c = (if w3c_valid c then c\<lparr>w3c_span := rotate1 (w3c_span c)\<rparr> else c)"

definition w3c_otel :: "w3c_context otel" where
  "w3c_otel = \<lparr>ot_Inject = w3c_inject, ot_Extract = w3c_extract, ot_Start = w3c_start\<rparr>"

definition w3c_trace_of :: "w3c_context \<Rightarrow> string option" where
  "w3c_trace_of c = (if w3c_valid c then Some (w3c_trace c) else None)"

text \<open>The parts of the default propagator in that format.\<close>

definition w3c_propagation :: "w3c_context propagation" where
  "w3c_propagation =
     \<lparr>prop_TraceContext = \<lparr>pr_Inject = (\<lambda>c. if w3c_valid c
         then [(''traceparent'', ''00-'' @ w3c_trace c @ ''-'' @ w3c_span c @ ''-01'')] else []),
        pr_Extract = (\<lambda>c get. let tp = get ''traceparent'' in if length tp = 55
         then c\<lparr>w3c_trace := take 32 (drop 3 tp), w3c_span := take 16 (drop 36 tp)\<rparr> else c)\<rparr>,
      prop_Baggage = \<lparr>pr_Inject = (\<lambda>c. if w3c_baggage c = '''' then [] else [(''baggage'', w3c_baggage c)]),
        pr_Extract = (\<lambda>c get. if get ''baggage'' = '''' then c else c\<lparr>w3c_baggage := get ''baggage''\<rparr>)\<rparr>,
      prop_NewComposite = (\<lambda>ps. \<lparr>pr_Inject = (\<lambda>c. concat (map (\<lambda>p. pr_Inject p c) ps)),
        pr_Extract = (\<lambda>c get. fold (\<lambda>p c. pr_Extract p c get) ps c)\<rparr>)\<rparr>"

interpretation w3c_parts: propagation_laws w3c_propagation w3c_start w3c_trace_of
proof
  fix c t ctx and get :: "string \<Rightarrow> string"
  assume "w3c_trace_of c = Some t"
    and get: "\<And>k v. (k, v) \<in> set (pr_Inject (prop_TraceContext w3c_propagation) c) \<Longrightarrow> get k = v"
  then have c: "w3c_valid c" "t = w3c_trace c" by (auto simp: w3c_trace_of_def split: if_splits)
  then have "get ''traceparent'' = ''00-'' @ w3c_trace c @ ''-'' @ w3c_span c @ ''-01''"
    using get by (simp add: w3c_propagation_def)
  with c show "w3c_trace_of (pr_Extract (prop_TraceContext w3c_propagation) ctx get) = Some t"
    by (simp add: w3c_propagation_def w3c_trace_of_def w3c_valid_def Let_def)
next
  show "w3c_trace_of c = Some t \<Longrightarrow> w3c_trace_of (w3c_start name c) = Some t" for c t name
    by (auto simp: w3c_start_def w3c_trace_of_def w3c_valid_def split: if_splits)
qed (auto simp: w3c_propagation_def w3c_trace_of_def w3c_valid_def)

lemma w3c_otel_default: "w3c_otel = otel_with (defaultPropagator w3c_propagation) w3c_start"
  by (auto simp: w3c_otel_def otel_with_def defaultPropagator_def w3c_propagation_def w3c_inject_def w3c_extract_def
      Let_def fun_eq_iff)

interpretation w3c: otel_laws w3c_otel w3c_trace_of
  unfolding w3c_otel_default by unfold_locales

interpretation w3c_bus: traced_bus w3c_otel w3c_trace_of broker_write b_log
  by unfold_locales

context traced_bus
begin

lemma PublishRaw_in_publisher: "publisher (PublishRaw_in T wr now) (\<lambda>k. map event_of (written k))"
  by unfold_locales
    (auto simp: PublishRaw_in_def intro: producer.publish_ok dest: producer.publish_err)

lemma order_trace:
  assumes "trace_of c = Some t"
    and place: "order_Place C e now (ot_Inject T c) req (d, m) = (Inr x, d1, m1)"
    and fresh: "list_all (\<lambda>r. ob_partition_key r \<noteq> key) (outbox d)"
    and run1: "relay_Run (relay_context T ctx1) (PublishRaw_in T wr now1) ticks1 (d1, k) = (d2, k2)"
    and msg: "msg \<in> set (since (length (written k)) k2)" "msg_Key msg = key"
    and others: "\<And>i d. key_traced T trace_of t key d \<Longrightarrow> key_traced T trace_of t key (as_others E i d)"
    and handled: "assignment_Handler_in T ctx2 C G E msg (d2, g, m2) = (r, d3, g3, m3)"
    and run3: "relay_Run (relay_context T ctx3) (PublishRaw_in T wr now3) ticks3 (d3, k2) = (d4, k4)"
  shows "trace_of (process_context T ctx2 msg) = Some t \<and> key_traced T trace_of t key d4
     \<and> bus_traced T trace_of t key (since (length (written k)) k4)"
proof -
  have "key_traced T trace_of t key d" using fresh by (auto simp: key_traced_def list_all_iff)
  from adds_traced_row_key [OF order_Place_adds [OF place] assms(1) this]
  have "key_traced T trace_of t key d1" .
  from relay_Run_traced [OF this le_refl _ run1] have 2: "key_traced T trace_of t key d2"
      "length (written k) \<le> length (written k2)" "bus_traced T trace_of t key (since (length (written k)) k2)"
    by (auto simp: bus_traced_def)
  then have here: "trace_of (process_context T ctx2 msg) = Some t"
    using msg by (auto simp: bus_traced_def message_traced_def)
  have "key_traced T trace_of t key d3" by (rule Handler_traced [OF here others 2(1) handled])
  from relay_Run_traced [OF this 2(2,3) run3] here show ?thesis by simp
qed

end

definition example_context :: w3c_context where
  "example_context = \<lparr>w3c_trace = replicate 32 (CHR ''a''), w3c_span = replicate 16 (CHR ''b''), w3c_baggage = ''''\<rparr>"

definition no_context :: w3c_context where
  "no_context = \<lparr>w3c_trace = '''', w3c_span = '''', w3c_baggage = ''''\<rparr>"

section \<open>Properties\<close>



end
