(* ===== verification/Migrations.thy ===== *)
theory Migrations
  imports Rush_Prelude
begin

text \<open>
  \<^verbatim>\<open>migrations/\<close>: the scripts as lists of statements on a schema of tables, columns and indexes, and the
  SQL statements of the services as their parameter and result columns with the Go types bound to
  them.  The migration tool runs the scripts in the order of their numbers, each as one transaction.
  Two properties: a script's \<^verbatim>\<open>down\<close> file undoes its \<^verbatim>\<open>up\<close> file, and every statement of the services fits the
  migrated schema.  Checks and the uniqueness of values are in \<open>Rush_Database\<close>.
\<close>

section \<open>Schemas\<close>

datatype sql_type = UUID | VARCHAR nat | TEXT | NUMERIC nat nat | DOUBLE | INTEGER | BIGSERIAL | JSONB | TIMESTAMPTZ

record column =
  col_name :: string
  col_type :: sql_type
  col_null :: bool
  col_default :: bool
  col_references :: "string option"

record schema =
  sch_tables :: "(string \<times> column list) list"
  sch_indexes :: "(string \<times> string \<times> string list) list"
  sch_extensions :: "string list"

definition empty_schema :: schema where
  "empty_schema = \<lparr>sch_tables = [], sch_indexes = [], sch_extensions = []\<rparr>"

text \<open>Columns: nullable, mandatory, and mandatory with a default.\<close>

definition nullable :: "string \<Rightarrow> sql_type \<Rightarrow> column" where
  "nullable c t = \<lparr>col_name = c, col_type = t, col_null = True, col_default = False, col_references = None\<rparr>"

definition mandatory :: "string \<Rightarrow> sql_type \<Rightarrow> column" where
  "mandatory c t = (nullable c t)\<lparr>col_null := False\<rparr>"

definition defaulted :: "string \<Rightarrow> sql_type \<Rightarrow> column" where
  "defaulted c t = (mandatory c t)\<lparr>col_default := True\<rparr>"

lemmas column_defs = nullable_def mandatory_def defaulted_def

section \<open>Statements of the scripts\<close>

text \<open>The flag of a creation is \<^verbatim>\<open>IF NOT EXISTS\<close>; every drop of a table or an index says \<^verbatim>\<open>IF EXISTS\<close>.\<close>

datatype ddl =
    CreateExtension string
  | CreateTable bool string "column list"
  | CreateIndex bool string string "string list"
  | DropTable string
  | DropIndex string
  | AddColumn string column
  | DropColumn string string

definition columns_of :: "string \<Rightarrow> schema \<Rightarrow> column list option" where
  "columns_of t S = map_of (sch_tables S) t"

definition refers_to :: "string \<Rightarrow> string \<times> column list \<Rightarrow> bool" where
  "refers_to t = (\<lambda>(t', cols). t' \<noteq> t \<and> list_ex (\<lambda>c. col_references c = Some t) cols)"

definition has_column :: "string \<Rightarrow> column list \<Rightarrow> bool" where
  "has_column c cols \<longleftrightarrow> c \<in> set (map col_name cols)"

definition set_columns :: "string \<Rightarrow> column list \<Rightarrow> schema \<Rightarrow> schema" where
  "set_columns t cols S = S\<lparr>sch_tables := map (\<lambda>(t', cols'). (t', if t' = t then cols else cols')) (sch_tables S)\<rparr>"

fun exec_ddl :: "ddl \<Rightarrow> schema \<Rightarrow> error + schema" where
  "exec_ddl (CreateExtension x) S =
     Inr (if x \<in> set (sch_extensions S) then S else S\<lparr>sch_extensions := sch_extensions S @ [x]\<rparr>)"
| "exec_ddl (CreateTable ine t cols) S =
     (if columns_of t S \<noteq> None then (if ine then Inr S else Inl (ErrorString ''relation already exists''))
      else if list_all (\<lambda>c. case col_references c of None \<Rightarrow> True | Some t' \<Rightarrow> columns_of t' S \<noteq> None) cols
      then Inr (S\<lparr>sch_tables := sch_tables S @ [(t, cols)]\<rparr>)
      else Inl (ErrorString ''relation does not exist''))"
| "exec_ddl (CreateIndex ine i t cs) S =
     (if i \<in> set (map fst (sch_indexes S))
      then (if ine then Inr S else Inl (ErrorString ''relation already exists''))
      else case columns_of t S of
          None \<Rightarrow> Inl (ErrorString ''relation does not exist'')
        | Some cols \<Rightarrow>
            if list_all (\<lambda>c. has_column c cols) cs then Inr (S\<lparr>sch_indexes := sch_indexes S @ [(i, t, cs)]\<rparr>)
            else Inl (ErrorString ''column does not exist''))"
| "exec_ddl (DropTable t) S =
     (if columns_of t S = None then Inr S
      else if list_ex (refers_to t) (sch_tables S) then Inl (ErrorString ''other objects depend on it'')
      else Inr (S\<lparr>sch_tables := filter (\<lambda>(t', _). t' \<noteq> t) (sch_tables S),
                  sch_indexes := filter (\<lambda>(_, t', _). t' \<noteq> t) (sch_indexes S)\<rparr>))"
| "exec_ddl (DropIndex i) S = Inr (S\<lparr>sch_indexes := filter (\<lambda>(i', _). i' \<noteq> i) (sch_indexes S)\<rparr>)"
| "exec_ddl (AddColumn t c) S =
     (case columns_of t S of
        None \<Rightarrow> Inl (ErrorString ''relation does not exist'')
      | Some cols \<Rightarrow>
          if has_column (col_name c) cols then Inl (ErrorString ''column already exists'')
          else Inr (set_columns t (cols @ [c]) S))"
| "exec_ddl (DropColumn t c) S =
     (case columns_of t S of
        None \<Rightarrow> Inl (ErrorString ''relation does not exist'')
      | Some cols \<Rightarrow>
          if has_column c cols
          then Inr ((set_columns t (filter (\<lambda>x. col_name x \<noteq> c) cols) S)
                      \<lparr>sch_indexes := filter (\<lambda>(_, t', cs). \<not> (t' = t \<and> c \<in> set cs)) (sch_indexes S)\<rparr>)
          else Inl (ErrorString ''column does not exist''))"

fun run_script :: "ddl list \<Rightarrow> schema \<Rightarrow> error + schema" where
  "run_script [] S = Inr S"
| "run_script (x # xs) S = (case exec_ddl x S of Inl e \<Rightarrow> Inl e | Inr S' \<Rightarrow> run_script xs S')"

section \<open>The scripts\<close>

definition riders_columns :: "column list" where
  "riders_columns =
     [defaulted ''id'' UUID, mandatory ''name'' (VARCHAR 100), mandatory ''phone'' (VARCHAR 15),
      defaulted ''status'' (VARCHAR 20), defaulted ''created_at'' TIMESTAMPTZ, defaulted ''updated_at'' TIMESTAMPTZ]"

definition orders_columns :: "column list" where
  "orders_columns =
     [defaulted ''id'' UUID, mandatory ''customer_id'' UUID,
      (nullable ''rider_id'' UUID)\<lparr>col_references := Some ''riders''\<rparr>,
      mandatory ''restaurant_id'' UUID, defaulted ''status'' (VARCHAR 20), mandatory ''total_amount'' (NUMERIC 10 2),
      mandatory ''delivery_address'' TEXT, mandatory ''pickup_lat'' DOUBLE, mandatory ''pickup_lng'' DOUBLE,
      mandatory ''dropoff_lat'' DOUBLE, mandatory ''dropoff_lng'' DOUBLE, nullable ''eta_minutes'' INTEGER,
      defaulted ''created_at'' TIMESTAMPTZ, defaulted ''updated_at'' TIMESTAMPTZ]"

definition order_events_columns :: "column list" where
  "order_events_columns =
     [defaulted ''id'' BIGSERIAL, mandatory ''order_id'' UUID, mandatory ''event_type'' (VARCHAR 50),
      defaulted ''payload'' JSONB, defaulted ''created_at'' TIMESTAMPTZ]"

definition outbox_columns :: "column list" where
  "outbox_columns =
     [defaulted ''id'' BIGSERIAL, mandatory ''aggregate_id'' UUID, mandatory ''topic'' (VARCHAR 100),
      mandatory ''partition_key'' (VARCHAR 100), mandatory ''payload'' JSONB, defaulted ''created_at'' TIMESTAMPTZ,
      nullable ''sent_at'' TIMESTAMPTZ]"

definition up_001 :: "ddl list" where
  "up_001 = [CreateExtension ''pgcrypto'', CreateTable True ''riders'' riders_columns,
     CreateIndex True ''idx_riders_status'' ''riders'' [''status'']]"

definition up_002 :: "ddl list" where
  "up_002 = [CreateTable True ''orders'' orders_columns,
     CreateIndex True ''idx_orders_customer'' ''orders'' [''customer_id''],
     CreateIndex True ''idx_orders_rider'' ''orders'' [''rider_id''],
     CreateIndex True ''idx_orders_status'' ''orders'' [''status'']]"

definition up_003 :: "ddl list" where
  "up_003 = [CreateTable True ''order_events'' order_events_columns,
     CreateIndex True ''idx_order_events_order'' ''order_events'' [''order_id'', ''id'']]"

text \<open>The index of the outbox is partial: its predicate names \<^verbatim>\<open>sent_at\<close>.\<close>

definition up_004 :: "ddl list" where
  "up_004 = [CreateTable False ''outbox'' outbox_columns,
     CreateIndex False ''idx_outbox_unsent'' ''outbox'' [''id'', ''sent_at'']]"

definition up_005 :: "ddl list" where
  "up_005 = [AddColumn ''outbox'' (nullable ''trace_context'' JSONB)]"

definition down_001 :: "ddl list" where "down_001 = [DropTable ''riders'']"
definition down_002 :: "ddl list" where "down_002 = [DropTable ''orders'']"
definition down_003 :: "ddl list" where "down_003 = [DropTable ''order_events'']"
definition down_004 :: "ddl list" where "down_004 = [DropIndex ''idx_outbox_unsent'', DropTable ''outbox'']"
definition down_005 :: "ddl list" where "down_005 = [DropColumn ''outbox'' ''trace_context'']"

text \<open>The migrations in the order of their numbers: both files, and the table and indexes they create.\<close>

definition migrations :: "(ddl list \<times> ddl list) list" where
  "migrations = [(up_001, down_001), (up_002, down_002), (up_003, down_003), (up_004, down_004), (up_005, down_005)]"

definition migrate_up :: "nat \<Rightarrow> schema \<Rightarrow> error + schema" where
  "migrate_up n S = run_script (concat (map fst (take n migrations))) S"

lemmas script_defs = up_001_def up_002_def up_003_def up_004_def up_005_def
  down_001_def down_002_def down_003_def down_004_def down_005_def
lemmas table_defs = riders_columns_def orders_columns_def order_events_columns_def outbox_columns_def

section \<open>The statements of the services\<close>

datatype go_type = GoUUID | GoString | GoFloat64 | GoInt | GoInt64 | GoTime | GoBytes | GoInt64s | GoPtr go_type

text \<open>
  A statement on one table: the columns that get or are compared with a parameter, those used with a
  literal or a function of the database, and the result columns with the variables they are scanned to.
\<close>

record statement =
  st_table :: string
  st_insert :: bool
  st_params :: "(string \<times> go_type) list"
  st_literals :: "string list"
  st_scan :: "(string \<times> go_type) list"

definition insert_order_sql :: statement where
  "insert_order_sql = \<lparr>st_table = ''orders'', st_insert = True,
     st_params = [(''customer_id'', GoUUID), (''restaurant_id'', GoUUID), (''status'', GoString),
       (''total_amount'', GoFloat64), (''delivery_address'', GoString), (''pickup_lat'', GoFloat64),
       (''pickup_lng'', GoFloat64), (''dropoff_lat'', GoFloat64), (''dropoff_lng'', GoFloat64)],
     st_literals = [], st_scan = [(''id'', GoUUID), (''created_at'', GoTime), (''updated_at'', GoTime)]\<rparr>"

definition insert_placed_event_sql :: statement where
  "insert_placed_event_sql = \<lparr>st_table = ''order_events'', st_insert = True,
     st_params = [(''order_id'', GoUUID), (''payload'', GoBytes)], st_literals = [''event_type''], st_scan = []\<rparr>"

definition select_order_sql :: statement where
  "select_order_sql = \<lparr>st_table = ''orders'', st_insert = False, st_params = [(''id'', GoUUID)], st_literals = [],
     st_scan = [(''id'', GoUUID), (''customer_id'', GoUUID), (''rider_id'', GoPtr GoUUID), (''restaurant_id'', GoUUID),
       (''status'', GoString), (''total_amount'', GoFloat64), (''delivery_address'', GoString),
       (''pickup_lat'', GoFloat64), (''pickup_lng'', GoFloat64), (''dropoff_lat'', GoFloat64),
       (''dropoff_lng'', GoFloat64), (''eta_minutes'', GoPtr GoInt), (''created_at'', GoTime), (''updated_at'', GoTime)]\<rparr>"

definition update_status_sql :: statement where
  "update_status_sql = \<lparr>st_table = ''orders'', st_insert = False,
     st_params = [(''status'', GoString), (''id'', GoUUID)], st_literals = [''updated_at''], st_scan = []\<rparr>"

definition insert_status_event_sql :: statement where
  "insert_status_event_sql = \<lparr>st_table = ''order_events'', st_insert = True,
     st_params = [(''order_id'', GoUUID), (''event_type'', GoString), (''payload'', GoBytes)],
     st_literals = [], st_scan = []\<rparr>"

definition insert_outbox_sql :: statement where
  "insert_outbox_sql = \<lparr>st_table = ''outbox'', st_insert = True,
     st_params = [(''aggregate_id'', GoUUID), (''topic'', GoString), (''partition_key'', GoString),
       (''payload'', GoBytes), (''trace_context'', GoBytes)], st_literals = [], st_scan = []\<rparr>"

definition select_outbox_sql :: statement where
  "select_outbox_sql = \<lparr>st_table = ''outbox'', st_insert = False, st_params = [], st_literals = [''sent_at'', ''id''],
     st_scan = [(''id'', GoInt64), (''topic'', GoString), (''partition_key'', GoString), (''payload'', GoBytes),
       (''trace_context'', GoBytes)]\<rparr>"

definition mark_sent_sql :: statement where
  "mark_sent_sql = \<lparr>st_table = ''outbox'', st_insert = False, st_params = [(''id'', GoInt64s)],
     st_literals = [''sent_at''], st_scan = []\<rparr>"

definition cancel_order_sql :: statement where
  "cancel_order_sql = \<lparr>st_table = ''orders'', st_insert = False, st_params = [(''id'', GoUUID)],
     st_literals = [''status'', ''updated_at''], st_scan = []\<rparr>"

definition claim_rider_sql :: statement where
  "claim_rider_sql = \<lparr>st_table = ''riders'', st_insert = False, st_params = [(''id'', GoUUID)],
     st_literals = [''status'', ''updated_at''], st_scan = []\<rparr>"

definition attach_rider_sql :: statement where
  "attach_rider_sql = \<lparr>st_table = ''orders'', st_insert = False,
     st_params = [(''rider_id'', GoUUID), (''id'', GoUUID)], st_literals = [''updated_at''], st_scan = []\<rparr>"

text \<open>The payload of the assignment's event is built by the database.\<close>

definition insert_assigned_event_sql :: statement where
  "insert_assigned_event_sql = \<lparr>st_table = ''order_events'', st_insert = True, st_params = [(''order_id'', GoUUID)],
     st_literals = [''event_type'', ''payload''], st_scan = []\<rparr>"

definition insert_rider_sql :: statement where
  "insert_rider_sql = \<lparr>st_table = ''riders'', st_insert = True,
     st_params = [(''name'', GoString), (''phone'', GoString), (''status'', GoString)], st_literals = [],
     st_scan = [(''id'', GoUUID), (''created_at'', GoTime), (''updated_at'', GoTime)]\<rparr>"

definition select_rider_sql :: statement where
  "select_rider_sql = \<lparr>st_table = ''riders'', st_insert = False, st_params = [(''id'', GoUUID)], st_literals = [],
     st_scan = [(''id'', GoUUID), (''name'', GoString), (''phone'', GoString), (''status'', GoString),
       (''created_at'', GoTime), (''updated_at'', GoTime)]\<rparr>"

definition update_rider_sql :: statement where
  "update_rider_sql = \<lparr>st_table = ''riders'', st_insert = False,
     st_params = [(''status'', GoString), (''id'', GoUUID)], st_literals = [''updated_at''], st_scan = []\<rparr>"

definition active_order_sql :: statement where
  "active_order_sql = \<lparr>st_table = ''orders'', st_insert = False, st_params = [(''rider_id'', GoUUID)],
     st_literals = [''status'', ''created_at''], st_scan = [(''id'', GoUUID), (''status'', GoString)]\<rparr>"

definition eta_order_sql :: statement where
  "eta_order_sql = \<lparr>st_table = ''orders'', st_insert = False, st_params = [(''rider_id'', GoUUID)],
     st_literals = [''status'', ''created_at''],
     st_scan = [(''id'', GoUUID), (''status'', GoString), (''pickup_lat'', GoFloat64), (''pickup_lng'', GoFloat64),
       (''dropoff_lat'', GoFloat64), (''dropoff_lng'', GoFloat64)]\<rparr>"

definition update_eta_sql :: statement where
  "update_eta_sql = \<lparr>st_table = ''orders'', st_insert = False,
     st_params = [(''eta_minutes'', GoInt), (''id'', GoUUID)], st_literals = [''updated_at''], st_scan = []\<rparr>"

definition locate_order_sql :: statement where
  "locate_order_sql = \<lparr>st_table = ''orders'', st_insert = False, st_params = [(''rider_id'', GoUUID)],
     st_literals = [''status'', ''created_at''], st_scan = [(''id'', GoUUID)]\<rparr>"

definition statements :: "statement list" where
  "statements = [insert_order_sql, insert_placed_event_sql, select_order_sql, update_status_sql, insert_status_event_sql,
     insert_outbox_sql, select_outbox_sql, mark_sent_sql, cancel_order_sql, claim_rider_sql, attach_rider_sql,
     insert_assigned_event_sql, insert_rider_sql, select_rider_sql, update_rider_sql, active_order_sql, eta_order_sql,
     update_eta_sql, locate_order_sql]"

lemmas statement_defs = insert_order_sql_def insert_placed_event_sql_def select_order_sql_def update_status_sql_def
  insert_status_event_sql_def insert_outbox_sql_def select_outbox_sql_def mark_sent_sql_def cancel_order_sql_def
  claim_rider_sql_def attach_rider_sql_def insert_assigned_event_sql_def insert_rider_sql_def select_rider_sql_def
  update_rider_sql_def active_order_sql_def eta_order_sql_def update_eta_sql_def locate_order_sql_def

section \<open>Typing\<close>

text \<open>
  Which Go values the driver sends to and scans from a column type is a parameter; a nullable column
  must be scanned into a pointer or a byte slice, which can hold the absence of a value.
\<close>

type_synonym driver = "sql_type \<Rightarrow> go_type \<Rightarrow> bool"

definition find_column :: "string \<Rightarrow> column list \<Rightarrow> column option" where
  "find_column c cols = find (\<lambda>x. col_name x = c) cols"

definition binds :: "driver \<Rightarrow> column list \<Rightarrow> string \<times> go_type \<Rightarrow> bool" where
  "binds accepts cols = (\<lambda>(c, g). case find_column c cols of None \<Rightarrow> False | Some x \<Rightarrow> accepts (col_type x) g)"

definition scans :: "driver \<Rightarrow> column list \<Rightarrow> string \<times> go_type \<Rightarrow> bool" where
  "scans accepts cols = (\<lambda>(c, g). case find_column c cols of
       None \<Rightarrow> False
     | Some x \<Rightarrow> (case g of
           GoPtr h \<Rightarrow> accepts (col_type x) h
         | GoBytes \<Rightarrow> accepts (col_type x) GoBytes
         | _ \<Rightarrow> \<not> col_null x \<and> accepts (col_type x) g))"

definition well_typed :: "driver \<Rightarrow> schema \<Rightarrow> statement \<Rightarrow> bool" where
  "well_typed accepts S st = (case columns_of (st_table st) S of
       None \<Rightarrow> False
     | Some cols \<Rightarrow>
         list_all (binds accepts cols) (st_params st)
       \<and> list_all (\<lambda>c. has_column c cols) (st_literals st)
       \<and> list_all (scans accepts cols) (st_scan st)
       \<and> (\<not> st_insert st \<or> list_all (\<lambda>x. col_null x \<or> col_default x
              \<or> col_name x \<in> set (map fst (st_params st) @ st_literals st)) cols))"

text \<open>What the driver's documentation gives for the column types of the schema.\<close>

locale driver_laws =
  fixes accepts :: driver
  assumes accepts_types [simp]:
    "accepts UUID GoUUID" "accepts (VARCHAR n) GoString" "accepts TEXT GoString" "accepts (NUMERIC p s) GoFloat64"
    "accepts DOUBLE GoFloat64" "accepts INTEGER GoInt" "accepts BIGSERIAL GoInt64" "accepts BIGSERIAL GoInt64s"
    "accepts JSONB GoBytes" "accepts TIMESTAMPTZ GoTime"

fun pgx_accepts :: driver where
  "pgx_accepts UUID g \<longleftrightarrow> g = GoUUID"
| "pgx_accepts (VARCHAR _) g \<longleftrightarrow> g = GoString"
| "pgx_accepts TEXT g \<longleftrightarrow> g = GoString"
| "pgx_accepts (NUMERIC _ _) g \<longleftrightarrow> g = GoFloat64"
| "pgx_accepts DOUBLE g \<longleftrightarrow> g = GoFloat64"
| "pgx_accepts INTEGER g \<longleftrightarrow> g = GoInt"
| "pgx_accepts BIGSERIAL g \<longleftrightarrow> g = GoInt64 \<or> g = GoInt64s"
| "pgx_accepts JSONB g \<longleftrightarrow> g = GoBytes"
| "pgx_accepts TIMESTAMPTZ g \<longleftrightarrow> g = GoTime"

interpretation pgx: driver_laws pgx_accepts
  by unfold_locales simp_all

section \<open>The migrated schema\<close>

definition base_indexes :: "(string \<times> string \<times> string list) list" where
  "base_indexes =
     [(''idx_riders_status'', ''riders'', [''status'']), (''idx_orders_customer'', ''orders'', [''customer_id'']),
      (''idx_orders_rider'', ''orders'', [''rider_id'']), (''idx_orders_status'', ''orders'', [''status'']),
      (''idx_order_events_order'', ''order_events'', [''order_id'', ''id'']),
      (''idx_outbox_unsent'', ''outbox'', [''id'', ''sent_at''])]"

definition schema_with :: "column list \<Rightarrow> schema" where
  "schema_with extra =
     \<lparr>sch_tables = [(''riders'', riders_columns), (''orders'', orders_columns),
        (''order_events'', order_events_columns), (''outbox'', outbox_columns @ extra)],
      sch_indexes = base_indexes, sch_extensions = [''pgcrypto'']\<rparr>"

lemma migrate_4: "migrate_up 4 empty_schema = Inr (schema_with [])"
  by (simp add: migrate_up_def migrations_def script_defs table_defs column_defs empty_schema_def schema_with_def
      base_indexes_def columns_of_def has_column_def)

lemma migrate_5: "migrate_up 5 empty_schema = Inr (schema_with [nullable ''trace_context'' JSONB])"
  by (simp add: migrate_up_def migrations_def script_defs table_defs column_defs empty_schema_def schema_with_def
      base_indexes_def columns_of_def has_column_def set_columns_def)

lemmas typing_defs = well_typed_def binds_def scans_def find_column_def has_column_def columns_of_def schema_with_def
  table_defs column_defs

context driver_laws
begin

text \<open>Every statement but two is typed with and without the last column.\<close>

lemma typed_base:
  "well_typed accepts (schema_with extra) insert_order_sql"
  "well_typed accepts (schema_with extra) insert_placed_event_sql"
  "well_typed accepts (schema_with extra) select_order_sql"
  "well_typed accepts (schema_with extra) update_status_sql"
  "well_typed accepts (schema_with extra) insert_status_event_sql"
  "well_typed accepts (schema_with extra) mark_sent_sql"
  "well_typed accepts (schema_with extra) cancel_order_sql"
  "well_typed accepts (schema_with extra) claim_rider_sql"
  "well_typed accepts (schema_with extra) attach_rider_sql"
  "well_typed accepts (schema_with extra) insert_assigned_event_sql"
  "well_typed accepts (schema_with extra) insert_rider_sql"
  "well_typed accepts (schema_with extra) select_rider_sql"
  "well_typed accepts (schema_with extra) update_rider_sql"
  "well_typed accepts (schema_with extra) active_order_sql"
  "well_typed accepts (schema_with extra) eta_order_sql"
  "well_typed accepts (schema_with extra) update_eta_sql"
  "well_typed accepts (schema_with extra) locate_order_sql"
  by (simp_all add: typing_defs statement_defs)

lemma typed_outbox:
  "well_typed accepts (schema_with [nullable ''trace_context'' JSONB]) insert_outbox_sql"
  "well_typed accepts (schema_with [nullable ''trace_context'' JSONB]) select_outbox_sql"
  "\<not> well_typed accepts (schema_with []) insert_outbox_sql"
  "\<not> well_typed accepts (schema_with []) select_outbox_sql"
  by (simp_all add: typing_defs statement_defs)

lemma typed_5: "list_all (well_typed accepts (schema_with [nullable ''trace_context'' JSONB])) statements"
  by (simp add: statements_def typed_base typed_outbox)

lemma typed_4: "filter (\<lambda>s. \<not> well_typed accepts (schema_with []) s) statements = [insert_outbox_sql, select_outbox_sql]"
  by (simp add: statements_def typed_base typed_outbox)

end

section \<open>Undoing a migration\<close>

text \<open>A schema is well formed when tables have one definition and indexes and references have their tables and columns.\<close>

definition schema_wf :: "schema \<Rightarrow> bool" where
  "schema_wf S \<longleftrightarrow> distinct (map fst (sch_tables S))
     \<and> list_all (\<lambda>(i, t, cs). case columns_of t S of None \<Rightarrow> False | Some cols \<Rightarrow> list_all (\<lambda>c. has_column c cols) cs)
         (sch_indexes S)
     \<and> list_all (\<lambda>(t, cols). list_all (\<lambda>c. case col_references c of None \<Rightarrow> True | Some t' \<Rightarrow> columns_of t' S \<noteq> None) cols)
         (sch_tables S)"

text \<open>What a script creates is not there yet: its tables and its indexes.\<close>

fun creates_anew :: "schema \<Rightarrow> ddl \<Rightarrow> bool" where
  "creates_anew S (CreateTable _ t _) \<longleftrightarrow> columns_of t S = None"
| "creates_anew S (CreateIndex _ i _ _) \<longleftrightarrow> i \<notin> set (map fst (sch_indexes S))"
| "creates_anew S _ \<longleftrightarrow> True"

lemma columns_of_None: "columns_of t S = None \<longleftrightarrow> t \<notin> fst ` set (sch_tables S)"
  by (simp add: columns_of_def map_of_eq_None_iff)

lemma wf_index_table: "schema_wf S \<Longrightarrow> columns_of t S = None \<Longrightarrow> (i, t, cs) \<notin> set (sch_indexes S)"
  by (fastforce simp: schema_wf_def list_all_iff)

lemma wf_references:
  assumes "schema_wf S" "columns_of t S = None"
  shows "\<not> list_ex (refers_to t) (sch_tables S)"
proof
  assume "list_ex (refers_to t) (sch_tables S)"
  then obtain t' cols c where "(t', cols) \<in> set (sch_tables S)" "c \<in> set cols" "col_references c = Some t"
    by (auto simp: list_ex_iff refers_to_def)
  with assms(1) have "columns_of t S \<noteq> None" by (fastforce simp: schema_wf_def list_all_iff split: option.splits)
  with assms(2) show False by simp
qed

lemma filter_tables: "columns_of t S = None \<Longrightarrow> filter (\<lambda>(t', _). t' \<noteq> t) (sch_tables S) = sch_tables S"
  unfolding columns_of_None filter_id_conv by force

lemma filter_indexes:
  assumes "schema_wf S" "columns_of t S = None"
  shows "filter (\<lambda>(_, t', _). t' \<noteq> t) (sch_indexes S) = sch_indexes S"
  unfolding filter_id_conv using wf_index_table [OF assms] by auto

text \<open>Dropping a table removes it and its indexes, and nothing else of a well-formed schema without it.\<close>

lemma drop_created:
  assumes "schema_wf S" "columns_of t S = None" "list_all (\<lambda>(_, t', _). t' = t) ixs"
  shows "exec_ddl (DropTable t)
       (S\<lparr>sch_tables := sch_tables S @ [(t, cols)], sch_indexes := sch_indexes S @ ixs, sch_extensions := x\<rparr>)
     = Inr (S\<lparr>sch_extensions := x\<rparr>)"
proof -
  have ixs: "filter (\<lambda>(_, t', _). t' \<noteq> t) ixs = []" using assms(3) by (auto simp: filter_empty_conv list_all_iff)
  have "columns_of t (S\<lparr>sch_tables := sch_tables S @ [(t, cols)], sch_indexes := sch_indexes S @ ixs, sch_extensions := x\<rparr>)
      = Some cols"
    using assms(2) by (simp add: columns_of_def map_of_append map_add_def)
  moreover have "\<not> list_ex (refers_to t) (sch_tables S @ [(t, cols)])"
    using wf_references [OF assms(1,2)] by (simp add: refers_to_def)
  ultimately show ?thesis
    using filter_tables [OF assms(2)] filter_indexes [OF assms(1,2)] ixs by simp
qed

lemma columns_of_update [simp]:
  "columns_of t (S\<lparr>sch_indexes := ixs\<rparr>) = columns_of t S"
  "columns_of t (S\<lparr>sch_extensions := x\<rparr>) = columns_of t S"
  "columns_of t (S\<lparr>sch_tables := tabs\<rparr>) = map_of tabs t"
  by (simp_all add: columns_of_def)

lemma created:
  assumes "columns_of t S = None"
  shows "map_of (sch_tables S @ [(t, cols)]) t = Some cols"
  using assms by (simp add: columns_of_def map_add_def)

text \<open>Each script that creates a table adds it with its indexes.\<close>

lemma up_001_effect:
  assumes "run_script up_001 S = Inr S'" "list_all (creates_anew S) up_001"
  shows "S' = S\<lparr>sch_tables := sch_tables S @ [(''riders'', riders_columns)],
      sch_indexes := sch_indexes S @ [(''idx_riders_status'', ''riders'', [''status''])], sch_extensions := sch_extensions S'\<rparr>"
  using assms by (intro schema.equality) (auto simp: up_001_def created split: if_splits option.splits)

lemma up_002_effect:
  assumes "run_script up_002 S = Inr S'" "list_all (creates_anew S) up_002"
  shows "S' = S\<lparr>sch_tables := sch_tables S @ [(''orders'', orders_columns)],
      sch_indexes := sch_indexes S @ [(''idx_orders_customer'', ''orders'', [''customer_id'']),
        (''idx_orders_rider'', ''orders'', [''rider_id'']), (''idx_orders_status'', ''orders'', [''status''])], sch_extensions := sch_extensions S'\<rparr>"
  using assms by (intro schema.equality) (auto simp: up_002_def created split: if_splits option.splits)

lemma up_003_effect:
  assumes "run_script up_003 S = Inr S'" "list_all (creates_anew S) up_003"
  shows "S' = S\<lparr>sch_tables := sch_tables S @ [(''order_events'', order_events_columns)],
      sch_indexes := sch_indexes S @ [(''idx_order_events_order'', ''order_events'', [''order_id'', ''id''])], sch_extensions := sch_extensions S'\<rparr>"
  using assms by (intro schema.equality) (auto simp: up_003_def created split: if_splits option.splits)

lemma up_004_effect:
  assumes "run_script up_004 S = Inr S'" "list_all (creates_anew S) up_004"
  shows "S' = S\<lparr>sch_tables := sch_tables S @ [(''outbox'', outbox_columns)],
      sch_indexes := sch_indexes S @ [(''idx_outbox_unsent'', ''outbox'', [''id'', ''sent_at''])], sch_extensions := sch_extensions S'\<rparr>"
  using assms by (intro schema.equality) (auto simp: up_004_def created split: if_splits option.splits)

lemma up_005_effect:
  assumes "run_script up_005 S = Inr S'"
  shows "\<exists>cols. columns_of ''outbox'' S = Some cols \<and> \<not> has_column ''trace_context'' cols
     \<and> S' = set_columns ''outbox'' (cols @ [nullable ''trace_context'' JSONB]) S"
  using assms by (auto simp: up_005_def nullable_def split: if_splits option.splits)

lemma down_005_effect:
  assumes "schema_wf S" "columns_of ''outbox'' S = Some cols" "\<not> has_column ''trace_context'' cols"
  shows "run_script down_005 (set_columns ''outbox'' (cols @ [nullable ''trace_context'' JSONB]) S) = Inr S"
proof -
  let ?S = "set_columns ''outbox'' (cols @ [nullable ''trace_context'' JSONB]) S"
  have dist: "distinct (map fst (sch_tables S))" using assms(1) by (simp add: schema_wf_def)
  have "map_of (map (\<lambda>(t', cols'). (t', if t' = t then x else cols')) ts) t = map_option (\<lambda>_. x) (map_of ts t)"
    for t :: string and x :: "column list" and ts
    by (induction ts) auto
  with assms(2) have cols: "columns_of ''outbox'' ?S = Some (cols @ [nullable ''trace_context'' JSONB])"
    by (simp add: columns_of_def set_columns_def)
  have ix: "filter (\<lambda>(_, t', cs). \<not> (t' = ''outbox'' \<and> ''trace_context'' \<in> set cs)) (sch_indexes S) = sch_indexes S"
    using assms by (fastforce simp: filter_id_conv schema_wf_def list_all_iff)
  have flt: "filter (\<lambda>x. col_name x \<noteq> ''trace_context'') (cols @ [nullable ''trace_context'' JSONB]) = cols"
    using assms(3) by (force simp: has_column_def nullable_def filter_id_conv)
  have "map (\<lambda>(t', cols'). (t', if t' = ''outbox'' then cols else cols')) (sch_tables S) = sch_tables S"
    using assms(2) dist by (auto simp: columns_of_def intro!: map_idI dest: eq_key_imp_eq_value)
  then have restored: "set_columns ''outbox'' cols ?S = S"
    by (simp add: set_columns_def split_beta o_def cong: map_cong if_cong)
  show ?thesis
    using cols flt restored ix by (simp add: down_005_def has_column_def nullable_def) (simp add: set_columns_def)
qed

lemma undo_creation:
  assumes "schema_wf S" "columns_of t S = None" "list_all (\<lambda>(_, t', _). t' = t) ixs"
    and "S' = S\<lparr>sch_tables := sch_tables S @ [(t, cols)], sch_indexes := sch_indexes S @ ixs, sch_extensions := x\<rparr>"
  shows "run_script [DropTable t] S' = Inr (S\<lparr>sch_extensions := x\<rparr>)"
  using drop_created [OF assms(1-3)] unfolding assms(4) by (simp del: exec_ddl.simps)

lemma undo_004:
  assumes "schema_wf S" "list_all (creates_anew S) up_004" "run_script up_004 S = Inr S'"
  shows "run_script down_004 S' = Inr (S\<lparr>sch_extensions := sch_extensions S'\<rparr>)"
proof -
  have new: "columns_of ''outbox'' S = None" "''idx_outbox_unsent'' \<notin> fst ` set (sch_indexes S)"
    using assms(2) by (simp_all add: up_004_def)
  have "filter (\<lambda>(i', _). i' \<noteq> ''idx_outbox_unsent'') (sch_indexes S) = sch_indexes S"
    using new(2) unfolding filter_id_conv by force
  then have "exec_ddl (DropIndex ''idx_outbox_unsent'') S' = Inr (S\<lparr>sch_tables := sch_tables S @ [(''outbox'', outbox_columns)],
      sch_indexes := sch_indexes S @ [], sch_extensions := sch_extensions S'\<rparr>)"
    by (subst up_004_effect [OF assms(3,2)]) simp
  then show ?thesis
    using undo_creation [OF assms(1) new(1) _ refl, of "[]"]
    by (simp only: down_004_def run_script.simps sum.case list.pred_inject)
qed

section \<open>Properties\<close>

text \<open>
  C38: a migration can be taken back: on any well-formed schema that does not have what the script
  creates, running a script's \<^verbatim>\<open>down\<close> file after its \<^verbatim>\<open>up\<close> file gives the schema back, but for the
  extension the first script leaves installed.
\<close>

theorem migrations_reversible:
  assumes "(up, down) \<in> set migrations" and "schema_wf S" and "list_all (creates_anew S) up"
    and "run_script up S = Inr S'"
  shows "run_script down S' = Inr (S\<lparr>sch_extensions := sch_extensions S'\<rparr>)"
proof -
  consider "up = up_001" "down = down_001" | "up = up_002" "down = down_002" | "up = up_003" "down = down_003"
    | "up = up_004" "down = down_004" | "up = up_005" "down = down_005"
    using assms(1) by (auto simp: migrations_def)
  then show ?thesis
  proof cases
    case 1
    have "columns_of ''riders'' S = None" using assms(3) 1 by (simp add: up_001_def)
    from undo_creation [OF assms(2) this _ up_001_effect] show ?thesis
      using assms(3,4) 1 by (simp add: down_001_def)
  next
    case 2
    have "columns_of ''orders'' S = None" using assms(3) 2 by (simp add: up_002_def)
    from undo_creation [OF assms(2) this _ up_002_effect] show ?thesis
      using assms(3,4) 2 by (simp add: down_002_def)
  next
    case 3
    have "columns_of ''order_events'' S = None" using assms(3) 3 by (simp add: up_003_def)
    from undo_creation [OF assms(2) this _ up_003_effect] show ?thesis
      using assms(3,4) 3 by (simp add: down_003_def)
  next
    case 4
    with undo_004 assms(2-4) show ?thesis by simp
  next
    case 5
    then obtain cols where "columns_of ''outbox'' S = Some cols" "\<not> has_column ''trace_context'' cols"
        "S' = set_columns ''outbox'' (cols @ [nullable ''trace_context'' JSONB]) S"
      using up_005_effect assms(4) by blast
    with down_005_effect [OF assms(2)] 5 show ?thesis by (simp add: set_columns_def)
  qed
qed

theorem migrations_reversible_witness:
  "\<exists>S'. run_script up_005 (schema_with []) = Inr S' \<and> run_script down_005 S' = Inr (schema_with [])"
proof -
  have wf: "schema_wf (schema_with [])"
    by (simp add: schema_wf_def base_indexes_def typing_defs)
  obtain S' where S': "run_script up_005 (schema_with []) = Inr S'" "sch_extensions S' = sch_extensions (schema_with [])"
    by (simp add: up_005_def typing_defs set_columns_def)
  have "(up_005, down_005) \<in> set migrations" by (simp add: migrations_def)
  from migrations_reversible [OF this wf _ S'(1)] S' show ?thesis by (simp add: up_005_def)
qed

text \<open>
  C37: every SQL statement of the services is well typed on the schema the five migrations build: its table
  and columns exist, the driver accepts the Go values bound to them, a nullable column is scanned
  into a variable that can hold its absence, and an insertion names every mandatory column; before
  the fifth migration this holds of all but the two outbox statements that name the trace context.
\<close>

theorem statements_fit_schema:
  assumes "driver_laws accepts"
  shows "(\<exists>S. migrate_up 5 empty_schema = Inr S \<and> list_all (well_typed accepts S) statements)
     \<and> (\<exists>S. migrate_up 4 empty_schema = Inr S
          \<and> filter (\<lambda>s. \<not> well_typed accepts S s) statements = [insert_outbox_sql, select_outbox_sql])"
  using migrate_4 migrate_5 driver_laws.typed_4 [OF assms] driver_laws.typed_5 [OF assms] by blast

theorem statements_fit_schema_witness:
  "\<exists>S. migrate_up 5 empty_schema = Inr S \<and> list_all (well_typed pgx_accepts S) statements"
  using statements_fit_schema [OF pgx.driver_laws_axioms] by blast

end
