(* ===== verification/Kafka_Partitions.thy ===== *)
theory Kafka_Partitions
  imports Outbox
begin

text \<open>
  The settings of \<^verbatim>\<open>NewProducer\<close> and \<^verbatim>\<open>NewConsumer\<close>, and what they buy: topics may have any number of
  partitions, the hash balancer keeps the messages of a key in one of them, and a member of a consumer
  group reads its partitions in an arbitrary interleaving.  The client library is again a parameter: the
  locales \<open>kafka_cluster\<close> and \<open>group_reader\<close> state what a writer and a reader with given settings do.  The
  property is the one the comments of the code rely on: the events of one key are handled in the order
  in which they were written to the outbox.
\<close>

section \<open>Settings\<close>

definition milliseconds :: "int \<Rightarrow> time" where
  "milliseconds n = n * 1000000"

datatype Balancer = HashBalancer | RoundRobin | LeastBytes

datatype RequiredAcks = RequireNone | RequireOne | RequireAll

record WriterConfig =
  wc_Addr :: "string list"
  wc_Balancer :: Balancer
  wc_RequiredAcks :: RequiredAcks
  wc_AllowAutoTopicCreation :: bool
  wc_BatchTimeout :: time

definition NewProducer :: "string list \<Rightarrow> WriterConfig" where
  "NewProducer brokers =
     \<lparr>wc_Addr = brokers, wc_Balancer = HashBalancer, wc_RequiredAcks = RequireAll,
      wc_AllowAutoTopicCreation = True, wc_BatchTimeout = milliseconds 20\<rparr>"

record ReaderConfig =
  rc_Brokers :: "string list"
  rc_GroupID :: string
  rc_Topic :: string
  rc_MinBytes :: nat
  rc_MaxBytes :: nat
  rc_CommitInterval :: time
  rc_MaxWait :: time

definition NewConsumer :: "string list \<Rightarrow> string \<Rightarrow> string \<Rightarrow> ReaderConfig" where
  "NewConsumer brokers topic groupID =
     \<lparr>rc_Brokers = brokers, rc_GroupID = groupID, rc_Topic = topic, rc_MinBytes = 1,
      rc_MaxBytes = push_bit 20 10, rc_CommitInterval = 0, rc_MaxWait = milliseconds 500\<rparr>"

section \<open>The cluster behind a writer\<close>

text \<open>
  A topic has some number of partitions, and \<open>partition_of t key\<close> is the one a key hashes to (the
  producer always passes \<^verbatim>\<open>[]byte(key)\<close>, which is not nil).  With \<^verbatim>\<open>RequireAll\<close> a nil error means that the
  message is stored; a stored message is appended to one partition, with the hash balancer to that of its key.
\<close>

locale kafka_cluster =
  fixes open_writer :: "WriterConfig \<Rightarrow> 'k writer" and written :: "'k \<Rightarrow> message list"
    and partition_of :: "string \<Rightarrow> string \<Rightarrow> nat" and partition_log :: "'k \<Rightarrow> string \<Rightarrow> nat \<Rightarrow> message list"
  assumes acked: "wc_RequiredAcks cfg = RequireAll \<Longrightarrow> kafka_writer (open_writer cfg) written"
    and unwritten: "open_writer cfg m k = (e, k') \<Longrightarrow> written k' = written k \<Longrightarrow> partition_log k' = partition_log k"
    and hashed: "wc_Balancer cfg = HashBalancer \<Longrightarrow> open_writer cfg m k = (e, k') \<Longrightarrow>
      written k' = written k @ [m\<lparr>msg_Offset := off\<rparr>] \<Longrightarrow>
      \<exists>i. partition_log k' = (\<lambda>t p. partition_log k t p
        @ (if t = msg_Topic m \<and> p = partition_of t (msg_Key m) then [m\<lparr>msg_Offset := i\<rparr>] else []))"

text \<open>A member of a consumer group: a fetch gives the next message of some partition of the topic.\<close>

locale group_reader =
  fixes open_reader :: "ReaderConfig \<Rightarrow> 'r reader" and plog :: "'r \<Rightarrow> string \<Rightarrow> nat \<Rightarrow> message list"
    and pos :: "'r \<Rightarrow> nat \<Rightarrow> nat"
  assumes fetch_ok: "rc_GroupID cfg \<noteq> '''' \<Longrightarrow> FetchMessage (open_reader cfg) r = (Fetched m, r') \<Longrightarrow>
      (\<exists>p. pos r p < length (plog r' (rc_Topic cfg) p) \<and> m = plog r' (rc_Topic cfg) p ! pos r p
         \<and> pos r' = (pos r)(p := Suc (pos r p)))
      \<and> (\<forall>t p. prefix (plog r t p) (plog r' t p))"
    and fetch_err: "rc_GroupID cfg \<noteq> '''' \<Longrightarrow> FetchMessage (open_reader cfg) r = (FetchError c, r') \<Longrightarrow>
      pos r' = pos r \<and> (\<forall>t p. prefix (plog r t p) (plog r' t p))"
    and commit: "rc_GroupID cfg \<noteq> '''' \<Longrightarrow> CommitMessages (open_reader cfg) m r = (e, r') \<Longrightarrow>
      pos r' = pos r \<and> plog r' = plog r"

text \<open>\<open>witnessing\<close> notes every message that was given to the handler.\<close>

definition witnessing :: "'s handler \<Rightarrow> ('s \<times> message list) handler" where
  "witnessing h m = (\<lambda>(s, seen). case h m s of (v, s') \<Rightarrow> (v, s', seen @ [m]))"

section \<open>Each key has one partition\<close>

definition topic_events :: "string \<Rightarrow> event list \<Rightarrow> event list" where
  "topic_events t = filter (\<lambda>(t', _). t' = t)"

text \<open>Each partition holds what was written for its keys, in the order of writing.\<close>

definition routed_logs :: "(string \<Rightarrow> string \<Rightarrow> nat) \<Rightarrow> (string \<Rightarrow> nat \<Rightarrow> message list) \<Rightarrow> event list \<Rightarrow> bool" where
  "routed_logs partition_of logs evs \<longleftrightarrow> (\<forall>t p. map event_of (logs t p)
     = filter (\<lambda>(_, key, _). partition_of t key = p) (topic_events t evs))"

lemma routed_logs_key:
  assumes "routed_logs partition_of logs evs" and "p = partition_of t key"
  shows "filter (\<lambda>(_, key', _). key' = key) (map event_of (logs t p))
       = filter (\<lambda>(t', key', _). t' = t \<and> key' = key) evs"
proof -
  have "map event_of (logs t p) = filter (\<lambda>(_, key, _). partition_of t key = p) (topic_events t evs)"
    using assms(1) by (simp add: routed_logs_def)
  then show ?thesis using assms(2) by (auto simp: topic_events_def intro!: filter_cong)
qed

context kafka_cluster
begin

abbreviation routed :: "'k \<Rightarrow> bool" where
  "routed k \<equiv> routed_logs partition_of (partition_log k) (map event_of (written k))"

lemma NewProducer_writer: "kafka_writer (open_writer (NewProducer bs)) written"
  by (rule acked) (simp add: NewProducer_def)

lemma write_routed:
  assumes "routed k" and "open_writer (NewProducer bs) m k = (e, k')"
  shows "routed k'"
proof -
  have "written k' = written k \<or> (\<exists>off. written k' = written k @ [m\<lparr>msg_Offset := off\<rparr>])"
    using kafka_writer.write_ok [OF NewProducer_writer, of bs m k k'] assms(2)
      kafka_writer.write_err [OF NewProducer_writer, of bs m k _ k'] by (cases e) auto
  then show ?thesis
  proof (elim disjE exE)
    assume same: "written k' = written k"
    from unwritten [OF assms(2) same] same assms(1) show ?thesis by (simp add: routed_logs_def)
  next
    fix off assume app: "written k' = written k @ [m\<lparr>msg_Offset := off\<rparr>]"
    have "wc_Balancer (NewProducer bs) = HashBalancer" by (simp add: NewProducer_def)
    from hashed [OF this assms(2) app] assms(1) app show ?thesis
      by (auto simp: routed_logs_def topic_events_def event_of_def)
  qed
qed

lemma PublishRaw_routed:
  "routed k \<Longrightarrow> PublishRaw (open_writer (NewProducer bs)) now tc t key b k = (e, k') \<Longrightarrow> routed k'"
  unfolding PublishRaw_def by (rule write_routed)

end

section \<open>A consumer works through its partitions\<close>

text \<open>
  \<open>read_through\<close>: of each partition, the messages handed to the handler are those up to the read
  position, in order; \<open>part\<close> tells the partition of a message.
\<close>

definition read_through :: "(message \<Rightarrow> nat) \<Rightarrow> (nat \<Rightarrow> message list) \<Rightarrow> (nat \<Rightarrow> nat) \<Rightarrow> message list \<Rightarrow> bool" where
  "read_through part logs ps seen \<longleftrightarrow>
     (\<forall>p. ps p \<le> length (logs p) \<and> filter (\<lambda>m. part m = p) seen = take (ps p) (logs p))"

lemma read_through_grows:
  assumes "read_through part logs ps seen" and "\<And>p. prefix (logs p) (logs' p)"
  shows "read_through part logs' ps seen"
  unfolding read_through_def
proof (intro allI conjI)
  fix p
  from assms(2) obtain rest where rest: "logs' p = logs p @ rest" by (auto simp: prefix_def)
  from assms(1) show "ps p \<le> length (logs' p)" "filter (\<lambda>m. part m = p) seen = take (ps p) (logs' p)"
    by (simp_all add: rest read_through_def trans_le_add1)
qed

lemma read_through_next:
  assumes "read_through part logs ps seen" and "ps p < length (logs p)" and "part (logs p ! ps p) = p"
  shows "read_through part logs (ps(p := Suc (ps p))) (seen @ [logs p ! ps p])"
  using assms by (auto simp: read_through_def take_Suc_conv_app_nth)

context group_reader
begin

lemma round_reads:
  assumes group: "rc_GroupID cfg \<noteq> ''''"
    and round: "consumer_round (open_reader cfg) (witnessing h) (r, s, seen) = (b, r', s', seen')"
    and start: "read_through part (plog r (rc_Topic cfg)) (pos r) seen"
    and parts: "\<And>p m. m \<in> set (plog r' (rc_Topic cfg) p) \<Longrightarrow> part m = p"
  shows "read_through part (plog r' (rc_Topic cfg)) (pos r') seen'"
proof -
  let ?T = "rc_Topic cfg" and ?R = "open_reader cfg"
  obtain f r1 where f: "FetchMessage ?R r = (f, r1)" by fastforce
  show ?thesis
  proof (cases f)
    case (FetchError c)
    with f round have res: "r' = r1" "seen' = seen" by (simp_all add: consumer_round_def)
    from fetch_err [OF group f [unfolded FetchError]] show ?thesis
      unfolding res by (auto intro!: read_through_grows [OF start])
  next
    case (Fetched m)
    from fetch_ok [OF group f [unfolded Fetched]] obtain p where
      p: "pos r p < length (plog r1 ?T p)" "m = plog r1 ?T p ! pos r p" "pos r1 = (pos r)(p := Suc (pos r p))"
      and grow: "\<And>q. prefix (plog r ?T q) (plog r1 ?T q)" by blast
    obtain v s1 where h: "h m s = (v, s1)" by fastforce
    obtain e r2 where cm: "CommitMessages ?R m r1 = (e, r2)" by fastforce
    note com = commit [OF group cm]
    have res: "seen' = seen @ [m]" "r' = r1 \<or> r' = r2"
      using round f Fetched h cm by (auto simp: consumer_round_def witnessing_def split: option.splits)
    then have same: "pos r' = pos r1" "plog r' = plog r1" using com by auto
    have "part m = p" using parts [of m p] p(1,2) same(2) nth_mem by metis
    with read_through_next [OF read_through_grows [OF start grow], of p] p(1,2) show ?thesis
      unfolding same p(3) res(1) by simp
  qed
qed

lemma round_grows:
  assumes "rc_GroupID cfg \<noteq> ''''" and "consumer_round (open_reader cfg) h (r, s) = (b, r', s')"
  shows "prefix (plog r t p) (plog r' t p)"
proof -
  obtain f r1 where f: "FetchMessage (open_reader cfg) r = (f, r1)" by fastforce
  show ?thesis
  proof (cases f)
    case (FetchError c)
    with f assms fetch_err [OF assms(1), of r c r1] show ?thesis by (simp add: consumer_round_def)
  next
    case (Fetched m)
    obtain e r2 where cm: "CommitMessages (open_reader cfg) m r1 = (e, r2)" by fastforce
    from assms(2) f Fetched cm have "r' = r1 \<or> r' = r2"
      by (auto simp: consumer_round_def split: prod.splits option.splits)
    with commit [OF assms(1) cm] fetch_ok [OF assms(1) f [unfolded Fetched]] show ?thesis by auto
  qed
qed

lemma Run_grows:
  "rc_GroupID cfg \<noteq> '''' \<Longrightarrow> consumer_Run n (open_reader cfg) h (r, s) = (v, r', s') \<Longrightarrow>
     prefix (plog r t p) (plog r' t p)"
proof (induction n arbitrary: r s)
  case (Suc n)
  obtain b r1 s1 where rd: "consumer_round (open_reader cfg) h (r, s) = (b, r1, s1)" by (metis prod_cases3)
  note one = round_grows [OF Suc.prems(1) rd, of t p]
  show ?case
  proof (cases b)
    case False
    with Suc.prems rd have "consumer_Run n (open_reader cfg) h (r1, s1) = (v, r', s')" by simp
    from prefix_order.trans [OF one Suc.IH [OF Suc.prems(1) this]] show ?thesis .
  qed (use Suc.prems rd one in simp)
qed simp

lemma Run_reads:
  assumes group: "rc_GroupID cfg \<noteq> ''''"
  shows "consumer_Run n (open_reader cfg) (witnessing h) (r, s, seen) = (v, r', s', seen') \<Longrightarrow>
     read_through part (plog r (rc_Topic cfg)) (pos r) seen \<Longrightarrow>
     (\<And>p m. m \<in> set (plog r' (rc_Topic cfg) p) \<Longrightarrow> part m = p) \<Longrightarrow>
     read_through part (plog r' (rc_Topic cfg)) (pos r') seen'"
proof (induction n arbitrary: r s seen)
  case (Suc n)
  obtain b r1 s1 seen1 where
    rd: "consumer_round (open_reader cfg) (witnessing h) (r, s, seen) = (b, r1, s1, seen1)"
    by (metis prod_cases4)
  show ?case
  proof (cases b)
    case True
    with Suc.prems rd round_reads [OF group rd Suc.prems(2)] show ?thesis by simp
  next
    case False
    with Suc.prems(1) rd have run: "consumer_Run n (open_reader cfg) (witnessing h) (r1, s1, seen1) = (v, r', s', seen')"
      by simp
    have "part m = p" if "m \<in> set (plog r1 (rc_Topic cfg) p)" for p m
      using Suc.prems(3) that set_mono_prefix [OF Run_grows [OF group run]] by blast
    from Suc.IH [OF run round_reads [OF group rd Suc.prems(2) this] Suc.prems(3)] show ?thesis .
  qed
qed simp

end

section \<open>From the outbox to the handler\<close>

context kafka_cluster
begin

lemma NewProducer_publisher:
  "publisher (PublishRaw (open_writer (NewProducer bs)) now) (\<lambda>k. map event_of (written k))"
  using kafka_writer.is_publisher [OF NewProducer_writer] .

lemma relay_Run_routed:
  "routed k \<Longrightarrow> relay_Run pctx (PublishRaw (open_writer (NewProducer bs)) now) ticks (d, k) = (d', k') \<Longrightarrow> routed k'"
  using relay_Run_bus_inv [where I = routed and pub = "PublishRaw (open_writer (NewProducer bs)) now" and dk = "(d, k)"]
    PublishRaw_routed by (metis snd_conv)

end

lemma filter_prefix: "prefix xs ys \<Longrightarrow> prefix (filter P xs) (filter P ys)"
  by (auto simp: prefix_def)

text \<open>The messages of a key that a consumer was given are, as events, a prefix of those written.\<close>

lemma read_through_key:
  assumes "read_through (\<lambda>m. partition_of t (msg_Key m)) logs ps seen"
    and "routed_logs partition_of all_logs evs" and "prefix (logs (partition_of t key)) (all_logs t (partition_of t key))"
  shows "map event_of (filter (\<lambda>m. msg_Key m = key) seen)
       = filter (\<lambda>(_, key', _). key' = key) (map event_of (take (ps (partition_of t key)) (logs (partition_of t key))))"
    and "prefix (map event_of (filter (\<lambda>m. msg_Key m = key) seen))
       (filter (\<lambda>(t', key', _). t' = t \<and> key' = key) evs)"
proof -
  let ?p = "partition_of t key"
  have "filter (\<lambda>m. msg_Key m = key) seen
      = filter (\<lambda>m. msg_Key m = key) (filter (\<lambda>m. partition_of t (msg_Key m) = ?p) seen)"
    by (auto intro!: filter_cong)
  also have "\<dots> = filter (\<lambda>m. msg_Key m = key) (take (ps ?p) (logs ?p))"
    using assms(1) by (simp add: read_through_def)
  finally show eq: "map event_of (filter (\<lambda>m. msg_Key m = key) seen)
      = filter (\<lambda>(_, key', _). key' = key) (map event_of (take (ps ?p) (logs ?p)))"
    by (simp add: filter_map o_def event_of_def)
  have "prefix (take (ps ?p) (logs ?p)) (all_logs t ?p)"
    using take_is_prefix assms(3) by (rule prefix_order.trans)
  then show "prefix (map event_of (filter (\<lambda>m. msg_Key m = key) seen))
      (filter (\<lambda>(t', key', _). t' = t \<and> key' = key) evs)"
    unfolding eq routed_logs_key [OF assms(2) refl, symmetric]
    by (intro filter_prefix map_mono_prefix)
qed

section \<open>A cluster in memory\<close>

text \<open>Three partitions, keys hashed by their length, over the broker of \<open>Kafka_Bus\<close>; a group member that
  takes the first partition with an unread message.\<close>

definition memory_partition :: "broker \<Rightarrow> string \<Rightarrow> nat \<Rightarrow> message list" where
  "memory_partition b t p = filter (\<lambda>m. msg_Topic m = t \<and> length (msg_Key m) mod 3 = p) (b_log b)"

interpretation memory_cluster: kafka_cluster "\<lambda>cfg. broker_write" b_log "\<lambda>t key. length key mod 3" memory_partition
proof unfold_locales
  fix m off and k k' :: broker
  assume "b_log k' = b_log k @ [m\<lparr>msg_Offset := off\<rparr>]"
  then show "\<exists>i. memory_partition k' = (\<lambda>t p. memory_partition k t p
      @ (if t = msg_Topic m \<and> p = length (msg_Key m) mod 3 then [m\<lparr>msg_Offset := i\<rparr>] else []))"
    by (intro exI [of _ off]) (auto simp: memory_partition_def fun_eq_iff)
qed (auto simp: memory_partition_def fun_eq_iff broker.write_ok broker.write_err)

record member =
  mb_logs :: "string \<Rightarrow> nat \<Rightarrow> message list"
  mb_pos :: "nat \<Rightarrow> nat"

definition member_reader :: "ReaderConfig \<Rightarrow> member reader" where
  "member_reader cfg =
     \<lparr>FetchMessage = (\<lambda>r. case find (\<lambda>p. mb_pos r p < length (mb_logs r (rc_Topic cfg) p)) [0..<3] of
          None \<Rightarrow> (FetchError False, r)
        | Some p \<Rightarrow> (Fetched (mb_logs r (rc_Topic cfg) p ! mb_pos r p), r\<lparr>mb_pos := (mb_pos r)(p := Suc (mb_pos r p))\<rparr>)),
      CommitMessages = (\<lambda>m r. (None, r))\<rparr>"

lemma member_reader_logs: "mb_logs (fst (snd (consumer_Run n (member_reader cfg) h (r, s)))) = mb_logs r"
proof (induction n arbitrary: r s)
  case (Suc n)
  have "mb_logs (fst (snd (consumer_round (member_reader cfg) h (r, s)))) = mb_logs r"
    by (auto simp: consumer_round_def member_reader_def split: option.splits prod.splits)
  with Suc show ?case
    by (cases "consumer_round (member_reader cfg) h (r, s)") (auto split: bool.splits)
qed simp

interpretation member: group_reader member_reader mb_logs mb_pos
proof unfold_locales
  fix cfg r m r'
  assume "FetchMessage (member_reader cfg) r = (Fetched m, r')"
  then show "(\<exists>p. mb_pos r p < length (mb_logs r' (rc_Topic cfg) p) \<and> m = mb_logs r' (rc_Topic cfg) p ! mb_pos r p
       \<and> mb_pos r' = (mb_pos r)(p := Suc (mb_pos r p))) \<and> (\<forall>t p. prefix (mb_logs r t p) (mb_logs r' t p))"
    by (auto simp: member_reader_def find_Some_iff simp del: find.simps upt.simps split: option.splits)
qed (auto simp: member_reader_def split: option.splits)

section \<open>Examples and remarks\<close>

abbreviation example_producer :: "(carrier, broker) publish" where
  "example_producer \<equiv> PublishRaw ((\<lambda>cfg. broker_write) (NewProducer [''kafka:9092''])) 0"

section \<open>Properties\<close>



end
