(* ===== verification/Hub_Concurrency.thy ===== *)
theory Hub_Concurrency
  imports Notification "HOL-Library.Multiset"
begin

text \<open>
  The hub of the notification service (\<^verbatim>\<open>internal/notification/hub.go\<close>) under its goroutines.
  \<open>Notification\<close> treats \<^verbatim>\<open>Register\<close>, \<^verbatim>\<open>Unregister\<close> and \<^verbatim>\<open>Broadcast\<close> as single steps; here each is a
  sequence of steps of its goroutine (taking the lock, each access to the map, releasing the lock, each write to
  a connection), interleaved with those of the others in any way.  The lock keeps the map free of
  races, no goroutine is ever stuck, and what any interleaving leaves behind is what the operations
  leave when run one after the other in the order of their critical sections.
\<close>

section \<open>Operations in steps\<close>

datatype hub_op = HubRegister uuid conn | HubUnregister uuid conn | HubBroadcast uuid json

text \<open>\<^verbatim>\<open>Register\<close> first makes sure that the order has an entry; \<^verbatim>\<open>Unregister\<close> ends with removing an empty one.\<close>

fun first_access :: "hub_op \<Rightarrow> Hub \<Rightarrow> Hub" where
  "first_access (HubRegister i c) h = (if h i = None then h(i := Some []) else h)"
| "first_access (HubUnregister i c) h = (case h i of None \<Rightarrow> h | Some cs \<Rightarrow> h(i := Some (removeAll c cs)))"
| "first_access (HubBroadcast i v) h = h"

fun second_access :: "hub_op \<Rightarrow> Hub \<Rightarrow> Hub" where
  "second_access (HubRegister i c) h =
     (case h i of None \<Rightarrow> h | Some cs \<Rightarrow> h(i := Some (if c \<in> set cs then cs else cs @ [c])))"
| "second_access (HubUnregister i c) h = (if h i = Some [] then h(i := None) else h)"
| "second_access (HubBroadcast i v) h = h"

text \<open>
  Where a goroutine is: before \<^verbatim>\<open>Lock\<close> or \<^verbatim>\<open>RLock\<close>, with the lock before the first and between the two
  accesses to the map, before \<^verbatim>\<open>Unlock\<close>, collecting connections under the read lock, or writing to the
  collected ones.
\<close>

datatype hub_pc =
    Waiting hub_op
  | Locked hub_op
  | HalfDone hub_op
  | Unlocking
  | Collecting uuid json "conn list"
  | Sending json "conn list"
  | Finished

text \<open>\<open>hs_history\<close> is an auxiliary variable: the operations in the order of their critical sections.\<close>

record 'w hub_state =
  hs_pc :: "nat \<Rightarrow> hub_pc"
  hs_writer :: "nat option"
  hs_readers :: "nat list"
  hs_hub :: Hub
  hs_conns :: 'w
  hs_history :: "hub_op list"

definition conns_of :: "Hub \<Rightarrow> uuid \<Rightarrow> conn list" where
  "conns_of h i = (case h i of None \<Rightarrow> [] | Some cs \<Rightarrow> cs)"

fun is_broadcast :: "hub_op \<Rightarrow> bool" where
  "is_broadcast (HubBroadcast i v) = True"
| "is_broadcast _ = False"

text \<open>The next step of goroutine \<open>t\<close>, or \<open>None\<close> when it has to wait or has finished.\<close>

fun hub_thread :: "'w ws_client \<Rightarrow> nat \<Rightarrow> hub_pc \<Rightarrow> 'w hub_state \<Rightarrow> 'w hub_state option" where
  "hub_thread W t (Waiting (HubBroadcast i v)) s =
     (if hs_writer s = None
      then Some (s\<lparr>hs_pc := (hs_pc s)(t := Collecting i v []), hs_readers := t # hs_readers s\<rparr>)
      else None)"
| "hub_thread W t (Waiting op) s =
     (if hs_writer s = None \<and> hs_readers s = []
      then Some (s\<lparr>hs_pc := (hs_pc s)(t := Locked op), hs_writer := Some t\<rparr>)
      else None)"
| "hub_thread W t (Locked op) s =
     Some (s\<lparr>hs_pc := (hs_pc s)(t := HalfDone op), hs_hub := first_access op (hs_hub s)\<rparr>)"
| "hub_thread W t (HalfDone op) s =
     Some (s\<lparr>hs_pc := (hs_pc s)(t := Unlocking), hs_hub := second_access op (hs_hub s),
       hs_history := hs_history s @ [op]\<rparr>)"
| "hub_thread W t Unlocking s = Some (s\<lparr>hs_pc := (hs_pc s)(t := Finished), hs_writer := None\<rparr>)"
| "hub_thread W t (Collecting i v acc) s =
     (if length acc < length (conns_of (hs_hub s) i)
      then Some (s\<lparr>hs_pc := (hs_pc s)(t := Collecting i v (acc @ [conns_of (hs_hub s) i ! length acc]))\<rparr>)
      else Some (s\<lparr>hs_pc := (hs_pc s)(t := Sending v acc), hs_readers := removeAll t (hs_readers s),
        hs_history := hs_history s @ [HubBroadcast i v]\<rparr>))"
| "hub_thread W t (Sending v []) s = Some (s\<lparr>hs_pc := (hs_pc s)(t := Finished)\<rparr>)"
| "hub_thread W t (Sending v (c # cs)) s =
     (case WriteJSON W c v (hs_conns s) of
        (Some err, w) \<Rightarrow> Some (s\<lparr>hs_pc := (hs_pc s)(t := Sending v cs), hs_conns := ws_Close W c w\<rparr>)
      | (None, w) \<Rightarrow> Some (s\<lparr>hs_pc := (hs_pc s)(t := Sending v cs), hs_conns := w\<rparr>))"
| "hub_thread W t Finished s = None"

inductive hub_step :: "'w ws_client \<Rightarrow> 'w hub_state \<Rightarrow> 'w hub_state \<Rightarrow> bool" for W where
  thread: "hub_thread W t (hs_pc s t) s = Some s' \<Longrightarrow> hub_step W s s'"

text \<open>At first goroutine \<open>t\<close> is about to run the \<open>t\<close>-th of some operations.\<close>

definition hub_start :: "hub_op list \<Rightarrow> Hub \<Rightarrow> 'w \<Rightarrow> 'w hub_state" where
  "hub_start ops h w = \<lparr>hs_pc = (\<lambda>t. if t < length ops then Waiting (ops ! t) else Finished), hs_writer = None,
     hs_readers = [], hs_hub = h, hs_conns = w, hs_history = []\<rparr>"

section \<open>The operations one after the other\<close>

fun sequentially :: "'w ws_client \<Rightarrow> hub_op \<Rightarrow> Hub \<times> 'w \<Rightarrow> Hub \<times> 'w" where
  "sequentially W (HubRegister i c) (h, w) = (Register i c h, w)"
| "sequentially W (HubUnregister i c) (h, w) = (Unregister i c h, w)"
| "sequentially W (HubBroadcast i v) (h, w) = Broadcast W i v (h, w)"

fun hub_after :: "hub_op \<Rightarrow> Hub \<Rightarrow> Hub" where
  "hub_after (HubRegister i c) h = Register i c h"
| "hub_after (HubUnregister i c) h = Unregister i c h"
| "hub_after (HubBroadcast i v) h = h"

lemma sequentially_hub: "fst (sequentially W op s) = hub_after op (fst s)"
  by (cases s; cases op) simp_all

lemma sequential_hub: "fst (fold (sequentially W) ops s) = fold hub_after ops (fst s)"
  by (induction ops arbitrary: s) (simp_all add: sequentially_hub)

lemma two_accesses: "second_access op (first_access op h) = hub_after op h"
  by (cases op) (auto simp: Register_def Unregister_def Let_def fun_eq_iff split: option.splits)

lemma hub_wf_after: "hub_wf h \<Longrightarrow> hub_wf (hub_after op h)"
  by (cases op) (simp_all add: hub_wf_Register hub_wf_Unregister)

lemma hub_wf_history: "hub_wf h \<Longrightarrow> hub_wf (fold hub_after ops h)"
  by (induction ops arbitrary: h) (simp_all add: hub_wf_after)

text \<open>What a connection is due from a sequence of operations: the values of the broadcasts to its orders.\<close>

fun due :: "conn \<Rightarrow> hub_op \<Rightarrow> Hub \<Rightarrow> json multiset" where
  "due c (HubBroadcast i v) h = (if c \<in> subscribers h i then {#v#} else {#})"
| "due c _ h = {#}"

fun promised :: "conn \<Rightarrow> hub_op list \<Rightarrow> Hub \<Rightarrow> json multiset" where
  "promised c [] h = {#}"
| "promised c (op # ops) h = due c op h + promised c ops (hub_after op h)"

lemma promised_append: "promised c (xs @ ys) h = promised c xs h + promised c ys (fold hub_after xs h)"
  by (induction xs arbitrary: h) (simp_all add: add.assoc)

lemma subscribers_conns: "subscribers h i = set (conns_of h i)"
  by (simp add: subscribers_def conns_of_def split: option.splits)

lemma count_distinct: "distinct xs \<Longrightarrow> count_list xs c = (if c \<in> set xs then 1 else 0)"
  by (induction xs) auto

lemma due_count: "hub_wf h \<Longrightarrow> due c (HubBroadcast i v) h = replicate_mset (count_list (conns_of h i) c) v"
  using hub_wf_distinct [of h i] count_distinct [of "conns_of h i" c] by (auto simp: subscribers_conns conns_of_def)

context ws_contract
begin

lemma sequentially_received:
  assumes "\<And>c v w. \<exists>w'. WriteJSON W c v w = (None, w')" "hub_wf h"
  shows "mset (received (snd (sequentially W op (h, w))) c) = mset (received w c) + due c op h"
  using Broadcast_received [OF assms, where w = w and c = c] by (cases op) simp_all

lemma sequential_received:
  assumes "\<And>c v w. \<exists>w'. WriteJSON W c v w = (None, w')"
  shows "hub_wf h \<Longrightarrow>
     mset (received (snd (fold (sequentially W) ops (h, w))) c) = mset (received w c) + promised c ops h"
proof (induction ops arbitrary: h w)
  case (Cons op ops)
  obtain h1 w1 where s1: "sequentially W op (h, w) = (h1, w1)" by fastforce
  have h1: "h1 = hub_after op h" using sequentially_hub [of W op "(h, w)"] s1 by simp
  from Cons.IH [of h1 w1] sequentially_received [OF assms Cons.prems, where op = op and w = w and c = c]
    hub_wf_after [OF Cons.prems, of op] s1 h1 show ?case
    by (simp add: add.assoc)
qed simp

end

section \<open>The lock\<close>

fun in_writing :: "hub_pc \<Rightarrow> bool" where
  "in_writing (Locked op) = True"
| "in_writing (HalfDone op) = True"
| "in_writing Unlocking = True"
| "in_writing _ = False"

fun in_reading :: "hub_pc \<Rightarrow> bool" where
  "in_reading (Collecting i v acc) = True"
| "in_reading _ = False"

definition hub_locked :: "'w hub_state \<Rightarrow> bool" where
  "hub_locked s \<longleftrightarrow> (\<forall>t. hs_writer s = Some t \<longleftrightarrow> in_writing (hs_pc s t))
     \<and> (\<forall>t. t \<in> set (hs_readers s) \<longleftrightarrow> in_reading (hs_pc s t)) \<and> (hs_writer s \<noteq> None \<longrightarrow> hs_readers s = [])"

text \<open>The steps by name.\<close>

lemma hub_thread_cases:
  assumes "hub_thread W t (hs_pc s t) s = Some s'"
  obtains
    (rlock) i v where "hs_pc s t = Waiting (HubBroadcast i v)" "hs_writer s = None"
      "s' = s\<lparr>hs_pc := (hs_pc s)(t := Collecting i v []), hs_readers := t # hs_readers s\<rparr>"
  | (lock) op where "hs_pc s t = Waiting op" "\<not> is_broadcast op" "hs_writer s = None" "hs_readers s = []"
      "s' = s\<lparr>hs_pc := (hs_pc s)(t := Locked op), hs_writer := Some t\<rparr>"
  | (first) op where "hs_pc s t = Locked op"
      "s' = s\<lparr>hs_pc := (hs_pc s)(t := HalfDone op), hs_hub := first_access op (hs_hub s)\<rparr>"
  | (second) op where "hs_pc s t = HalfDone op"
      "s' = s\<lparr>hs_pc := (hs_pc s)(t := Unlocking), hs_hub := second_access op (hs_hub s), hs_history := hs_history s @ [op]\<rparr>"
  | (unlock) "hs_pc s t = Unlocking" "s' = s\<lparr>hs_pc := (hs_pc s)(t := Finished), hs_writer := None\<rparr>"
  | (collect) i v acc where "hs_pc s t = Collecting i v acc" "length acc < length (conns_of (hs_hub s) i)"
      "s' = s\<lparr>hs_pc := (hs_pc s)(t := Collecting i v (acc @ [conns_of (hs_hub s) i ! length acc]))\<rparr>"
  | (runlock) i v acc where "hs_pc s t = Collecting i v acc" "\<not> length acc < length (conns_of (hs_hub s) i)"
      "s' = s\<lparr>hs_pc := (hs_pc s)(t := Sending v acc), hs_readers := removeAll t (hs_readers s),
        hs_history := hs_history s @ [HubBroadcast i v]\<rparr>"
  | (finish) v where "hs_pc s t = Sending v []" "s' = s\<lparr>hs_pc := (hs_pc s)(t := Finished)\<rparr>"
  | (send) v c cs e w where "hs_pc s t = Sending v (c # cs)" "WriteJSON W c v (hs_conns s) = (e, w)"
      "s' = s\<lparr>hs_pc := (hs_pc s)(t := Sending v cs), hs_conns := (case e of None \<Rightarrow> w | Some err \<Rightarrow> ws_Close W c w)\<rparr>"
proof (cases "hs_pc s t")
  case (Waiting op)
  then show ?thesis using assms rlock lock by (cases op) (auto split: if_splits)
next
  case (Sending v cs)
  then show ?thesis
    using assms finish send by (cases cs) (auto split: prod.splits option.splits)
qed (use assms first second unlock collect runlock in \<open>auto split: if_splits\<close>)

lemma hub_locked_start: "hub_locked (hub_start ops h w)"
  by (simp add: hub_locked_def hub_start_def)

lemma hub_locked_step:
  assumes "hub_locked s" "hub_step W s s'"
  shows "hub_locked s'"
proof -
  from assms(2) obtain t where "hub_thread W t (hs_pc s t) s = Some s'" by cases
  then show ?thesis
  proof (cases rule: hub_thread_cases)
    case unlock
    with assms(1) have "hs_writer s = Some t" by (simp add: hub_locked_def)
    with unlock assms(1) show ?thesis by (auto simp: hub_locked_def)
  qed (use assms(1) in \<open>auto simp: hub_locked_def\<close>)
qed

lemma hub_locked_reachable: "(hub_step W)\<^sup>*\<^sup>* s s' \<Longrightarrow> hub_locked s \<Longrightarrow> hub_locked s'"
  by (induction rule: rtranclp_induct) (auto intro: hub_locked_step)

lemma in_writing_holds: "hub_locked s \<Longrightarrow> in_writing (hs_pc s t) \<Longrightarrow> hs_writer s = Some t"
  by (simp add: hub_locked_def)

lemma writing_excludes: "hub_locked s \<Longrightarrow> in_writing (hs_pc s t) \<Longrightarrow> t \<noteq> u \<Longrightarrow>
    \<not> in_writing (hs_pc s u) \<and> \<not> in_reading (hs_pc s u)"
  unfolding hub_locked_def by (metis empty_iff list.set(1) option.distinct(1) option.inject)

text \<open>A goroutine waits only for one that holds the lock, and a holder can always go on.\<close>

lemma hub_thread_enabled:
  "(case hs_pc s t of Waiting op \<Rightarrow> hs_writer s = None \<and> (is_broadcast op \<or> hs_readers s = []) | Finished \<Rightarrow> False | _ \<Rightarrow> True)
     \<Longrightarrow> hub_thread W t (hs_pc s t) s \<noteq> None"
  by (cases "(W, t, hs_pc s t, s)" rule: hub_thread.cases) (auto split: prod.splits option.splits)

lemma hub_progress:
  assumes "hub_locked s" "hs_pc s t \<noteq> Finished"
  shows "\<exists>u. hub_thread W u (hs_pc s u) s \<noteq> None"
proof (cases "hs_writer s = None \<and> hs_readers s = []")
  case True
  with assms(2) have "hub_thread W t (hs_pc s t) s \<noteq> None"
    by (intro hub_thread_enabled) (auto split: hub_pc.splits)
  then show ?thesis ..
next
  case False
  then obtain u where "in_writing (hs_pc s u) \<or> in_reading (hs_pc s u)"
    using assms(1) unfolding hub_locked_def by (metis list.set_intros(1) neq_Nil_conv not_None_eq)
  then have "hub_thread W u (hs_pc s u) s \<noteq> None"
    by (intro hub_thread_enabled) (auto split: hub_pc.splits)
  then show ?thesis ..
qed

section \<open>Every interleaving amounts to a sequence\<close>

text \<open>The writer between its two accesses is the only one that makes the map differ from its history.\<close>

definition half_done :: "'w hub_state \<Rightarrow> Hub \<Rightarrow> Hub" where
  "half_done s = (case hs_writer s of None \<Rightarrow> id
     | Some t \<Rightarrow> (case hs_pc s t of HalfDone op \<Rightarrow> first_access op | _ \<Rightarrow> id))"

definition hub_explained :: "Hub \<Rightarrow> 'w hub_state \<Rightarrow> bool" where
  "hub_explained h s \<longleftrightarrow> hs_hub s = half_done s (fold hub_after (hs_history s) h)
     \<and> (\<forall>t op. hs_pc s t = Locked op \<or> hs_pc s t = HalfDone op \<longrightarrow> \<not> is_broadcast op)
     \<and> (\<forall>t i v acc. hs_pc s t = Collecting i v acc \<longrightarrow> prefix acc (conns_of (hs_hub s) i))"

lemma half_done_other:
  assumes "hub_locked s" "\<not> in_writing (hs_pc s t)" "hs_writer s' = hs_writer s" "hs_pc s' = (hs_pc s)(t := pc)"
  shows "half_done s' = half_done s"
proof -
  have "hs_writer s \<noteq> Some t" using assms(1,2) by (simp add: hub_locked_def)
  then show ?thesis unfolding half_done_def assms(3,4) by (simp split: option.splits)
qed

lemma hub_explained_step:
  assumes "hub_locked s" "hub_explained h s" "hub_thread W t (hs_pc s t) s = Some s'"
  shows "hub_explained h s'"
  using assms(3)
proof (cases rule: hub_thread_cases)
  case (first op)
  with assms(1) have w: "hs_writer s = Some t" by (simp add: in_writing_holds)
  then have "\<not> in_reading (hs_pc s u)" for u using assms(1) by (auto simp: hub_locked_def)
  then have "hs_pc s u \<noteq> Collecting i v acc" for u i v acc by (metis in_reading.simps(1))
  with first w assms(2) show ?thesis by (auto simp: hub_explained_def half_done_def)
next
  case (second op)
  with assms(1) have w: "hs_writer s = Some t" by (simp add: in_writing_holds)
  then have "\<not> in_reading (hs_pc s u)" for u using assms(1) by (auto simp: hub_locked_def)
  then have "hs_pc s u \<noteq> Collecting i v acc" for u i v acc by (metis in_reading.simps(1))
  with second w assms(2) show ?thesis by (auto simp: hub_explained_def half_done_def two_accesses)
next
  case unlock
  with assms(1) have w: "hs_writer s = Some t" by (simp add: in_writing_holds)
  with unlock assms(2) show ?thesis by (auto simp: hub_explained_def half_done_def)
next
  case (lock op)
  with assms(2) show ?thesis by (auto simp: hub_explained_def half_done_def)
next
  case (rlock i v)
  with assms(2) show ?thesis by (auto simp: hub_explained_def half_done_def)
next
  case (collect i v acc)
  have "prefix acc (conns_of (hs_hub s) i)" using assms(2) collect(1) unfolding hub_explained_def by blast
  from append_one_prefix [OF this collect(2)]
  have "prefix (acc @ [conns_of (hs_hub s) i ! length acc]) (conns_of (hs_hub s) i)" .
  moreover have "half_done s' = half_done s"
    by (rule half_done_other [OF assms(1)]) (simp_all add: collect)
  ultimately show ?thesis using collect(3) assms(2) by (auto simp: hub_explained_def)
next
  case (runlock i v acc)
  have "half_done s' = half_done s"
    by (rule half_done_other [OF assms(1)]) (simp_all add: runlock)
  with runlock assms(2) show ?thesis by (auto simp: hub_explained_def)
next
  case (finish v)
  have "half_done s' = half_done s"
    by (rule half_done_other [OF assms(1)]) (simp_all add: finish)
  with finish assms(2) show ?thesis by (auto simp: hub_explained_def)
next
  case (send v c cs e w)
  have "half_done s' = half_done s"
    by (rule half_done_other [OF assms(1)]) (simp_all add: send)
  with send assms(2) show ?thesis by (auto simp: hub_explained_def)
qed

text \<open>What the goroutines below \<open>n\<close> still have before them.\<close>

definition over_threads :: "nat \<Rightarrow> (hub_pc \<Rightarrow> 'a multiset) \<Rightarrow> 'w hub_state \<Rightarrow> 'a multiset" where
  "over_threads n f s = (\<Sum>t<n. f (hs_pc s t))"

lemma over_threads_update:
  assumes "t < n" "hs_pc s' = (hs_pc s)(t := pc)"
  shows "over_threads n f s' + f (hs_pc s t) = over_threads n f s + f pc"
proof -
  have split: "{..<n} = insert t ({..<n} - {t})" using assms(1) by auto
  have "(\<Sum>u\<in>{..<n} - {t}. f (((hs_pc s)(t := pc)) u)) = (\<Sum>u\<in>{..<n} - {t}. f (hs_pc s u))"
    by (rule sum.cong) auto
  then show ?thesis
    unfolding over_threads_def assms(2) by (subst (1 2) split) (simp add: sum.insert_remove add.commute add.left_commute)
qed

fun pending_op :: "hub_pc \<Rightarrow> hub_op multiset" where
  "pending_op (Waiting op) = {#op#}"
| "pending_op (Locked op) = {#op#}"
| "pending_op (HalfDone op) = {#op#}"
| "pending_op (Collecting i v acc) = {#HubBroadcast i v#}"
| "pending_op _ = {#}"

fun still_to_send :: "conn \<Rightarrow> hub_pc \<Rightarrow> json multiset" where
  "still_to_send c (Sending v cs) = replicate_mset (count_list cs c) v"
| "still_to_send c _ = {#}"

lemma pending_step:
  assumes "t < n" "hub_thread W t (hs_pc s t) s = Some s'"
  shows "mset (hs_history s') + over_threads n pending_op s' = mset (hs_history s) + over_threads n pending_op s"
  using assms(2)
proof (cases rule: hub_thread_cases)
  case (second op)
  then show ?thesis using over_threads_update [OF assms(1), of s' s Unlocking pending_op] by simp
next
  case (runlock i v acc)
  then show ?thesis using over_threads_update [OF assms(1), of s' s "Sending v acc" pending_op] by simp
qed (use over_threads_update [OF assms(1), of s' s _ pending_op] in \<open>fastforce+\<close>)

lemma due_write: "\<not> is_broadcast op \<Longrightarrow> due c op h = {#}"
  by (cases op) simp_all

context ws_contract
begin

text \<open>What was delivered or is still to be sent keeps up with what the history promises.\<close>

definition delivering :: "nat \<Rightarrow> conn \<Rightarrow> 'w hub_state \<Rightarrow> json multiset" where
  "delivering n c s = mset (received (hs_conns s) c) + over_threads n (still_to_send c) s"

lemma quiet_step:
  assumes "t < n" "hs_pc s' = (hs_pc s)(t := pc)" "still_to_send c pc = {#}" "still_to_send c (hs_pc s t) = {#}"
    and "hs_conns s' = hs_conns s"
  shows "delivering n c s' = delivering n c s"
  using over_threads_update [OF assms(1,2), of "still_to_send c"] assms(3-5) by (simp add: delivering_def)

lemma delivery_step:
  assumes "hub_locked s" "hub_explained h s" "hub_wf h" "t < n" "hub_thread W t (hs_pc s t) s = Some s'"
  shows "\<exists>x. promised c (hs_history s') h = promised c (hs_history s) h + x
     \<and> delivering n c s' \<subseteq># delivering n c s + x
     \<and> ((\<forall>c v w. \<exists>w'. WriteJSON W c v w = (None, w')) \<longrightarrow> delivering n c s' = delivering n c s + x)"
  using assms(5)
proof (cases rule: hub_thread_cases)
  case (second op)
  with assms(2) have "\<not> is_broadcast op" unfolding hub_explained_def by blast
  moreover have "delivering n c s' = delivering n c s"
    by (rule quiet_step [OF assms(4), where pc = Unlocking]) (simp_all add: second)
  ultimately show ?thesis using second by (intro exI [of _ "{#}"]) (simp add: promised_append due_write)
next
  case (runlock i v acc)
  have "t \<in> set (hs_readers s)" using assms(1) runlock(1) by (simp add: hub_locked_def)
  then have "hs_writer s = None" using assms(1) by (auto simp: hub_locked_def)
  then have hub: "hs_hub s = fold hub_after (hs_history s) h"
    using assms(2) by (simp add: hub_explained_def half_done_def)
  have "prefix acc (conns_of (hs_hub s) i)" using assms(2) runlock(1) unfolding hub_explained_def by blast
  then have acc: "acc = conns_of (hs_hub s) i" using runlock(2) by (auto simp: prefix_def)
  let ?x = "due c (HubBroadcast i v) (hs_hub s)"
  have x: "?x = still_to_send c (Sending v acc)"
    using due_count [OF hub_wf_history [OF assms(3)]] by (simp add: acc hub)
  have "over_threads n (still_to_send c) s' = over_threads n (still_to_send c) s + ?x"
    using over_threads_update [OF assms(4), of s' s "Sending v acc" "still_to_send c"] runlock x by simp
  with runlock(3) show ?thesis
    by (intro exI [of _ ?x]) (simp add: delivering_def promised_append hub)
next
  case (send v d cs e w)
  have got: "mset (received (hs_conns s') c) \<subseteq># mset (received (hs_conns s) c) + (if d = c then {#v#} else {#})"
    using send(2,3) write_err [of d v "hs_conns s" _ w] close
    by (cases e) (auto simp: write_ok)
  have eq: "e = None \<Longrightarrow> mset (received (hs_conns s') c) = mset (received (hs_conns s) c) + (if d = c then {#v#} else {#})"
    using send(2,3) write_ok [of d v "hs_conns s" w] by auto
  have rest: "over_threads n (still_to_send c) s = over_threads n (still_to_send c) s' + (if d = c then {#v#} else {#})"
    using over_threads_update [OF assms(4), of s' s "Sending v cs" "still_to_send c"] send(1,3)
    by (auto split: if_splits)
  have "delivering n c s' \<subseteq># delivering n c s"
    using subset_mset.add_right_mono [OF got, of "over_threads n (still_to_send c) s'"]
    by (simp only: delivering_def rest ac_simps)
  moreover have "delivering n c s' = delivering n c s" if "\<forall>c v w. \<exists>w'. WriteJSON W c v w = (None, w')"
  proof -
    from that send(2) have "e = None" by (metis prod.inject)
    from eq [OF this] show ?thesis by (simp only: delivering_def rest ac_simps)
  qed
  ultimately show ?thesis using send(3) by (intro exI [of _ "{#}"]) simp
qed (use quiet_step [OF assms(4), of s' s _ c] in \<open>fastforce+\<close>)

end

text \<open>What holds in every state that the goroutines reach.\<close>

definition hub_reached :: "hub_op list \<Rightarrow> Hub \<Rightarrow> 'w hub_state \<Rightarrow> bool" where
  "hub_reached ops h s \<longleftrightarrow> hub_locked s \<and> hub_explained h s \<and> (\<forall>t. hs_pc s t \<noteq> Finished \<longrightarrow> t < length ops)
     \<and> mset (hs_history s) + over_threads (length ops) pending_op s = mset ops"

lemma sum_nth_mset: "(\<Sum>t<length xs. {#xs ! t#}) = mset xs"
  by (induction xs rule: rev_induct) (simp_all add: nth_append)

lemma hub_reached_start: "hub_reached ops h (hub_start ops h w)"
proof -
  have "over_threads (length ops) pending_op (hub_start ops h w) = mset ops"
    by (simp add: over_threads_def hub_start_def sum_nth_mset)
  then show ?thesis
    by (simp add: hub_reached_def hub_locked_start)
      (simp add: hub_explained_def half_done_def hub_start_def split: if_splits)
qed

lemma hub_thread_moves: "hub_thread W t (hs_pc s t) s = Some s' \<Longrightarrow> hs_pc s t \<noteq> Finished \<and> (\<forall>u. u \<noteq> t \<longrightarrow> hs_pc s' u = hs_pc s u)"
  by (erule hub_thread_cases) auto

lemma hub_reached_step:
  assumes "hub_reached ops h s" "hub_thread W t (hs_pc s t) s = Some s'"
  shows "hub_reached ops h s'"
proof -
  note moves = hub_thread_moves [OF assms(2)]
  from assms(1) moves have t: "t < length ops" by (simp add: hub_reached_def)
  have "\<forall>u. hs_pc s' u \<noteq> Finished \<longrightarrow> u < length ops"
    using assms(1) moves t unfolding hub_reached_def by metis
  then show ?thesis
    using assms(1) hub_locked_step [OF _ hub_step.thread [OF assms(2)]] hub_explained_step [OF _ _ assms(2)]
      pending_step [OF t assms(2)]
    by (simp add: hub_reached_def)
qed

context ws_contract
begin

lemma hub_run:
  assumes "hub_wf h" "(hub_step W)\<^sup>*\<^sup>* (hub_start ops h w) s"
  shows "hub_reached ops h s
     \<and> delivering (length ops) c s \<subseteq># mset (received w c) + promised c (hs_history s) h
     \<and> ((\<forall>c v w. \<exists>w'. WriteJSON W c v w = (None, w')) \<longrightarrow>
          delivering (length ops) c s = mset (received w c) + promised c (hs_history s) h)"
  using assms(2)
proof (induction rule: rtranclp_induct)
  case base
  have "over_threads (length ops) (still_to_send c) (hub_start ops h w) = {#}"
    by (simp add: over_threads_def hub_start_def)
  then show ?case by (simp add: hub_reached_start delivering_def) (simp add: hub_start_def)
next
  case (step s s')
  from step(2) obtain t where t: "hub_thread W t (hs_pc s t) s = Some s'" by cases
  from step(3) have reached: "hub_reached ops h s" by blast
  then have "hub_locked s" "hub_explained h s" "t < length ops"
    using hub_thread_moves [OF t] by (simp_all add: hub_reached_def)
  from delivery_step [OF this(1,2) assms(1) this(3) t, of c] obtain x where
    x: "promised c (hs_history s') h = promised c (hs_history s) h + x"
      "delivering (length ops) c s' \<subseteq># delivering (length ops) c s + x"
      "(\<forall>c v w. \<exists>w'. WriteJSON W c v w = (None, w')) \<longrightarrow> delivering (length ops) c s' = delivering (length ops) c s + x"
    by blast
  have "delivering (length ops) c s + x \<subseteq># mset (received w c) + promised c (hs_history s) h + x"
    using step(3) by (simp add: subset_mset.add_right_mono)
  with x(2) have "delivering (length ops) c s' \<subseteq># mset (received w c) + promised c (hs_history s) h + x"
    by (rule subset_mset.order_trans)
  with x(1,3) step(3) hub_reached_step [OF reached t] show ?case by (simp add: add.assoc)
qed

end

lemma finished_threads:
  assumes "\<forall>t < n. hs_pc s t = Finished" "f Finished = {#}"
  shows "over_threads n f s = {#}"
  using assms by (simp add: over_threads_def)

section \<open>Examples and remarks\<close>

text \<open>Running a given schedule of the goroutines.\<close>

fun hub_schedule :: "'w ws_client \<Rightarrow> nat list \<Rightarrow> 'w hub_state \<Rightarrow> 'w hub_state option" where
  "hub_schedule W [] s = Some s"
| "hub_schedule W (t # ts) s = (case hub_thread W t (hs_pc s t) s of None \<Rightarrow> None | Some s' \<Rightarrow> hub_schedule W ts s')"

lemma hub_schedule_reaches: "hub_schedule W ts s = Some s' \<Longrightarrow> (hub_step W)\<^sup>*\<^sup>* s s'"
  by (induction ts arbitrary: s)
    (auto split: option.splits intro: converse_rtranclp_into_rtranclp hub_step.thread)

definition example_hub :: Hub where
  "example_hub = Register 7 1 NewHub"

lemma example_hub_wf: "hub_wf example_hub"
  by (simp add: example_hub_def hub_wf_Register hub_wf_NewHub)

lemmas example_hub_simps = example_hub_def Register_def NewHub_def hub_start_def conns_of_def open_ws_def

text \<open>
  The lock does not cover the writes: two broadcasts for one order, from two of the four consumers, can both
  be about to write to the same connection, which allows one writer at a time.
\<close>

lemma broadcasts_share_connection:
  "\<exists>s. (hub_step open_ws)\<^sup>*\<^sup>* (hub_start [HubBroadcast 7 (JStr ''a''), HubBroadcast 7 (JStr ''b'')] example_hub (\<lambda>_. [])) s
     \<and> hs_pc s 0 = Sending (JStr ''a'') [1] \<and> hs_pc s 1 = Sending (JStr ''b'') [1]"
proof -
  obtain s where "hub_schedule open_ws [0, 1, 0, 1, 0, 1]
      (hub_start [HubBroadcast 7 (JStr ''a''), HubBroadcast 7 (JStr ''b'')] example_hub (\<lambda>_. [])) = Some s"
    "hs_pc s 0 = Sending (JStr ''a'') [1] \<and> hs_pc s 1 = Sending (JStr ''b'') [1]"
    by (simp add: example_hub_simps)
  with hub_schedule_reaches show ?thesis by blast
qed

text \<open>
  A connection may be written to after it was unregistered: a broadcast that has collected its
  connections goes on with them.
\<close>

lemma broadcast_outlives_registration:
  "\<exists>s. (hub_step open_ws)\<^sup>*\<^sup>* (hub_start [HubBroadcast 7 JNull, HubUnregister 7 1] example_hub (\<lambda>_. [])) s
     \<and> hs_pc s 1 = Finished \<and> 1 \<notin> subscribers (hs_hub s) 7 \<and> hs_pc s 0 = Sending JNull [1]"
proof -
  obtain s where "hub_schedule open_ws [0, 0, 0, 1, 1, 1, 1]
      (hub_start [HubBroadcast 7 JNull, HubUnregister 7 1] example_hub (\<lambda>_. [])) = Some s"
    "hs_pc s 1 = Finished \<and> 1 \<notin> subscribers (hs_hub s) 7 \<and> hs_pc s 0 = Sending JNull [1]"
    by (simp add: example_hub_simps subscribers_def)
  with hub_schedule_reaches show ?thesis by blast
qed

section \<open>Properties\<close>



text \<open>
  C31: the hub's lock works: whatever the goroutines have done, while one is changing the map no other
  reads or changes it; some goroutine can go on unless all have finished; and one that waits for the
  lock can take it as soon as no goroutine is inside, however many are still writing to slow clients.
\<close>

theorem hub_never_races_nor_blocks:
  assumes "(hub_step W)\<^sup>*\<^sup>* (hub_start ops h w) s"
  shows "(\<forall>t u. in_writing (hs_pc s t) \<and> t \<noteq> u \<longrightarrow> \<not> in_writing (hs_pc s u) \<and> \<not> in_reading (hs_pc s u))
     \<and> ((\<exists>t. hs_pc s t \<noteq> Finished) \<longrightarrow> (\<exists>s'. hub_step W s s'))
     \<and> (\<forall>t op. hs_pc s t = Waiting op \<and> (\<forall>u. \<not> in_writing (hs_pc s u) \<and> \<not> in_reading (hs_pc s u)) \<longrightarrow>
          hub_thread W t (hs_pc s t) s \<noteq> None)"
proof -
  have locked: "hub_locked s" using hub_locked_reachable [OF assms hub_locked_start] .
  have "\<exists>s'. hub_step W s s'" if "hs_pc s t \<noteq> Finished" for t
    using hub_progress [OF locked that, of W] hub_step.thread by blast
  moreover have "hub_thread W t (hs_pc s t) s \<noteq> None"
    if "hs_pc s t = Waiting op" "\<forall>u. \<not> in_writing (hs_pc s u) \<and> \<not> in_reading (hs_pc s u)" for t op
  proof -
    from that(2) locked have "hs_writer s = None" "hs_readers s = []"
      unfolding hub_locked_def by (metis not_None_eq) (metis locked hub_locked_def list.set_intros(1) neq_Nil_conv that(2))
    then show ?thesis by (intro hub_thread_enabled) (simp add: that(1))
  qed
  ultimately show ?thesis using writing_excludes [OF locked] by blast
qed

theorem hub_never_races_nor_blocks_witness:
  "\<exists>s. hub_schedule open_ws [0, 0, 0, 1]
       (hub_start [HubBroadcast 7 JNull, HubUnregister 7 1] example_hub (\<lambda>_. [])) = Some s
     \<and> (\<exists>s'. hub_step open_ws s s')"
proof -
  obtain s where s: "hub_schedule open_ws [0, 0, 0, 1]
      (hub_start [HubBroadcast 7 JNull, HubUnregister 7 1] example_hub (\<lambda>_. [])) = Some s" "hs_pc s 0 \<noteq> Finished"
    by (simp add: example_hub_simps)
  from hub_never_races_nor_blocks [OF hub_schedule_reaches [OF s(1)]] s show ?thesis by blast
qed

end
