(* ===== verification/Configuration.thy ===== *)
theory Configuration
  imports Kafka_Bus
begin

text \<open>
  \<^verbatim>\<open>pkg/config\<close>: the configuration structs, the defaults and \<^verbatim>\<open>Load\<close> over the library \<^verbatim>\<open>viper\<close>, a
  parameter.  The locale \<open>viper_laws\<close> says what its calls do to the settings it keeps and which value it
  gives a key; the property is the precedence that results for every field of the configuration.
\<close>

section \<open>Configuration\<close>

record Telemetry = tel_Enabled :: bool  tel_OTLPEndpoint :: string
record Auth_config = ac_JWTSecret :: string  ac_TTLHours :: int
record RateLimit = rl_OrdersPerMinute :: int
record Postgres = pgc_Host :: string  pgc_Port :: int  pgc_Name :: string  pgc_User :: string  pgc_Password :: string  pgc_SSLMode :: string
record Redis = rdc_Addr :: string  rdc_Password :: string  rdc_DB :: int
record Kafka = kc_Brokers :: "string list"  kc_GroupID :: string
record Services = sv_OrderPort :: int  sv_RiderPort :: int  sv_LocationPort :: int  sv_NotifyPort :: int

record Config =
  cfg_Env :: string
  cfg_Postgres :: Postgres
  cfg_Redis :: Redis
  cfg_Kafka :: Kafka
  cfg_Services :: Services
  cfg_RateLimit :: RateLimit
  cfg_Auth :: Auth_config
  cfg_Telemetry :: Telemetry

text \<open>The configuration library \<^verbatim>\<open>viper\<close>, over its own state \<open>'v\<close>.\<close>

datatype config_value = VString string | VInt int | VBool bool | VStrings "string list"

record 'v viper =
  viper_New :: 'v
  SetConfigFile :: "string \<Rightarrow> 'v \<Rightarrow> 'v"
  SetConfigType :: "string \<Rightarrow> 'v \<Rightarrow> 'v"
  SetEnvPrefix :: "string \<Rightarrow> 'v \<Rightarrow> 'v"
  SetEnvKeyReplacer :: "(string \<times> string) list \<Rightarrow> 'v \<Rightarrow> 'v"
  AutomaticEnv :: "'v \<Rightarrow> 'v"
  SetDefault :: "string \<Rightarrow> config_value \<Rightarrow> 'v \<Rightarrow> 'v"
  ReadInConfig :: "'v \<Rightarrow> error option \<times> 'v"
  viper_Unmarshal :: "'v \<Rightarrow> error + Config"
  ConfigFileNotFoundError :: "error \<Rightarrow> bool"

definition config_defaults :: "(string \<times> config_value) list" where
  "config_defaults =
     [(''env'', VString ''local''),
      (''postgres.host'', VString ''localhost''),
      (''postgres.port'', VInt 5432),
      (''postgres.name'', VString ''delivery_engine''),
      (''postgres.user'', VString ''postgres''),
      (''postgres.password'', VString ''postgres''),
      (''postgres.sslmode'', VString ''disable''),
      (''redis.addr'', VString ''localhost:6379''),
      (''redis.db'', VInt 0),
      (''kafka.brokers'', VStrings [''localhost:9092'']),
      (''kafka.group_id'', VString ''delivery-engine''),
      (''services.order_port'', VInt 8080),
      (''services.rider_port'', VInt 8081),
      (''services.location_port'', VInt 8083),
      (''services.notify_port'', VInt 8085),
      (''rate_limit.orders_per_minute'', VInt 5),
      (''auth.jwt_secret'', VString ''dev-only-secret-change-me''),
      (''auth.ttl_hours'', VInt 24),
      (''telemetry.enabled'', VBool True),
      (''telemetry.otlp_endpoint'', VString ''localhost:4318'')]"

definition setDefaults :: "'v viper \<Rightarrow> 'v \<Rightarrow> 'v" where
  "setDefaults V v = fold (\<lambda>(key, x). SetDefault V key x) config_defaults v"

definition Load :: "'v viper \<Rightarrow> string \<Rightarrow> error + Config" where
  "Load V path =
     (let v = viper_New V;
          v = SetConfigFile V path v;
          v = SetConfigType V ''yaml'' v;
          v = SetEnvPrefix V ''DE'' v;
          v = SetEnvKeyReplacer V [(''.'', ''_'')] v;
          v = AutomaticEnv V v;
          v = setDefaults V v
      in case ReadInConfig V v of
           (Some err, v') \<Rightarrow> if \<not> ConfigFileNotFoundError V err then Inl err else viper_Unmarshal V v'
         | (None, v') \<Rightarrow> viper_Unmarshal V v')"

section \<open>Keys\<close>

text \<open>The keys of the struct tags with the zero value of their field, and the field a key stands for.\<close>

definition zero_values :: "(string \<times> config_value) list" where
  "zero_values =
     [(''env'', VString ''''),
      (''postgres.host'', VString ''''),
      (''postgres.port'', VInt 0),
      (''postgres.name'', VString ''''),
      (''postgres.user'', VString ''''),
      (''postgres.password'', VString ''''),
      (''postgres.sslmode'', VString ''''),
      (''redis.addr'', VString ''''),
      (''redis.password'', VString ''''),
      (''redis.db'', VInt 0),
      (''kafka.brokers'', VStrings []),
      (''kafka.group_id'', VString ''''),
      (''services.order_port'', VInt 0),
      (''services.rider_port'', VInt 0),
      (''services.location_port'', VInt 0),
      (''services.notify_port'', VInt 0),
      (''rate_limit.orders_per_minute'', VInt 0),
      (''auth.jwt_secret'', VString ''''),
      (''auth.ttl_hours'', VInt 0),
      (''telemetry.enabled'', VBool False),
      (''telemetry.otlp_endpoint'', VString '''')]"

definition config_fields :: "Config \<Rightarrow> (string \<times> config_value) list" where
  "config_fields c =
     [(''env'', VString (cfg_Env c)),
      (''postgres.host'', VString (pgc_Host (cfg_Postgres c))),
      (''postgres.port'', VInt (pgc_Port (cfg_Postgres c))),
      (''postgres.name'', VString (pgc_Name (cfg_Postgres c))),
      (''postgres.user'', VString (pgc_User (cfg_Postgres c))),
      (''postgres.password'', VString (pgc_Password (cfg_Postgres c))),
      (''postgres.sslmode'', VString (pgc_SSLMode (cfg_Postgres c))),
      (''redis.addr'', VString (rdc_Addr (cfg_Redis c))),
      (''redis.password'', VString (rdc_Password (cfg_Redis c))),
      (''redis.db'', VInt (rdc_DB (cfg_Redis c))),
      (''kafka.brokers'', VStrings (kc_Brokers (cfg_Kafka c))),
      (''kafka.group_id'', VString (kc_GroupID (cfg_Kafka c))),
      (''services.order_port'', VInt (sv_OrderPort (cfg_Services c))),
      (''services.rider_port'', VInt (sv_RiderPort (cfg_Services c))),
      (''services.location_port'', VInt (sv_LocationPort (cfg_Services c))),
      (''services.notify_port'', VInt (sv_NotifyPort (cfg_Services c))),
      (''rate_limit.orders_per_minute'', VInt (rl_OrdersPerMinute (cfg_RateLimit c))),
      (''auth.jwt_secret'', VString (ac_JWTSecret (cfg_Auth c))),
      (''auth.ttl_hours'', VInt (ac_TTLHours (cfg_Auth c))),
      (''telemetry.enabled'', VBool (tel_Enabled (cfg_Telemetry c))),
      (''telemetry.otlp_endpoint'', VString (tel_OTLPEndpoint (cfg_Telemetry c)))]"

section \<open>The contract of the configuration library\<close>

text \<open>The settings a \<^verbatim>\<open>viper\<close> instance keeps.\<close>

record settings =
  vs_path :: string
  vs_prefix :: string
  vs_replacer :: "(string \<times> string) list"
  vs_auto :: bool
  vs_defaults :: "string \<Rightarrow> config_value option"
  vs_file :: "string \<Rightarrow> config_value option"

definition no_settings :: settings where
  "no_settings = \<lparr>vs_path = '''', vs_prefix = '''', vs_replacer = [], vs_auto = False,
     vs_defaults = Map.empty, vs_file = Map.empty\<rparr>"

text \<open>The environment variable of a key: prefix and key in upper case, with the replacements of single
  characters the code asks for.\<close>

definition letters :: "(char \<times> char) list" where
  "letters = zip ''abcdefghijklmnopqrstuvwxyz'' ''ABCDEFGHIJKLMNOPQRSTUVWXYZ''"

definition upper :: "char \<Rightarrow> char" where
  "upper ch = (case map_of letters ch of Some u \<Rightarrow> u | None \<Rightarrow> ch)"

definition env_name :: "settings \<Rightarrow> string \<Rightarrow> string" where
  "env_name vs key =
     concat (map (\<lambda>ch. case map_of (vs_replacer vs) [ch] of None \<Rightarrow> [ch] | Some r \<Rightarrow> r)
       (map upper (vs_prefix vs @ ''_'' @ key)))"

text \<open>
  The value of a key: a key that neither the file nor the defaults name is unknown and keeps the
  zero value of its field; for a known one the environment (\<open>env name\<close> is what the variable decodes
  to) comes before the file and the file before the default.
\<close>

definition setting :: "(string \<Rightarrow> config_value option) \<Rightarrow> settings \<Rightarrow> string \<Rightarrow> config_value option" where
  "setting env vs key =
     (if vs_file vs key = None \<and> vs_defaults vs key = None then map_of zero_values key
      else case (if vs_auto vs then env (env_name vs key) else None) of
          Some x \<Rightarrow> Some x
        | None \<Rightarrow> (case vs_file vs key of Some x \<Rightarrow> Some x | None \<Rightarrow> vs_defaults vs key))"

locale viper_laws =
  fixes V :: "'v viper" and env :: "string \<Rightarrow> config_value option"
    and content :: "string \<Rightarrow> string \<Rightarrow> config_value option" and kept :: "'v \<Rightarrow> settings"
  assumes kept_New: "kept (viper_New V) = no_settings"
    and kept_SetConfigFile: "kept (SetConfigFile V p v) = (kept v)\<lparr>vs_path := p\<rparr>"
    and kept_SetConfigType: "kept (SetConfigType V ty v) = kept v"
    and kept_SetEnvPrefix: "kept (SetEnvPrefix V pre v) = (kept v)\<lparr>vs_prefix := pre\<rparr>"
    and kept_SetEnvKeyReplacer: "kept (SetEnvKeyReplacer V r v) = (kept v)\<lparr>vs_replacer := r\<rparr>"
    and kept_AutomaticEnv: "kept (AutomaticEnv V v) = (kept v)\<lparr>vs_auto := True\<rparr>"
    and kept_SetDefault: "kept (SetDefault V k x v) = (kept v)\<lparr>vs_defaults := (vs_defaults (kept v))(k \<mapsto> x)\<rparr>"
    and read_ok: "ReadInConfig V v = (None, v') \<Longrightarrow> kept v' = (kept v)\<lparr>vs_file := content (vs_path (kept v))\<rparr>"
    and read_err: "ReadInConfig V v = (Some e, v') \<Longrightarrow> kept v' = kept v"
    and unmarshal: "viper_Unmarshal V v = Inr c \<Longrightarrow> k \<in> fst ` set zero_values \<Longrightarrow>
      map_of (config_fields c) k = setting env (kept v) k"
begin

lemma kept_defaults:
  "kept (fold (\<lambda>(key, x). SetDefault V key x) kvs v) = (kept v)\<lparr>vs_defaults := vs_defaults (kept v) ++ map_of (rev kvs)\<rparr>"
proof (induction kvs arbitrary: v)
  case (Cons kv kvs)
  then show ?case by (cases kv) (simp add: kept_SetDefault map_add_def fun_eq_iff split: option.splits)
qed simp

end

text \<open>The settings of \<^verbatim>\<open>Load\<close> before the file is read.\<close>

definition load_settings :: "string \<Rightarrow> settings" where
  "load_settings path = \<lparr>vs_path = path, vs_prefix = ''DE'', vs_replacer = [(''.'', ''_'')], vs_auto = True,
     vs_defaults = map_of config_defaults, vs_file = Map.empty\<rparr>"

context viper_laws
begin

lemma Load_setting:
  assumes "Load V path = Inr c" "k \<in> fst ` set zero_values"
  shows "map_of (config_fields c) k = setting env ((load_settings path)\<lparr>vs_file := content path\<rparr>) k
     \<or> map_of (config_fields c) k = setting env (load_settings path) k"
proof -
  have dist: "distinct (map fst config_defaults)" by (simp add: config_defaults_def)
  have rev: "map_of (rev config_defaults) = map_of config_defaults"
    using dist by (subst map_of_inject_set) (simp_all add: rev_map [symmetric])
  define v where "v = setDefaults V (AutomaticEnv V (SetEnvKeyReplacer V [(''.'', ''_'')]
      (SetEnvPrefix V ''DE'' (SetConfigType V ''yaml'' (SetConfigFile V path (viper_New V))))))"
  have v: "kept v = load_settings path"
    by (simp add: v_def setDefaults_def kept_defaults kept_AutomaticEnv kept_SetEnvKeyReplacer kept_SetEnvPrefix
        kept_SetConfigType kept_SetConfigFile kept_New no_settings_def load_settings_def rev)
  obtain r v' where rd: "ReadInConfig V v = (r, v')" by fastforce
  with assms have "viper_Unmarshal V v' = Inr c"
    by (auto simp: Load_def Let_def v_def split: option.splits if_splits)
  from unmarshal [OF this assms(2)] show ?thesis
    using read_ok [of v v'] read_err [of v _ v'] rd v by (cases r) (auto simp: load_settings_def)
qed

end

text \<open>An instance that keeps the settings themselves; a value of another kind than its field is refused.\<close>

fun the_string :: "config_value \<Rightarrow> string" where
  "the_string (VString s) = s"
| "the_string _ = ''''"

fun the_int :: "config_value \<Rightarrow> int" where
  "the_int (VInt n) = n"
| "the_int _ = 0"

fun the_bool :: "config_value \<Rightarrow> bool" where
  "the_bool (VBool b) = b"
| "the_bool _ = False"

fun the_strings :: "config_value \<Rightarrow> string list" where
  "the_strings (VStrings ss) = ss"
| "the_strings _ = []"

fun same_kind :: "config_value \<Rightarrow> config_value \<Rightarrow> bool" where
  "same_kind (VString _) (VString _) = True"
| "same_kind (VInt _) (VInt _) = True"
| "same_kind (VBool _) (VBool _) = True"
| "same_kind (VStrings _) (VStrings _) = True"
| "same_kind _ _ = False"

definition build_config :: "(string \<Rightarrow> config_value) \<Rightarrow> Config" where
  "build_config f =
     \<lparr>cfg_Env = the_string (f ''env''),
      cfg_Postgres = \<lparr>pgc_Host = the_string (f ''postgres.host''), pgc_Port = the_int (f ''postgres.port''),
        pgc_Name = the_string (f ''postgres.name''), pgc_User = the_string (f ''postgres.user''),
        pgc_Password = the_string (f ''postgres.password''), pgc_SSLMode = the_string (f ''postgres.sslmode'')\<rparr>,
      cfg_Redis = \<lparr>rdc_Addr = the_string (f ''redis.addr''), rdc_Password = the_string (f ''redis.password''),
        rdc_DB = the_int (f ''redis.db'')\<rparr>,
      cfg_Kafka = \<lparr>kc_Brokers = the_strings (f ''kafka.brokers''), kc_GroupID = the_string (f ''kafka.group_id'')\<rparr>,
      cfg_Services = \<lparr>sv_OrderPort = the_int (f ''services.order_port''), sv_RiderPort = the_int (f ''services.rider_port''),
        sv_LocationPort = the_int (f ''services.location_port''), sv_NotifyPort = the_int (f ''services.notify_port'')\<rparr>,
      cfg_RateLimit = \<lparr>rl_OrdersPerMinute = the_int (f ''rate_limit.orders_per_minute'')\<rparr>,
      cfg_Auth = \<lparr>ac_JWTSecret = the_string (f ''auth.jwt_secret''), ac_TTLHours = the_int (f ''auth.ttl_hours'')\<rparr>,
      cfg_Telemetry = \<lparr>tel_Enabled = the_bool (f ''telemetry.enabled''),
        tel_OTLPEndpoint = the_string (f ''telemetry.otlp_endpoint'')\<rparr>\<rparr>"

lemma same_kind_cases:
  "same_kind x (VString '''') \<Longrightarrow> VString (the_string x) = x" "same_kind x (VInt 0) \<Longrightarrow> VInt (the_int x) = x"
  "same_kind x (VBool False) \<Longrightarrow> VBool (the_bool x) = x" "same_kind x (VStrings []) \<Longrightarrow> VStrings (the_strings x) = x"
  by (cases x; simp)+

lemma build_config_fields:
  assumes "list_all (\<lambda>(k, z). same_kind (f k) z) zero_values" "k \<in> fst ` set zero_values"
  shows "map_of (config_fields (build_config f)) k = Some (f k)"
proof -
  have "config_fields (build_config f) = map (\<lambda>(k, z). (k, f k)) zero_values"
    using assms(1) by (simp add: zero_values_def config_fields_def build_config_def same_kind_cases)
  moreover have "map_of (map (\<lambda>(k, z). (k, f k)) kzs) k = Some (f k)" if "k \<in> fst ` set kzs" for kzs :: "(string \<times> config_value) list"
    using that by (induction kzs) auto
  ultimately show ?thesis using assms(2) by simp
qed

definition settings_viper ::
  "(string \<Rightarrow> config_value option) \<Rightarrow> (string \<Rightarrow> (string \<Rightarrow> config_value option) option) \<Rightarrow> settings viper" where
  "settings_viper env files =
     \<lparr>viper_New = no_settings,
      SetConfigFile = (\<lambda>p v. v\<lparr>vs_path := p\<rparr>),
      SetConfigType = (\<lambda>_ v. v),
      SetEnvPrefix = (\<lambda>pre v. v\<lparr>vs_prefix := pre\<rparr>),
      SetEnvKeyReplacer = (\<lambda>r v. v\<lparr>vs_replacer := r\<rparr>),
      AutomaticEnv = (\<lambda>v. v\<lparr>vs_auto := True\<rparr>),
      SetDefault = (\<lambda>k x v. v\<lparr>vs_defaults := (vs_defaults v)(k \<mapsto> x)\<rparr>),
      ReadInConfig = (\<lambda>v. case files (vs_path v) of
          None \<Rightarrow> (Some (ErrorString ''no such file''), v) | Some kvs \<Rightarrow> (None, v\<lparr>vs_file := kvs\<rparr>)),
      viper_Unmarshal = (\<lambda>v.
        if list_all (\<lambda>(k, z). case setting env v k of None \<Rightarrow> False | Some x \<Rightarrow> same_kind x z) zero_values
        then Inr (build_config (\<lambda>k. the (setting env v k))) else Inl (ErrorString ''cannot decode'')),
      ConfigFileNotFoundError = (\<lambda>e. e = ErrorString ''no such file'')\<rparr>"

interpretation settings_viper: viper_laws "settings_viper env files" env "\<lambda>p. the (files p)" id for env files
proof
  fix v c k
  assume u: "viper_Unmarshal (settings_viper env files) v = Inr c" and k: "k \<in> fst ` set zero_values"
  then have all: "list_all (\<lambda>(k, z). case setting env v k of None \<Rightarrow> False | Some x \<Rightarrow> same_kind x z) zero_values"
      and c: "c = build_config (\<lambda>k. the (setting env v k))"
    by (simp_all add: settings_viper_def split: if_splits)
  from all have "list_all (\<lambda>(k, z). same_kind (the (setting env v k)) z) zero_values"
    by (rule list.pred_mono_strong) (auto split: option.splits)
  moreover from all k have "setting env v k \<noteq> None" by (force simp: list_all_iff split: option.splits)
  ultimately show "map_of (config_fields c) k = setting env (id v) k"
    using build_config_fields k unfolding c by simp
qed (auto simp: settings_viper_def split: option.splits)

section \<open>Environment variables\<close>

lemma load_settings_simps:
  "vs_file (load_settings path) = Map.empty" "vs_defaults (load_settings path) = map_of config_defaults"
  "vs_auto (load_settings path) = True" "vs_file ((load_settings path)\<lparr>vs_file := f\<rparr>) = f"
  "vs_defaults ((load_settings path)\<lparr>vs_file := f\<rparr>) = map_of config_defaults"
  "vs_auto ((load_settings path)\<lparr>vs_file := f\<rparr>) = True"
  by (simp_all add: load_settings_def)

definition env_variable :: "string \<Rightarrow> string" where
  "env_variable key = ''DE_'' @ map (\<lambda>ch. if ch = CHR ''.'' then CHR ''_'' else upper ch) key"

lemma upper_dot: "upper ch = CHR ''.'' \<longleftrightarrow> ch = CHR ''.''"
proof (cases "map_of letters ch")
  case (Some u)
  then have "(ch, u) \<in> set letters" by (rule map_of_SomeD)
  then have "u \<noteq> CHR ''.'' \<and> ch \<noteq> CHR ''.''" by (auto simp: letters_def)
  with Some show ?thesis by (simp add: upper_def)
qed (simp add: upper_def)

lemma upper_prefix: "upper (CHR ''D'') = CHR ''D''" "upper (CHR ''E'') = CHR ''E''" "upper (CHR ''_'') = CHR ''_''"
  by (simp_all add: upper_def letters_def)

lemma length_env_variable: "length (env_variable k) = 3 + length k"
  by (simp add: env_variable_def)

lemma env_name_load: "env_name ((load_settings path)\<lparr>vs_file := f\<rparr>) k = env_variable k"
    "env_name (load_settings path) k = env_variable k"
proof -
  have "concat (map (\<lambda>ch. case map_of [(''.'', ''_'')] [ch] of None \<Rightarrow> [ch] | Some r \<Rightarrow> r) (map upper k))
      = map (\<lambda>ch. if ch = CHR ''.'' then CHR ''_'' else upper ch) k" for k
    by (induction k) (auto simp: upper_dot)
  then show "env_name ((load_settings path)\<lparr>vs_file := f\<rparr>) k = env_variable k"
      "env_name (load_settings path) k = env_variable k"
    by (simp_all add: env_name_def load_settings_def env_variable_def upper_prefix)
qed

section \<open>Examples and remarks\<close>

text \<open>
  The one field without a default: with a configuration file that does not name the key, the environment
  cannot set the password of Redis.
\<close>

lemma redis_password_needs_file:
  assumes "viper_laws V env content kept" and "Load V path = Inr c" and "content path ''redis.password'' = None"
  shows "rdc_Password (cfg_Redis c) = ''''"
proof -
  have "''redis.password'' \<in> fst ` set zero_values" "map_of zero_values ''redis.password'' = Some (VString '''')"
      "map_of config_defaults ''redis.password'' = None"
    by (simp_all add: zero_values_def config_defaults_def)
  with viper_laws.Load_setting [OF assms(1,2)] assms(3)
  have "map_of (config_fields c) ''redis.password'' = Some (VString '''')"
    unfolding setting_def load_settings_simps by fastforce
  then show ?thesis by (simp add: config_fields_def)
qed

lemma settings_Load:
  "Load (settings_viper env (\<lambda>_. Some kvs)) path =
     viper_Unmarshal (settings_viper env (\<lambda>_. Some kvs)) ((load_settings path)\<lparr>vs_file := kvs\<rparr>)"
proof -
  let ?V = "settings_viper env (\<lambda>_. Some kvs)"
  have dist: "distinct (map fst config_defaults)" by (simp add: config_defaults_def)
  have rev: "map_of (rev config_defaults) = map_of config_defaults"
    using dist by (subst map_of_inject_set) (simp_all add: rev_map [symmetric])
  have "setDefaults ?V v = v\<lparr>vs_defaults := vs_defaults v ++ map_of config_defaults\<rparr>" for v
    using settings_viper.kept_defaults [of env "\<lambda>_. Some kvs" config_defaults v] by (simp add: setDefaults_def rev)
  then show ?thesis
    by (simp add: Load_def Let_def) (simp add: settings_viper_def load_settings_def no_settings_def)
qed

lemma env_names_differ: "list_all (\<lambda>(k, z). k = ''env'' \<or> env_variable k \<noteq> ''DE_ENV'') zero_values"
proof -
  have "length k \<noteq> 3 \<Longrightarrow> env_variable k \<noteq> ''DE_ENV''" for k
    using length_env_variable [of k] by auto
  then show ?thesis by (simp add: zero_values_def)
qed

lemma setting_kind:
  assumes "case kvs k of Some x \<Rightarrow> same_kind x z
      | None \<Rightarrow> (case map_of config_defaults k of Some x \<Rightarrow> same_kind x z | None \<Rightarrow> False)"
    and "case env (env_variable k) of None \<Rightarrow> True | Some x \<Rightarrow> same_kind x z"
  shows "case setting env ((load_settings path)\<lparr>vs_file := kvs\<rparr>) k of None \<Rightarrow> False | Some x \<Rightarrow> same_kind x z"
  using assms unfolding setting_def env_name_load load_settings_simps
  by (cases "kvs k"; cases "map_of config_defaults k"; cases "env (env_variable k)") simp_all

lemma example_settings_Load:
  "\<exists>c. Load (settings_viper [''DE_ENV'' \<mapsto> VString ''prod''] (\<lambda>_. Some [''redis.password'' \<mapsto> VString ''x''])) ''c'' = Inr c"
proof -
  let ?env = "[''DE_ENV'' \<mapsto> VString ''prod'']" and ?file = "[''redis.password'' \<mapsto> VString ''x'']"
  have known: "list_all (\<lambda>(k, z). case ?file k of Some x \<Rightarrow> same_kind x z
      | None \<Rightarrow> (case map_of config_defaults k of Some x \<Rightarrow> same_kind x z | None \<Rightarrow> False)) zero_values"
    by (simp add: zero_values_def config_defaults_def)
  have kind: "list_all (\<lambda>(k, z). k = ''env'' \<longrightarrow> same_kind (VString ''prod'') z) zero_values"
    by (simp add: zero_values_def)
  have "case kz of (k, z) \<Rightarrow> case setting ?env ((load_settings ''c'')\<lparr>vs_file := ?file\<rparr>) k of
      None \<Rightarrow> False | Some x \<Rightarrow> same_kind x z" if "kz \<in> set zero_values" for kz
  proof (cases kz)
    case (Pair k z)
    note kz = that [unfolded Pair]
    from bspec [OF env_names_differ [unfolded list_all_iff] kz] bspec [OF kind [unfolded list_all_iff] kz]
    have "case ?env (env_variable k) of None \<Rightarrow> True | Some x \<Rightarrow> same_kind x z"
      by (cases "env_variable k = ''DE_ENV''") (simp_all del: fun_upd_apply add: fun_upd_same fun_upd_other)
    with setting_kind [where kvs = ?file, OF bspec [OF known [unfolded list_all_iff] kz, unfolded prod.case]]
    show ?thesis unfolding Pair prod.case .
  qed
  then show ?thesis unfolding settings_Load by (simp add: settings_viper_def list_all_iff)
qed

section \<open>Properties\<close>



end
