(* ===== verification/Service_Runtime.thy ===== *)
theory Service_Runtime
  imports Configuration
begin

text \<open>
  The processes: the connection set-up of \<^verbatim>\<open>pkg/postgres\<close>,
  \<^verbatim>\<open>pkg/redisx\<close> and \<^verbatim>\<open>pkg/telemetry\<close>, the log level of \<^verbatim>\<open>pkg/logger\<close>, and \<^verbatim>\<open>run\<close> of the six
  commands under \<^verbatim>\<open>cmd\<close>.  A run is a sequence of actions (resources opened and closed, goroutines
  started, servers and consumers run) with the error it returns; what the libraries answer is the
  parameter \<open>world\<close>, and the Kafka cluster is a state that \<open>EnsureTopics\<close> changes.
\<close>

section \<open>Actions\<close>

datatype resource = RSignals | RTracer | RPostgres | RRedis | RProducer | RConsumer string string

datatype task = RelayTask | ConsumerTask string string

datatype action =
    Acquire resource
  | Release resource
  | SetTracerProvider
  | SetPropagator
  | Go task
  | RunConsumer string string
  | Listen string
  | Shutdown
  | CancelContext
  | WaitConsumers

text \<open>The settings of a connection pool: \<^verbatim>\<open>pgxpool.ParseConfig\<close> makes them from a connection string.\<close>

record PoolConfig =
  pcfg_ConnString :: string
  pcfg_MaxConns :: int
  pcfg_MinConns :: int
  pcfg_MaxConnLifetime :: time
  pcfg_MaxConnIdleTime :: time

text \<open>What the environment and the libraries answer.  \<open>http_serve\<close> is the error of the listening server, or
  \<open>None\<close> when the shutdown signal comes first.\<close>

record world =
  w_Getenv :: "string \<Rightarrow> string"
  otlp_New :: "string \<Rightarrow> error option"
  resource_New :: "string \<Rightarrow> error option"
  pool_ParseConfig :: "string \<Rightarrow> error + PoolConfig"
  pool_New :: "PoolConfig \<Rightarrow> error option"
  pool_Ping :: "error option"
  redis_Ping :: "Redis \<Rightarrow> error option"
  http_serve :: "error option"
  http_Shutdown :: "error option"

text \<open>Opening a resource yields an error, or the deferred actions that close it again.\<close>

type_synonym opened = "(error + action list) \<times> action list"

section \<open>Connections\<close>

datatype log_level = DebugLevel | InfoLevel

definition logger_level :: "string \<Rightarrow> log_level" where
  "logger_level env = (if env = ''local'' \<or> env = ''dev'' then DebugLevel else InfoLevel)"

record Logger =
  lg_Level :: log_level
  lg_Fields :: "(string \<times> string) list"

definition logger_New :: "string \<Rightarrow> string \<Rightarrow> Logger" where
  "logger_New service env = \<lparr>lg_Level = logger_level env, lg_Fields = [(''service'', service), (''env'', env)]\<rparr>"

definition postgres_dsn :: "Postgres \<Rightarrow> string" where
  "postgres_dsn cfg =
     ''postgres://'' @ pgc_User cfg @ '':'' @ pgc_Password cfg @ ''@'' @ pgc_Host cfg @ '':'' @
     instant_text (pgc_Port cfg) @ ''/'' @ pgc_Name cfg @ ''?sslmode='' @ pgc_SSLMode cfg"

definition minutes :: "int \<Rightarrow> time" where
  "minutes n = n * 60 * 1000000000"

definition pool_settings :: "PoolConfig \<Rightarrow> PoolConfig" where
  "pool_settings pcfg = pcfg\<lparr>pcfg_MaxConns := 20, pcfg_MinConns := 2,
     pcfg_MaxConnLifetime := minutes 30, pcfg_MaxConnIdleTime := minutes 5\<rparr>"

definition postgres_New :: "world \<Rightarrow> Postgres \<Rightarrow> opened" where
  "postgres_New w cfg =
     (case pool_ParseConfig w (postgres_dsn cfg) of
        Inl err \<Rightarrow> (Inl (WrapError ''parse pg config: '' err ''''), [])
      | Inr pcfg \<Rightarrow>
          (case pool_New w (pool_settings pcfg) of
             Some err \<Rightarrow> (Inl (WrapError ''create pool: '' err ''''), [])
           | None \<Rightarrow>
               (case pool_Ping w of
                  Some err \<Rightarrow> (Inl (WrapError ''ping pg: '' err ''''), [Acquire RPostgres, Release RPostgres])
                | None \<Rightarrow> (Inr [Release RPostgres], [Acquire RPostgres]))))"

definition redisx_New :: "world \<Rightarrow> Redis \<Rightarrow> opened" where
  "redisx_New w cfg =
     (case redis_Ping w cfg of
        Some err \<Rightarrow> (Inl (WrapError ''redis ping: '' err ''''), [Acquire RRedis, Release RRedis])
      | None \<Rightarrow> (Inr [Release RRedis], [Acquire RRedis]))"

definition telemetry_Init :: "world \<Rightarrow> Telemetry \<Rightarrow> string \<Rightarrow> opened" where
  "telemetry_Init w cfg serviceName =
     (if \<not> tel_Enabled cfg then (Inr [], [SetPropagator])
      else case otlp_New w (tel_OTLPEndpoint cfg) of
          Some err \<Rightarrow> (Inl (WrapError ''otlp exporter: '' err ''''), [])
        | None \<Rightarrow>
            (case resource_New w serviceName of
               Some err \<Rightarrow> (Inl (WrapError ''resource: '' err ''''), [])
             | None \<Rightarrow> (Inr [Release RTracer], [Acquire RTracer, SetTracerProvider, SetPropagator])))"

section \<open>Processes\<close>

text \<open>
  A process maps the Kafka cluster to the error it returns, its actions and the new cluster.
  \<open>deferring\<close> is the idiom of opening a resource, returning on an error and deferring its close: the
  deferred actions come after everything that follows, also when that returns early.
\<close>

type_synonym 'k process = "'k \<Rightarrow> error option \<times> action list \<times> 'k"

definition deferring :: "opened \<Rightarrow> 'k process \<Rightarrow> 'k process" where
  "deferring op rest k =
     (case fst op of
        Inl err \<Rightarrow> (Some err, snd op, k)
      | Inr deferred \<Rightarrow> (case rest k of (r, tr, k') \<Rightarrow> (r, snd op @ tr @ deferred, k')))"

definition performing :: "action list \<Rightarrow> 'k process \<Rightarrow> 'k process" where
  "performing as rest k = (case rest k of (r, tr, k') \<Rightarrow> (r, as @ tr, k'))"

definition wrap_error :: "string \<Rightarrow> opened \<Rightarrow> opened" where
  "wrap_error msg op = map_prod (map_sum (\<lambda>e. WrapError msg e '''') id) id op"

definition holding :: "resource list \<Rightarrow> opened" where
  "holding rs = (Inr (map Release rs), map Acquire rs)"

definition ensuring_topics :: "'k admin \<Rightarrow> Config \<Rightarrow> 'k process \<Rightarrow> 'k process" where
  "ensuring_topics A cfg rest k =
     (case EnsureTopics A (kc_Brokers (cfg_Kafka cfg)) AllTopics k of
        (Some err, k') \<Rightarrow> (Some (WrapError ''ensure topics: '' err ''''), [], k')
      | (None, k') \<Rightarrow> rest k')"

text \<open>The first lines of every \<^verbatim>\<open>run\<close>: configuration, signals and telemetry.\<close>

definition booting :: "'v viper \<Rightarrow> world \<Rightarrow> string \<Rightarrow> (Config \<Rightarrow> 'k process) \<Rightarrow> 'k process" where
  "booting V w service rest k =
     (let env = w_Getenv w ''CONFIG_PATH'';
          cfgPath = (if env = '''' then ''config/config.yaml'' else env)
      in case Load V cfgPath of
           Inl err \<Rightarrow> (Some (WrapError ''load config: '' err ''''), [], k)
         | Inr cfg \<Rightarrow>
             deferring (holding [RSignals])
               (deferring (wrap_error ''init telemetry: '' (telemetry_Init w (cfg_Telemetry cfg) service))
                  (rest cfg)) k)"

definition addr_of_port :: "int \<Rightarrow> string" where
  "addr_of_port port = '':'' @ instant_text port"

text \<open>The last lines of a \<^verbatim>\<open>run\<close> that serves HTTP: wait for the signal or a failure of the server.\<close>

definition serving :: "world \<Rightarrow> int \<Rightarrow> 'k process" where
  "serving w port k =
     (case http_serve w of
        Some err \<Rightarrow> (Some err, [Listen (addr_of_port port)], k)
      | None \<Rightarrow> (http_Shutdown w, [Listen (addr_of_port port), Shutdown], k))"

definition consuming :: "string \<Rightarrow> string \<Rightarrow> 'k process" where
  "consuming topic groupID k = (None, [RunConsumer topic groupID], k)"

definition run_order :: "'v viper \<Rightarrow> 'k admin \<Rightarrow> world \<Rightarrow> 'k process" where
  "run_order V A w = booting V w ''order-service'' (\<lambda>cfg.
     deferring (postgres_New w (cfg_Postgres cfg))
      (deferring (redisx_New w (cfg_Redis cfg))
        (ensuring_topics A cfg
          (deferring (holding [RProducer])
            (performing [Go RelayTask]
              (serving w (sv_OrderPort (cfg_Services cfg))))))))"

definition run_assignment :: "'v viper \<Rightarrow> 'k admin \<Rightarrow> world \<Rightarrow> 'k process" where
  "run_assignment V A w = booting V w ''assignment-service'' (\<lambda>cfg.
     let groupID = kc_GroupID (cfg_Kafka cfg) @ ''.assignment'' in
     deferring (postgres_New w (cfg_Postgres cfg))
      (deferring (redisx_New w (cfg_Redis cfg))
        (ensuring_topics A cfg
          (deferring (holding [RProducer])
            (performing [Go RelayTask]
              (deferring (holding [RConsumer TopicOrderPlaced groupID])
                (consuming TopicOrderPlaced groupID)))))))"

definition run_rider :: "'v viper \<Rightarrow> world \<Rightarrow> 'k process" where
  "run_rider V w = booting V w ''rider-service'' (\<lambda>cfg.
     deferring (postgres_New w (cfg_Postgres cfg))
      (deferring (redisx_New w (cfg_Redis cfg))
        (serving w (sv_RiderPort (cfg_Services cfg)))))"

definition run_location :: "'v viper \<Rightarrow> 'k admin \<Rightarrow> world \<Rightarrow> 'k process" where
  "run_location V A w = booting V w ''location-service'' (\<lambda>cfg.
     deferring (redisx_New w (cfg_Redis cfg))
      (ensuring_topics A cfg
        (deferring (holding [RProducer])
          (serving w (sv_LocationPort (cfg_Services cfg))))))"

definition run_eta :: "'v viper \<Rightarrow> 'k admin \<Rightarrow> world \<Rightarrow> 'k process" where
  "run_eta V A w = booting V w ''eta-service'' (\<lambda>cfg.
     let groupID = kc_GroupID (cfg_Kafka cfg) @ ''.eta'' in
     deferring (postgres_New w (cfg_Postgres cfg))
      (ensuring_topics A cfg
        (deferring (holding [RProducer])
          (deferring (holding [RConsumer TopicRiderLocationUpdate groupID])
            (consuming TopicRiderLocationUpdate groupID)))))"

definition notification_consumers :: "Config \<Rightarrow> (string \<times> string) list" where
  "notification_consumers cfg =
     [(TopicOrderAssigned, kc_GroupID (cfg_Kafka cfg) @ ''.notify.assigned''),
      (TopicOrderStatusUpdated, kc_GroupID (cfg_Kafka cfg) @ ''.notify.status''),
      (TopicETAUpdated, kc_GroupID (cfg_Kafka cfg) @ ''.notify.eta''),
      (TopicRiderLocationUpdate, kc_GroupID (cfg_Kafka cfg) @ ''.notify.loc'')]"

definition notification_serving :: "world \<Rightarrow> int \<Rightarrow> 'k process" where
  "notification_serving w port k =
     (case http_serve w of
        Some err \<Rightarrow> (Some err, [Listen (addr_of_port port), CancelContext], k)
      | None \<Rightarrow> (None, [Listen (addr_of_port port), Shutdown, WaitConsumers], k))"

definition run_notification :: "'v viper \<Rightarrow> 'k admin \<Rightarrow> world \<Rightarrow> 'k process" where
  "run_notification V A w = booting V w ''notification-service'' (\<lambda>cfg.
     let consumers = notification_consumers cfg in
     deferring (postgres_New w (cfg_Postgres cfg))
      (ensuring_topics A cfg
        (deferring (holding (map (\<lambda>(t, g). RConsumer t g) consumers))
          (performing (map (\<lambda>(t, g). Go (ConsumerTask t g)) consumers)
            (notification_serving w (sv_NotifyPort (cfg_Services cfg)))))))"

datatype service = OrderService | AssignmentService | RiderService | LocationService | EtaService | NotificationService

fun run_service :: "service \<Rightarrow> 'v viper \<Rightarrow> 'k admin \<Rightarrow> world \<Rightarrow> 'k process" where
  "run_service OrderService V A w = run_order V A w"
| "run_service AssignmentService V A w = run_assignment V A w"
| "run_service RiderService V A w = run_rider V w"
| "run_service LocationService V A w = run_location V A w"
| "run_service EtaService V A w = run_eta V A w"
| "run_service NotificationService V A w = run_notification V A w"

definition exit_code :: "error option \<Rightarrow> int" where
  "exit_code r = (case r of Some _ \<Rightarrow> 1 | None \<Rightarrow> 0)"

section \<open>Scopes\<close>

text \<open>
  A trace is well scoped when resources are opened in the order of their ranks, each action finds the
  resources it uses open, and a resource is closed only while nothing of a higher rank is open.
  \<open>scoped\<close> computes the resources still open after the trace, or \<open>None\<close>.
\<close>

fun rank :: "resource \<Rightarrow> nat" where
  "rank RSignals = 0"
| "rank RTracer = 1"
| "rank RPostgres = 2"
| "rank RRedis = 3"
| "rank RProducer = 4"
| "rank (RConsumer _ _) = 5"

fun needs :: "action \<Rightarrow> resource list" where
  "needs (Go RelayTask) = [RSignals, RPostgres, RProducer]"
| "needs (Go (ConsumerTask t g)) = [RSignals, RPostgres, RConsumer t g]"
| "needs (RunConsumer t g) = [RSignals, RPostgres, RConsumer t g]"
| "needs (Listen _) = [RSignals]"
| "needs Shutdown = [RSignals]"
| "needs CancelContext = [RSignals]"
| "needs WaitConsumers = [RSignals]"
| "needs _ = []"

fun scoped :: "resource list \<Rightarrow> action list \<Rightarrow> resource list option" where
  "scoped held [] = Some held"
| "scoped held (Acquire r # tr) =
     (if r \<notin> set held \<and> list_all (\<lambda>x. rank x \<le> rank r) held then scoped (r # held) tr else None)"
| "scoped held (Release r # tr) =
     (if r \<in> set held \<and> list_all (\<lambda>x. rank x \<le> rank r) held then scoped (remove1 r held) tr else None)"
| "scoped held (a # tr) = (if list_all (\<lambda>r. r \<in> set held) (needs a) then scoped held tr else None)"

lemma scoped_append: "scoped held (xs @ ys) = Option.bind (scoped held xs) (\<lambda>h. scoped h ys)"
  by (induction held xs rule: scoped.induct) simp_all

text \<open>A process keeps the scope when it leaves open what was open before.\<close>

definition keeps_scope :: "resource list \<Rightarrow> 'k process \<Rightarrow> bool" where
  "keeps_scope held p \<longleftrightarrow> (\<forall>k. scoped held (fst (snd (p k))) = Some held)"

lemma keeps_scopeI: "(\<And>k. scoped held (fst (snd (p k))) = Some held) \<Longrightarrow> keeps_scope held p"
  by (simp add: keeps_scope_def)

lemma keeps_scope_deferring:
  assumes "\<And>err. fst op = Inl err \<Longrightarrow> scoped held (snd op) = Some held"
    and "\<And>deferred. fst op = Inr deferred \<Longrightarrow>
      \<exists>h. scoped held (snd op) = Some h \<and> keeps_scope h rest \<and> scoped h deferred = Some held"
  shows "keeps_scope held (deferring op rest)"
proof (rule keeps_scopeI)
  fix k
  show "scoped held (fst (snd (deferring op rest k))) = Some held"
  proof (cases "fst op")
    case (Inl err)
    then show ?thesis using assms(1) by (simp add: deferring_def)
  next
    case (Inr deferred)
    from assms(2) [OF this] obtain h where h: "scoped held (snd op) = Some h" "keeps_scope h rest"
      "scoped h deferred = Some held" by blast
    with Inr show ?thesis by (simp add: deferring_def scoped_append keeps_scope_def case_prod_beta)
  qed
qed

lemma keeps_scope_performing:
  "scoped held as = Some held \<Longrightarrow> keeps_scope held rest \<Longrightarrow> keeps_scope held (performing as rest)"
  by (simp add: keeps_scope_def performing_def scoped_append case_prod_beta)

lemma keeps_scope_topics: "keeps_scope held rest \<Longrightarrow> keeps_scope held (ensuring_topics A cfg rest)"
  by (simp add: keeps_scope_def ensuring_topics_def split: prod.splits option.splits)

lemma keeps_scope_serving: "RSignals \<in> set held \<Longrightarrow> keeps_scope held (serving w port)"
  by (simp add: keeps_scope_def serving_def split: option.splits)

lemma keeps_scope_notification_serving: "RSignals \<in> set held \<Longrightarrow> keeps_scope held (notification_serving w port)"
  by (simp add: keeps_scope_def notification_serving_def split: option.splits)

lemma keeps_scope_consuming:
  "set [RSignals, RPostgres, RConsumer t g] \<subseteq> set held \<Longrightarrow> keeps_scope held (consuming t g)"
  by (simp add: keeps_scope_def consuming_def)

text \<open>Opening one resource that outranks what is open.\<close>

definition opens :: "resource \<Rightarrow> opened \<Rightarrow> bool" where
  "opens r op \<longleftrightarrow> op = (Inr [Release r], [Acquire r])
     \<or> (\<exists>err. op = (Inl err, []) \<or> op = (Inl err, [Acquire r, Release r]))"

lemma opens_simps [simp]:
  "opens RPostgres (postgres_New w pc)" "opens RRedis (redisx_New w rc)" "opens r (holding [r])"
  by (simp_all add: opens_def postgres_New_def redisx_New_def holding_def split: option.splits sum.splits)

lemma keeps_scope_opens:
  assumes "opens r op" "r \<notin> set held" "list_all (\<lambda>x. rank x \<le> rank r) held" "keeps_scope (r # held) rest"
  shows "keeps_scope held (deferring op rest)"
  using assms by (intro keeps_scope_deferring) (auto simp: opens_def)

lemma keeps_scope_telemetry:
  assumes "keeps_scope [RSignals] rest" "keeps_scope [RTracer, RSignals] rest"
  shows "keeps_scope [RSignals] (deferring (wrap_error msg (telemetry_Init w cfg name)) rest)"
  using assms
  by (intro keeps_scope_deferring) (auto simp: wrap_error_def telemetry_Init_def split: if_splits option.splits)

lemma keeps_scope_booting:
  assumes "\<And>cfg held. held = [RSignals] \<or> held = [RTracer, RSignals] \<Longrightarrow> keeps_scope held (rest cfg)"
  shows "keeps_scope [] (booting V w name rest)"
proof (rule keeps_scopeI)
  fix k
  have "keeps_scope [] (deferring (holding [RSignals])
      (deferring (wrap_error msg (telemetry_Init w (cfg_Telemetry cfg) name)) (rest cfg)))" for msg cfg
    by (rule keeps_scope_opens [where r = RSignals]) (simp_all add: keeps_scope_telemetry assms)
  then show "scoped [] (fst (snd (booting V w name rest k))) = Some []"
    by (simp add: booting_def Let_def keeps_scope_def split: sum.splits)
qed

lemmas keeps_scope_rules = keeps_scope_topics keeps_scope_serving keeps_scope_consuming
  keeps_scope_opens [OF opens_simps(1)] keeps_scope_opens [OF opens_simps(2)] keeps_scope_opens [OF opens_simps(3)]

lemma keeps_scope_notification:
  assumes "held = [RPostgres, RSignals] \<or> held = [RPostgres, RTracer, RSignals]"
  shows "keeps_scope held (deferring (holding (map (\<lambda>(t, g). RConsumer t g) (notification_consumers cfg)))
     (performing (map (\<lambda>(t, g). Go (ConsumerTask t g)) (notification_consumers cfg)) (notification_serving w port)))"
  using assms
  by (intro keeps_scope_deferring)
    (auto simp: holding_def notification_consumers_def keeps_scope_performing keeps_scope_notification_serving
      TopicOrderAssigned_def TopicOrderStatusUpdated_def TopicETAUpdated_def TopicRiderLocationUpdate_def)

lemma run_service_keeps_scope: "keeps_scope [] (run_service svc V A w)"
proof (cases svc)
  case NotificationService
  then show ?thesis
    by (auto simp: run_notification_def Let_def intro!: keeps_scope_booting keeps_scope_rules keeps_scope_notification)
qed (auto simp: run_order_def run_assignment_def run_rider_def run_location_def run_eta_def Let_def
    intro!: keeps_scope_booting keeps_scope_rules keeps_scope_performing)

section \<open>Topics and consumer groups\<close>

abbreviation actions :: "'k process \<Rightarrow> 'k \<Rightarrow> action list" where
  "actions p k \<equiv> fst (snd (p k))"

text \<open>The topics an action relies on: a producer may publish to any, a consumer reads one.\<close>

fun kafka_topics :: "action \<Rightarrow> string list" where
  "kafka_topics (Acquire RProducer) = AllTopics"
| "kafka_topics (Acquire (RConsumer t g)) = [t]"
| "kafka_topics _ = []"

definition within_topics :: "'k process \<Rightarrow> bool" where
  "within_topics p \<longleftrightarrow> (\<forall>k. snd (snd (p k)) = k \<and> (\<forall>a \<in> set (actions p k). set (kafka_topics a) \<subseteq> set AllTopics))"

definition topics_first :: "('k \<Rightarrow> string set) \<Rightarrow> 'k process \<Rightarrow> bool" where
  "topics_first topics_of p \<longleftrightarrow>
     (\<forall>k. \<forall>a \<in> set (actions p k). set (kafka_topics a) \<subseteq> topics_of (snd (snd (p k))))"

definition all_actions :: "opened \<Rightarrow> action list" where
  "all_actions op = snd op @ (case fst op of Inl _ \<Rightarrow> [] | Inr deferred \<Rightarrow> deferred)"

lemma deferring_actions:
  "a \<in> set (actions (deferring op rest) k) \<Longrightarrow> a \<in> set (all_actions op) \<or> a \<in> set (actions rest k)"
  by (auto simp: deferring_def all_actions_def case_prod_beta split: sum.splits)

lemma deferring_cluster: "snd (snd (deferring op rest k)) = (if \<exists>err. fst op = Inl err then k else snd (snd (rest k)))"
  by (auto simp: deferring_def case_prod_beta split: sum.splits)

lemma set_all_actions [simp]:
  "set (all_actions (holding rs)) = Acquire ` set rs \<union> Release ` set rs"
  "set (all_actions (postgres_New w pc)) \<subseteq> {Acquire RPostgres, Release RPostgres}"
  "set (all_actions (redisx_New w rc)) \<subseteq> {Acquire RRedis, Release RRedis}"
  "set (all_actions (wrap_error msg (telemetry_Init w tc name)))
     \<subseteq> {Acquire RTracer, Release RTracer, SetTracerProvider, SetPropagator}"
  by (auto simp: all_actions_def holding_def postgres_New_def redisx_New_def wrap_error_def telemetry_Init_def
      split: option.splits sum.splits)

lemma within_topics_deferring:
  "within_topics rest \<Longrightarrow> list_all (\<lambda>a. set (kafka_topics a) \<subseteq> set AllTopics) (all_actions op) \<Longrightarrow>
     within_topics (deferring op rest)"
  unfolding within_topics_def list_all_iff by (metis deferring_actions deferring_cluster)

lemma within_topics_performing:
  "within_topics rest \<Longrightarrow> list_all (\<lambda>a. kafka_topics a = []) as \<Longrightarrow> within_topics (performing as rest)"
  by (auto simp: within_topics_def performing_def case_prod_beta list_all_iff)

lemma within_topics_last:
  "within_topics (serving w port)" "within_topics (notification_serving w port)" "within_topics (consuming t g)"
  by (simp_all add: within_topics_def serving_def notification_serving_def consuming_def split: option.splits)

lemma topics_first_deferring:
  assumes "topics_first topics_of rest" "list_all (\<lambda>a. kafka_topics a = []) (all_actions op)"
  shows "topics_first topics_of (deferring op rest)"
  unfolding topics_first_def
proof (intro allI ballI)
  fix k a assume a: "a \<in> set (actions (deferring op rest) k)"
  show "set (kafka_topics a) \<subseteq> topics_of (snd (snd (deferring op rest k)))"
  proof (cases "a \<in> set (all_actions op)")
    case True
    with assms(2) have "kafka_topics a = []" by (simp add: list_all_iff)
    then show ?thesis by simp
  next
    case False
    with a have "a \<in> set (actions rest k)" using deferring_actions [OF a] by simp
    moreover from a False have "\<not> (\<exists>err. fst op = Inl err)" by (auto simp: deferring_def all_actions_def)
    ultimately show ?thesis using assms(1) by (simp add: topics_first_def deferring_cluster)
  qed
qed

lemma topics_first_kafka_free: "(\<And>k. list_all (\<lambda>a. kafka_topics a = []) (actions p k)) \<Longrightarrow> topics_first topics_of p"
  by (fastforce simp: topics_first_def list_all_iff)

context kafka_admin
begin

lemma topics_first_ensuring: "within_topics rest \<Longrightarrow> topics_first topics_of (ensuring_topics A cfg rest)"
proof -
  assume rest: "within_topics rest"
  have "set AllTopics \<subseteq> topics_of k'" if "EnsureTopics A bs AllTopics k = (None, k')" for bs k k'
    using EnsureTopics_ok [OF that] by blast
  with rest show ?thesis
    by (fastforce simp: topics_first_def within_topics_def ensuring_topics_def split: prod.splits option.splits)
qed

end

lemma kafka_free_opened:
  "list_all (\<lambda>a. kafka_topics a = []) (all_actions (postgres_New w pc))"
  "list_all (\<lambda>a. kafka_topics a = []) (all_actions (redisx_New w rc))"
  "list_all (\<lambda>a. kafka_topics a = []) (all_actions (wrap_error msg (telemetry_Init w tc name)))"
  "list_all (\<lambda>a. kafka_topics a = []) (all_actions (holding [RSignals]))"
  by (auto simp: list_all_iff dest!: subsetD [OF set_all_actions(2)] subsetD [OF set_all_actions(3)]
      subsetD [OF set_all_actions(4)])

lemma topics_first_booting:
  assumes "\<And>cfg. topics_first topics_of (rest cfg)"
  shows "topics_first topics_of (booting V w name rest)"
proof -
  have "topics_first topics_of (deferring (holding [RSignals])
      (deferring (wrap_error msg (telemetry_Init w (cfg_Telemetry cfg) name)) (rest cfg)))" for msg cfg
    by (intro topics_first_deferring assms kafka_free_opened)
  then show ?thesis by (simp add: topics_first_def booting_def Let_def split: sum.splits)
qed

lemmas topics_first_rules = topics_first_booting topics_first_deferring [OF _ kafka_free_opened(1)]
  topics_first_deferring [OF _ kafka_free_opened(2)] within_topics_deferring within_topics_performing within_topics_last

context kafka_admin
begin

lemma run_service_topics_first: "topics_first topics_of (run_service svc V A w)"
proof (cases svc)
  case RiderService
  have "topics_first topics_of (serving w port)" for w port
    by (rule topics_first_kafka_free) (simp add: serving_def split: option.splits)
  with RiderService show ?thesis by (auto simp: run_rider_def intro!: topics_first_rules)
qed (auto simp: run_order_def run_assignment_def run_location_def run_eta_def run_notification_def Let_def
    list_all_iff AllTopics_def notification_consumers_def
    intro!: topics_first_rules topics_first_ensuring)

end

text \<open>The consumers of each service.\<close>

fun subscriptions :: "service \<Rightarrow> Config \<Rightarrow> (string \<times> string) list" where
  "subscriptions AssignmentService cfg = [(TopicOrderPlaced, kc_GroupID (cfg_Kafka cfg) @ ''.assignment'')]"
| "subscriptions EtaService cfg = [(TopicRiderLocationUpdate, kc_GroupID (cfg_Kafka cfg) @ ''.eta'')]"
| "subscriptions NotificationService cfg = notification_consumers cfg"
| "subscriptions _ cfg = []"

definition config_of :: "'v viper \<Rightarrow> world \<Rightarrow> error + Config" where
  "config_of V w =
     Load V (if w_Getenv w ''CONFIG_PATH'' = '''' then ''config/config.yaml'' else w_Getenv w ''CONFIG_PATH'')"

lemma booting_consumer:
  assumes "Acquire (RConsumer t g) \<in> set (actions (booting V w name rest) k)"
  shows "\<exists>cfg. config_of V w = Inr cfg \<and> Acquire (RConsumer t g) \<in> set (actions (rest cfg) k)"
proof -
  from assms obtain cfg where cfg: "config_of V w = Inr cfg"
    and a: "Acquire (RConsumer t g) \<in> set (actions (deferring (holding [RSignals])
      (deferring (wrap_error ''init telemetry: '' (telemetry_Init w (cfg_Telemetry cfg) name)) (rest cfg))) k)"
    by (auto simp: booting_def Let_def config_of_def split: sum.splits if_splits)
  from a have "Acquire (RConsumer t g) \<in> set (actions (rest cfg) k)"
    by (auto dest!: deferring_actions subsetD [OF set_all_actions(4)])
  with cfg show ?thesis by blast
qed

lemma performing_actions: "a \<in> set (actions (performing as rest) k) \<Longrightarrow> a \<in> set as \<or> a \<in> set (actions rest k)"
  by (auto simp: performing_def case_prod_beta)

lemma ensuring_actions: "a \<in> set (actions (ensuring_topics A cfg rest) k) \<Longrightarrow> \<exists>k. a \<in> set (actions rest k)"
  by (auto simp: ensuring_topics_def split: prod.splits option.splits)

lemma last_actions:
  "Acquire r \<notin> set (actions (serving w port) k)" "Acquire r \<notin> set (actions (notification_serving w port) k)"
  "Acquire r \<notin> set (actions (consuming t g) k)"
  by (auto simp: serving_def notification_serving_def consuming_def split: option.splits)

lemma run_service_consumer:
  assumes "Acquire (RConsumer t g) \<in> set (actions (run_service svc V A w) k)"
  shows "\<exists>cfg. config_of V w = Inr cfg \<and> (t, g) \<in> set (subscriptions svc cfg)"
  using assms
  by (cases svc) (auto simp: run_order_def run_assignment_def run_rider_def run_location_def run_eta_def
      run_notification_def Let_def last_actions
      dest!: booting_consumer deferring_actions performing_actions ensuring_actions
        subsetD [OF set_all_actions(2)] subsetD [OF set_all_actions(3)])

lemma subscriptions_distinct:
  "(t, g) \<in> set (subscriptions svc cfg) \<Longrightarrow> (t', g) \<in> set (subscriptions svc' cfg) \<Longrightarrow> svc = svc' \<and> t = t'"
  by (cases svc; cases svc') (auto simp: notification_consumers_def)

section \<open>Serving\<close>

fun started :: "action \<Rightarrow> bool" where
  "started (Listen _) = True"
| "started (RunConsumer _ _) = True"
| "started _ = False"

definition starts :: "'k process \<Rightarrow> bool" where
  "starts p \<longleftrightarrow> (\<forall>k. fst (p k) = None \<longrightarrow> list_ex started (actions p k))"

lemma starts_deferring: "starts rest \<Longrightarrow> starts (deferring op rest)"
  by (simp add: starts_def deferring_def case_prod_beta split: sum.splits)

lemma starts_performing: "starts rest \<Longrightarrow> starts (performing as rest)"
  by (simp add: starts_def performing_def case_prod_beta)

lemma starts_ensuring: "starts rest \<Longrightarrow> starts (ensuring_topics A cfg rest)"
  by (simp add: starts_def ensuring_topics_def split: prod.splits option.splits)

lemma starts_last: "starts (serving w port)" "starts (notification_serving w port)" "starts (consuming t g)"
  by (simp_all add: starts_def serving_def notification_serving_def consuming_def split: option.splits)

lemma starts_booting: "(\<And>cfg. starts (rest cfg)) \<Longrightarrow> starts (booting V w name rest)"
proof -
  assume rest: "\<And>cfg. starts (rest cfg)"
  have "starts (deferring op (deferring op' (rest cfg)))" for op op' cfg
    by (intro starts_deferring rest)
  then show ?thesis by (simp add: starts_def booting_def Let_def split: sum.splits)
qed

lemma run_service_starts: "starts (run_service svc V A w)"
  by (cases svc) (auto simp: run_order_def run_assignment_def run_rider_def run_location_def run_eta_def
      run_notification_def Let_def intro!: starts_booting starts_deferring starts_performing starts_ensuring starts_last)

section \<open>An example world\<close>

definition example_config :: Config where
  "example_config = \<lparr>cfg_Env = ''local'',
     cfg_Postgres = \<lparr>pgc_Host = ''localhost'', pgc_Port = 5432, pgc_Name = ''delivery_engine'',
       pgc_User = ''postgres'', pgc_Password = ''postgres'', pgc_SSLMode = ''disable''\<rparr>,
     cfg_Redis = \<lparr>rdc_Addr = ''localhost:6379'', rdc_Password = '''', rdc_DB = 0\<rparr>,
     cfg_Kafka = \<lparr>kc_Brokers = [''localhost:9092''], kc_GroupID = ''delivery-engine''\<rparr>,
     cfg_Services = \<lparr>sv_OrderPort = 8080, sv_RiderPort = 8081, sv_LocationPort = 8083, sv_NotifyPort = 8085\<rparr>,
     cfg_RateLimit = \<lparr>rl_OrdersPerMinute = 5\<rparr>,
     cfg_Auth = \<lparr>ac_JWTSecret = ''dev-only-secret-change-me'', ac_TTLHours = 24\<rparr>,
     cfg_Telemetry = \<lparr>tel_Enabled = True, tel_OTLPEndpoint = ''localhost:4318''\<rparr>\<rparr>"

definition example_viper :: "unit viper" where
  "example_viper = \<lparr>viper_New = (), SetConfigFile = (\<lambda>_ v. v), SetConfigType = (\<lambda>_ v. v), SetEnvPrefix = (\<lambda>_ v. v),
     SetEnvKeyReplacer = (\<lambda>_ v. v), AutomaticEnv = (\<lambda>v. v), SetDefault = (\<lambda>_ _ v. v), ReadInConfig = (\<lambda>v. (None, v)),
     viper_Unmarshal = (\<lambda>_. Inr example_config), ConfigFileNotFoundError = (\<lambda>_. False)\<rparr>"

definition example_world :: world where
  "example_world = \<lparr>w_Getenv = (\<lambda>_. ''''), otlp_New = (\<lambda>_. None), resource_New = (\<lambda>_. None),
     pool_ParseConfig = (\<lambda>dsn. Inr \<lparr>pcfg_ConnString = dsn, pcfg_MaxConns = 4, pcfg_MinConns = 0,
       pcfg_MaxConnLifetime = 0, pcfg_MaxConnIdleTime = 0\<rparr>), pool_New = (\<lambda>_. None), pool_Ping = None, redis_Ping = (\<lambda>_. None),
     http_serve = None, http_Shutdown = None\<rparr>"

lemma example_Load: "Load example_viper path = Inr example_config"
  by (simp add: Load_def example_viper_def)

section \<open>Examples and remarks\<close>

text \<open>
  No two consumers share a consumer group: with one configuration, a group id belongs to one topic
  of one service, so that every consumer sees all messages of its topic.
\<close>

lemma consumer_groups_distinct:
  assumes "w_Getenv w' = w_Getenv w"
    and "Acquire (RConsumer t g) \<in> set (fst (snd (run_service svc V A w k)))"
    and "Acquire (RConsumer t' g) \<in> set (fst (snd (run_service svc' V A w' k')))"
  shows "svc = svc' \<and> t = t'"
proof -
  from run_service_consumer [OF assms(2)] run_service_consumer [OF assms(3)] obtain cfg where
    "(t, g) \<in> set (subscriptions svc cfg)" "(t', g) \<in> set (subscriptions svc' cfg)"
    unfolding config_of_def assms(1) by (metis Inr_inject)
  then show ?thesis by (rule subscriptions_distinct)
qed



text \<open>
  Consumers join a group only after their topic exists: every topic a service's producer or
  consumers rely on is in the cluster when it starts them, and a process exits with code 0 only
  after it has served requests or run its consumer.
\<close>

lemma consumers_find_their_topics:
  assumes "kafka_admin A topics_of" and "run_service svc V A w k = (r, tr, k')"
  shows "(\<forall>a \<in> set tr. set (kafka_topics a) \<subseteq> topics_of k') \<and> (exit_code r = 0 \<longrightarrow> list_ex started tr)"
proof -
  have run: "fst (run_service svc V A w k) = r" "fst (snd (run_service svc V A w k)) = tr"
      "snd (snd (run_service svc V A w k)) = k'"
    by (simp_all add: assms(2))
  have "\<forall>a \<in> set tr. set (kafka_topics a) \<subseteq> topics_of k'"
    using kafka_admin.run_service_topics_first [OF assms(1), of svc V w] unfolding topics_first_def by (metis run(2,3))
  moreover have "r = None \<longrightarrow> list_ex started tr"
    using run_service_starts [of svc V A w] unfolding starts_def by (metis run(1,2))
  ultimately show ?thesis by (simp add: exit_code_def split: option.splits)
qed



section \<open>Properties\<close>


end
