(* ===== verification/Relay_Shutdown.thy ===== *)
theory Relay_Shutdown
  imports Service_Runtime Outbox
begin

text \<open>
  The relay goroutine of the order and the assignment service while \<^verbatim>\<open>run\<close> returns
  (\<^verbatim>\<open>cmd/order-service/main.go\<close>, \<^verbatim>\<open>cmd/assignment-service/main.go\<close>, \<^verbatim>\<open>internal/outbox/relay.go\<close>).  \<^verbatim>\<open>run\<close> does
  not wait for it: the deferred calls close the producer and the pool while the relay may be in the middle
  of a dispatch.  Here a dispatch is a sequence of calls, interleaved with the rest of \<^verbatim>\<open>run\<close>, the
  shutdown signal and other writers of the outbox.  The producer's and the pool's \<^verbatim>\<open>Close\<close> are parameters
  (locales \<open>closable_publisher\<close> and \<open>pool_laws\<close>).
\<close>

section \<open>The libraries\<close>

text \<open>A closed producer refuses to write; closing it writes nothing new.\<close>

locale closable_publisher = publisher publish sent
  for publish :: "'c \<Rightarrow> string \<Rightarrow> string \<Rightarrow> json \<Rightarrow> 'k \<Rightarrow> error option \<times> 'k" and sent :: "'k \<Rightarrow> event list" +
  fixes close :: "'k \<Rightarrow> 'k" and shut :: "'k \<Rightarrow> bool"
  assumes close_shut: "shut (close k)" and close_sent: "sent (close k) = sent k"
    and shut_publish: "shut k \<Longrightarrow> \<exists>e. publish c t key b k = (Some e, k)"

text \<open>The pool: \<^verbatim>\<open>Close\<close> blocks until all connections have been returned, and a closed pool gives out none.\<close>

record pool =
  pool_Close_returns :: "nat \<Rightarrow> bool"  \<comment> \<open>by the number of connections in use\<close>
  pool_Acquire_ok :: "bool \<Rightarrow> bool"  \<comment> \<open>whether the pool is closed\<close>

locale pool_laws =
  fixes P :: pool
  assumes close_waits: "pool_Close_returns P n \<Longrightarrow> n = 0"
    and closed_refuses: "\<not> pool_Acquire_ok P True"

section \<open>The relay call by call\<close>

text \<open>Where the relay is: at its \<^verbatim>\<open>select\<close>, after \<^verbatim>\<open>BeginTx\<close>, with rows still to be published and the ids of
  those that were, before \<^verbatim>\<open>Commit\<close>, or returned.\<close>

datatype relay_pc = AtSelect | InTx | Publishing "outbox_row list" "int list" | InCommit "int list" | Stopped

fun relay_conns :: "relay_pc \<Rightarrow> nat" where
  "relay_conns AtSelect = 0"
| "relay_conns Stopped = 0"
| "relay_conns _ = 1"

text \<open>How a call ends: with its effect, with an error and no effect, with an error although it took effect; or
  the \<^verbatim>\<open>select\<close> finds the context done.\<close>

datatype call_answer = CallOk | CallFails | CallLost | ContextDone

text \<open>\<open>rs_main\<close> are the actions of \<^verbatim>\<open>run\<close> still to come, \<open>rs_done\<close> tells whether its context is done.\<close>

record 'k run_state =
  rs_db :: db
  rs_bus :: 'k
  rs_relay :: relay_pc
  rs_main :: "action list"
  rs_closed :: "resource list"
  rs_done :: bool

fun relay_call ::
  "pool \<Rightarrow> (json option \<Rightarrow> 'c) \<Rightarrow> ('c, 'k) publish \<Rightarrow> (int \<Rightarrow> bool) \<Rightarrow> time \<Rightarrow> call_answer \<Rightarrow> relay_pc
     \<Rightarrow> 'k run_state \<Rightarrow> 'k run_state option" where
  "relay_call P pctx pub locked now ContextDone AtSelect s =
     (if rs_done s then Some (s\<lparr>rs_relay := Stopped\<rparr>) else None)"
| "relay_call P pctx pub locked now CallOk AtSelect s =
     (if pool_Acquire_ok P (RPostgres \<in> set (rs_closed s)) then Some (s\<lparr>rs_relay := InTx\<rparr>) else None)"
| "relay_call P pctx pub locked now CallFails AtSelect s = Some s"
| "relay_call P pctx pub locked now CallOk InTx s =
     (let batch = select_unsent locked relay_batchSize (rs_db s)
      in Some (s\<lparr>rs_relay := (if batch = [] then AtSelect else Publishing batch [])\<rparr>))"
| "relay_call P pctx pub locked now CallOk (Publishing (it # rest) ids) s =
     (case pub (pctx (ob_trace_context it)) (ob_topic it) (ob_partition_key it) (ob_payload it) (rs_bus s) of
        (Some err, k') \<Rightarrow> Some (s\<lparr>rs_relay := AtSelect, rs_bus := k'\<rparr>)
      | (None, k') \<Rightarrow> Some (s\<lparr>rs_relay := Publishing rest (ids @ [ob_id it]), rs_bus := k'\<rparr>))"
| "relay_call P pctx pub locked now CallLost (Publishing (it # rest) ids) s =
     (case pub (pctx (ob_trace_context it)) (ob_topic it) (ob_partition_key it) (ob_payload it) (rs_bus s) of
        (_, k') \<Rightarrow> Some (s\<lparr>rs_relay := AtSelect, rs_bus := k'\<rparr>))"
| "relay_call P pctx pub locked now CallOk (Publishing [] ids) s = Some (s\<lparr>rs_relay := InCommit ids\<rparr>)"
| "relay_call P pctx pub locked now CallOk (InCommit ids) s =
     Some (s\<lparr>rs_relay := AtSelect, rs_db := mark_sent now ids (rs_db s)\<rparr>)"
| "relay_call P pctx pub locked now CallLost (InCommit ids) s =
     Some (s\<lparr>rs_relay := AtSelect, rs_db := mark_sent now ids (rs_db s)\<rparr>)"
| "relay_call P pctx pub locked now CallFails Stopped s = None"
| "relay_call P pctx pub locked now CallFails pc s = Some (s\<lparr>rs_relay := AtSelect\<rparr>)"
| "relay_call P pctx pub locked now _ _ s = None"

text \<open>The next action of \<^verbatim>\<open>run\<close>; only the deferred calls matter to the relay.\<close>

definition main_call :: "pool \<Rightarrow> ('k \<Rightarrow> 'k) \<Rightarrow> 'k run_state \<Rightarrow> 'k run_state option" where
  "main_call P close s =
     (case rs_main s of
        [] \<Rightarrow> None
      | Release RProducer # as \<Rightarrow>
          Some (s\<lparr>rs_main := as, rs_closed := RProducer # rs_closed s, rs_bus := close (rs_bus s)\<rparr>)
      | Release RPostgres # as \<Rightarrow>
          if pool_Close_returns P (relay_conns (rs_relay s))
          then Some (s\<lparr>rs_main := as, rs_closed := RPostgres # rs_closed s\<rparr>) else None
      | Release RSignals # as \<Rightarrow> Some (s\<lparr>rs_main := as, rs_closed := RSignals # rs_closed s, rs_done := True\<rparr>)
      | CancelContext # as \<Rightarrow> Some (s\<lparr>rs_main := as, rs_done := True\<rparr>)
      | Release r # as \<Rightarrow> Some (s\<lparr>rs_main := as, rs_closed := r # rs_closed s\<rparr>)
      | a # as \<Rightarrow> Some (s\<lparr>rs_main := as\<rparr>))"

text \<open>Other transactions add rows to the outbox.\<close>

definition others_write :: "db \<Rightarrow> db \<Rightarrow> bool" where
  "others_write d d' \<longleftrightarrow> wf_db d' \<and> prefix (outbox d) (outbox d') \<and> sent_rows d' = sent_rows d"

inductive shutdown_step ::
  "pool \<Rightarrow> (json option \<Rightarrow> 'c) \<Rightarrow> ('c, 'k) publish \<Rightarrow> ('k \<Rightarrow> 'k) \<Rightarrow> 'k run_state \<Rightarrow> 'k run_state \<Rightarrow> bool"
  for P pctx pub close where
  relay: "relay_call P pctx pub locked now a (rs_relay s) s = Some s' \<Longrightarrow> shutdown_step P pctx pub close s s'"
| main: "main_call P close s = Some s' \<Longrightarrow> shutdown_step P pctx pub close s s'"
| signal: "shutdown_step P pctx pub close s (s\<lparr>rs_done := True\<rparr>)"
| others: "others_write (rs_db s) d' \<Longrightarrow> shutdown_step P pctx pub close s (s\<lparr>rs_db := d'\<rparr>)"

definition shutdown_start :: "action list \<Rightarrow> db \<Rightarrow> 'k \<Rightarrow> 'k run_state" where
  "shutdown_start as d k = \<lparr>rs_db = d, rs_bus = k, rs_relay = AtSelect, rs_main = as, rs_closed = [], rs_done = False\<rparr>"

section \<open>The calls make up the dispatch\<close>

text \<open>When nothing comes in between, the calls of one tick amount to \<open>dispatch\<close>.\<close>

fun relay_calls ::
  "pool \<Rightarrow> (json option \<Rightarrow> 'c) \<Rightarrow> ('c, 'k) publish \<Rightarrow> (int \<Rightarrow> bool) \<Rightarrow> time \<Rightarrow> call_answer list
     \<Rightarrow> 'k run_state \<Rightarrow> 'k run_state option" where
  "relay_calls P pctx pub locked now [] s = Some s"
| "relay_calls P pctx pub locked now (a # as) s =
     (case relay_call P pctx pub locked now a (rs_relay s) s of
        None \<Rightarrow> None | Some s' \<Rightarrow> relay_calls P pctx pub locked now as s')"

lemma relay_calls_append:
  "relay_calls P pctx pub locked now (xs @ ys) s = Option.bind (relay_calls P pctx pub locked now xs s)
     (relay_calls P pctx pub locked now ys)"
  by (induction xs arbitrary: s) (auto split: option.splits)

lemma calls_of_publish_batch:
  "rs_relay s = Publishing rows ids \<Longrightarrow> publish_batch pctx pub rows (rs_bus s) = (res, k') \<Longrightarrow>
     \<exists>as. relay_calls P pctx pub locked now as s = Some (case res of
        Inl e \<Rightarrow> s\<lparr>rs_relay := AtSelect, rs_bus := k'\<rparr>
      | Inr ids' \<Rightarrow> s\<lparr>rs_relay := Publishing [] (ids @ ids'), rs_bus := k'\<rparr>)"
proof (induction rows arbitrary: s ids res k')
  case Nil
  then show ?case by (intro exI [of _ "[]"]) (cases s; auto)
next
  case (Cons it rest)
  obtain v k1 where
    p: "pub (pctx (ob_trace_context it)) (ob_topic it) (ob_partition_key it) (ob_payload it) (rs_bus s) = (v, k1)"
    by fastforce
  show ?case
  proof (cases v)
    case (Some e)
    with p Cons.prems show ?thesis by (intro exI [of _ "[CallOk]"]) auto
  next
    case None
    let ?s1 = "s\<lparr>rs_relay := Publishing rest (ids @ [ob_id it]), rs_bus := k1\<rparr>"
    obtain res1 where r1: "publish_batch pctx pub rest k1 = (res1, k')"
      and res: "res = (case res1 of Inl e \<Rightarrow> Inl e | Inr ids' \<Rightarrow> Inr (ob_id it # ids'))"
      using Cons.prems(2) p None by (auto split: prod.splits sum.splits)
    from Cons.IH [of ?s1 "ids @ [ob_id it]" res1 k'] r1 obtain as where
      "relay_calls P pctx pub locked now as ?s1 = Some (case res1 of
          Inl e \<Rightarrow> ?s1\<lparr>rs_relay := AtSelect, rs_bus := k'\<rparr>
        | Inr ids' \<Rightarrow> ?s1\<lparr>rs_relay := Publishing [] ((ids @ [ob_id it]) @ ids'), rs_bus := k'\<rparr>)" by auto
    with p None Cons.prems(1) res show ?thesis
      by (intro exI [of _ "CallOk # as"]) (simp split: sum.splits)
  qed
qed

lemma calls_of_dispatch:
  assumes "rs_relay s = AtSelect" "pool_Acquire_ok P (RPostgres \<in> set (rs_closed s))"
    and "dispatch e locked relay_batchSize pctx pub (rs_db s, rs_bus s) = (r, d', k')"
  shows "\<exists>as. relay_calls P pctx pub locked (pg_now e) as s = Some (s\<lparr>rs_db := d', rs_bus := k'\<rparr>)"
proof (cases "begin_ok e \<and> stmt_ok e 0 \<and> stmt_ok e 1 \<and> stmt_ok e 2")
  case False
  with dispatch_early assms(3) have "d' = rs_db s \<and> k' = rs_bus s" by (metis prod.inject)
  then show ?thesis by (intro exI [of _ "[]"]) simp
next
  case True
  let ?B = "select_unsent locked relay_batchSize (rs_db s)"
  note dp = assms(3) [unfolded dispatch_selected [OF True]]
  show ?thesis
  proof (cases "?B = []")
    case empty: True
    with dp assms(1,2) show ?thesis by (intro exI [of _ "[CallOk, CallOk]"]) (simp add: Let_def)
  next
    case busy: False
    let ?s1 = "s\<lparr>rs_relay := Publishing ?B []\<rparr>"
    obtain res k1 where pb: "publish_batch pctx pub ?B (rs_bus s) = (res, k1)" by fastforce
    have "publish_batch pctx pub ?B (rs_bus ?s1) = (res, k1)" using pb by simp
    from calls_of_publish_batch [OF _ this, of "[]" P locked "pg_now e"] obtain as where
      as: "relay_calls P pctx pub locked (pg_now e) as ?s1 = Some (case res of
          Inl e \<Rightarrow> ?s1\<lparr>rs_relay := AtSelect, rs_bus := k1\<rparr>
        | Inr ids' \<Rightarrow> ?s1\<lparr>rs_relay := Publishing [] ([] @ ids'), rs_bus := k1\<rparr>)" by fastforce
    have start: "relay_calls P pctx pub locked (pg_now e) (CallOk # CallOk # as @ bs) s
        = Option.bind (relay_calls P pctx pub locked (pg_now e) as ?s1) (relay_calls P pctx pub locked (pg_now e) bs)" for bs
      using assms(1,2) busy by (simp add: relay_calls_append Let_def)
    define bs where "bs = (case res of Inl _ \<Rightarrow> []
      | Inr _ \<Rightarrow> if \<not> stmt_ok e 3 then [CallFails] else [CallOk, (case commit_outcome e of Done \<Rightarrow> CallOk | Failed \<Rightarrow> CallFails | Lost \<Rightarrow> CallLost)])"
    have "relay_calls P pctx pub locked (pg_now e) (CallOk # CallOk # as @ bs) s = Some (s\<lparr>rs_db := d', rs_bus := k'\<rparr>)"
      unfolding start as using dp busy pb assms(1)
      by (auto simp: bs_def split: sum.splits outcome.splits if_splits)
    then show ?thesis ..
  qed
qed

section \<open>What holds at every moment\<close>

text \<open>Each id stands for a row whose event is on the bus.\<close>

definition rows_published :: "event set \<Rightarrow> db \<Rightarrow> int list \<Rightarrow> bool" where
  "rows_published evs d ids \<longleftrightarrow> (\<forall>i \<in> set ids. \<exists>x \<in> set (outbox d). ob_id x = i \<and> row_event x \<in> evs)"

fun batch_ok :: "event set \<Rightarrow> db \<Rightarrow> relay_pc \<Rightarrow> bool" where
  "batch_ok evs d (Publishing todo ids) \<longleftrightarrow> set todo \<subseteq> set (outbox d) \<and> rows_published evs d ids"
| "batch_ok evs d (InCommit ids) \<longleftrightarrow> rows_published evs d ids"
| "batch_ok evs d _ \<longleftrightarrow> True"

definition events_kept :: "db \<Rightarrow> db \<Rightarrow> event list \<Rightarrow> bool" where
  "events_kept d0 d evs \<longleftrightarrow> wf_db d \<and> prefix (map row_event (outbox d0)) (map row_event (outbox d))
     \<and> (\<forall>x \<in> set (sent_rows d). row_event x \<in> set evs)"

lemma rows_published_mono:
  "rows_published evs d ids \<Longrightarrow> evs \<subseteq> evs' \<Longrightarrow> set (outbox d) \<subseteq> set (outbox d') \<Longrightarrow> rows_published evs' d' ids"
  unfolding rows_published_def by blast

lemma batch_ok_mono:
  "batch_ok evs d pc \<Longrightarrow> evs \<subseteq> evs' \<Longrightarrow> set (outbox d) \<subseteq> set (outbox d') \<Longrightarrow> batch_ok evs' d' pc"
  by (cases pc) (auto intro: rows_published_mono)

lemma rows_published_mark:
  assumes "events_kept d0 d evs" "rows_published (set evs) d ids"
  shows "events_kept d0 (mark_sent now ids d) evs"
  unfolding events_kept_def
proof (intro conjI ballI)
  show "wf_db (mark_sent now ids d)" using assms(1) by (simp add: events_kept_def mark_sent_wf)
  show "prefix (map row_event (outbox d0)) (map row_event (outbox (mark_sent now ids d)))"
    using assms(1) by (simp add: events_kept_def)
  fix x assume "x \<in> set (sent_rows (mark_sent now ids d))"
  from mark_sent_sent_rows [OF this] obtain r where
    r: "r \<in> set (outbox d)" "row_event x = row_event r" "ob_sent_at r \<noteq> None \<or> ob_id r \<in> set ids" by blast
  show "row_event x \<in> set evs"
  proof (cases "ob_sent_at r \<noteq> None")
    case True
    with r(1) assms(1) have "row_event r \<in> set evs" by (simp add: events_kept_def sent_rows_def)
    with r(2) show ?thesis by simp
  next
    case False
    with r(3) assms(2) obtain y where y: "y \<in> set (outbox d)" "ob_id y = ob_id r" "row_event y \<in> set evs"
      by (auto simp: rows_published_def)
    have "distinct (map ob_id (outbox d))" using assms(1) by (simp add: events_kept_def wf_outbox_distinct)
    with y(1,2) r(1) have "y = r" by (simp add: distinct_map inj_on_def)
    with y(3) r(2) show ?thesis by simp
  qed
qed

lemma events_kept_others: "events_kept d0 d evs \<Longrightarrow> others_write d d' \<Longrightarrow> events_kept d0 d' evs"
  unfolding events_kept_def others_write_def by (metis map_mono_prefix prefix_order.trans)

lemma events_kept_mono: "events_kept d0 d evs \<Longrightarrow> set evs \<subseteq> set evs' \<Longrightarrow> events_kept d0 d evs'"
  unfolding events_kept_def by blast

context closable_publisher
begin

definition shutdown_ok :: "db \<Rightarrow> 'k run_state \<Rightarrow> bool" where
  "shutdown_ok d0 s \<longleftrightarrow> events_kept d0 (rs_db s) (sent (rs_bus s))
     \<and> batch_ok (set (sent (rs_bus s))) (rs_db s) (rs_relay s)
     \<and> (RPostgres \<in> set (rs_closed s) \<longrightarrow> relay_conns (rs_relay s) = 0)
     \<and> (RProducer \<in> set (rs_closed s) \<longrightarrow> shut (rs_bus s))"

lemma publish_sent: "publish c t key b k = (v, k') \<Longrightarrow> set (sent k) \<subseteq> set (sent k')"
  using publish_ok [of c t key b k k'] publish_err [of c t key b k _ k'] by (cases v) auto

lemma publish_closed: "publish c t key b k = (v, k') \<Longrightarrow> shut k \<Longrightarrow> shut k'"
  using shut_publish [of k c t key b] by auto

lemma published_next:
  assumes "shutdown_ok d0 s" "rs_relay s = Publishing (it # rest) ids"
    and p: "publish c (ob_topic it) (ob_partition_key it) (ob_payload it) (rs_bus s) = (v, k')"
  shows "shutdown_ok d0 (s\<lparr>rs_relay := AtSelect, rs_bus := k'\<rparr>)"
    and "v = None \<Longrightarrow> shutdown_ok d0 (s\<lparr>rs_relay := Publishing rest (ids @ [ob_id it]), rs_bus := k'\<rparr>)"
proof -
  note mono = publish_sent [OF p]
  have kept: "events_kept d0 (rs_db s) (sent k')"
    using assms(1) events_kept_mono [OF _ mono] by (simp add: shutdown_ok_def)
  have cl: "RProducer \<in> set (rs_closed s) \<Longrightarrow> shut k'"
    using assms(1) publish_closed [OF p] by (simp add: shutdown_ok_def)
  show "shutdown_ok d0 (s\<lparr>rs_relay := AtSelect, rs_bus := k'\<rparr>)"
    using kept cl by (simp add: shutdown_ok_def)
  assume "v = None"
  then have "row_event it \<in> set (sent k')"
    using publish_ok [of c "ob_topic it" "ob_partition_key it" "ob_payload it" "rs_bus s" k'] p by (simp add: row_event_def)
  moreover have "it \<in> set (outbox (rs_db s))" "rows_published (set (sent k')) (rs_db s) ids" "set rest \<subseteq> set (outbox (rs_db s))"
    using assms(1,2) rows_published_mono [OF _ mono order_refl] by (simp_all add: shutdown_ok_def)
  moreover have "RPostgres \<notin> set (rs_closed s)" using assms(1,2) by (auto simp: shutdown_ok_def)
  ultimately show "shutdown_ok d0 (s\<lparr>rs_relay := Publishing rest (ids @ [ob_id it]), rs_bus := k'\<rparr>)"
    using kept cl by (auto simp: shutdown_ok_def rows_published_def)
qed

lemma relay_keeps:
  assumes "pool_laws P" "shutdown_ok d0 s" "relay_call P pctx publish locked now a (rs_relay s) s = Some s'"
  shows "shutdown_ok d0 s'"
proof (cases "rs_relay s")
  case AtSelect
  then show ?thesis
    using assms pool_laws.closed_refuses [OF assms(1)]
    by (cases a) (auto simp: shutdown_ok_def split: if_splits)
next
  case InTx
  have "set (select_unsent locked relay_batchSize (rs_db s)) \<subseteq> set (outbox (rs_db s))"
    using select_unsent_subset [of locked relay_batchSize "rs_db s"] by (auto simp: unsent_def)
  with InTx show ?thesis
    using assms(2,3) by (cases a) (auto simp: shutdown_ok_def rows_published_def Let_def)
next
  case (Publishing todo ids)
  show ?thesis
  proof (cases todo)
    case Nil
    with Publishing assms(2,3) show ?thesis by (cases a) (auto simp: shutdown_ok_def)
  next
    case (Cons it rest)
    obtain v k' where p: "publish (pctx (ob_trace_context it)) (ob_topic it) (ob_partition_key it) (ob_payload it) (rs_bus s) = (v, k')"
      by fastforce
    note next_ok = published_next [OF assms(2) Publishing [unfolded Cons] p]
    show ?thesis
    proof (cases a)
      case CallFails
      with Publishing Cons assms(2,3) show ?thesis by (auto simp: shutdown_ok_def)
    qed (use Publishing Cons assms(3) p next_ok in \<open>auto split: option.splits\<close>)
  qed
next
  case (InCommit ids)
  from assms(2) InCommit have "events_kept d0 (rs_db s) (sent (rs_bus s))" "rows_published (set (sent (rs_bus s))) (rs_db s) ids"
    by (simp_all add: shutdown_ok_def)
  from rows_published_mark [OF this] show ?thesis
    using InCommit assms(2,3) by (cases a) (auto simp: shutdown_ok_def)
next
  case Stopped
  with assms(3) show ?thesis by (cases a) auto
qed

lemma main_keeps:
  assumes "pool_laws P" "shutdown_ok d0 s" "main_call P close s = Some s'"
  shows "shutdown_ok d0 s'"
  using assms pool_laws.close_waits [OF assms(1), of "relay_conns (rs_relay s)"]
  by (auto simp: main_call_def shutdown_ok_def close_sent close_shut
      split: list.splits action.splits resource.splits if_splits)

lemma shutdown_keeps:
  assumes "pool_laws P" "shutdown_ok d0 s" "shutdown_step P pctx publish close s s'"
  shows "shutdown_ok d0 s'"
  using assms(3)
proof cases
  case (others d')
  have "batch_ok (set (sent (rs_bus s))) d' (rs_relay s)"
    using assms(2) others(2) batch_ok_mono [OF _ order_refl] set_mono_prefix
    by (fastforce simp: shutdown_ok_def others_write_def)
  moreover have "events_kept d0 d' (sent (rs_bus s))"
    using assms(2) events_kept_others [OF _ others(2)] by (simp add: shutdown_ok_def)
  ultimately show ?thesis using others(1) assms(2) by (simp add: shutdown_ok_def)
next
  case signal
  with assms(2) show ?thesis by (simp add: shutdown_ok_def)
qed (use assms(1,2) relay_keeps main_keeps in blast)+

lemma shutdown_reachable:
  assumes "pool_laws P" "(shutdown_step P pctx publish close)\<^sup>*\<^sup>* s s'" "shutdown_ok d0 s"
  shows "shutdown_ok d0 s'"
  using assms(2,3) by (induction rule: rtranclp_induct) (auto intro: shutdown_keeps [OF assms(1)])

end

section \<open>What run closes\<close>

lemma scoped_releases: "scoped held tr = Some held' \<Longrightarrow> r \<in> set held \<Longrightarrow> r \<notin> set held' \<Longrightarrow> Release r \<in> set tr"
proof (induction held tr rule: scoped.induct)
  case (3 held q tr)
  then show ?case by (cases "q = r") (auto split: if_splits simp: in_set_remove1)
qed (auto split: if_splits)

lemma run_closes:
  assumes "run_service svc V A w kafka = (r, pre @ Go RelayTask # rest, kafka')"
  shows "Release RProducer \<in> set rest \<and> Release RPostgres \<in> set rest"
proof -
  have "scoped [] (pre @ Go RelayTask # rest) = Some []"
    using run_service_keeps_scope [of svc V A w] assms by (metis fst_conv keeps_scope_def snd_conv)
  then obtain h where "scoped h (Go RelayTask # rest) = Some []"
    by (auto simp: scoped_append bind_eq_Some_conv)
  then have "scoped h rest = Some []" "RProducer \<in> set h" "RPostgres \<in> set h" by (auto split: if_splits)
  with scoped_releases show ?thesis by (metis empty_iff list.set(1))
qed

lemma relay_call_main: "relay_call P pctx pub locked now a pc s = Some s' \<Longrightarrow>
    rs_main s' = rs_main s \<and> rs_closed s' = rs_closed s"
  by (cases "(P, pctx, pub, locked, now, a, pc, s)" rule: relay_call.cases)
    (auto simp: Let_def split: if_splits option.splits prod.splits)

lemma main_closes:
  assumes "(shutdown_step P pctx pub close)\<^sup>*\<^sup>* s s'" "Release r \<in> set (rs_main s)"
  shows "Release r \<in> set (rs_main s') \<or> r \<in> set (rs_closed s')"
  using assms(1)
proof (induction rule: rtranclp_induct)
  case (step s1 s2)
  from step(2) show ?case
  proof cases
    case main
    with step(3) show ?thesis
      by (auto simp: main_call_def split: list.splits action.splits resource.splits if_splits)
  next
    case relay
    with step(3) relay_call_main [OF relay] show ?thesis by simp
  qed (use step(3) in simp_all)
qed (use assms(2) in simp)

section \<open>Examples and remarks\<close>

text \<open>A pool and a producer that behave as documented.\<close>

definition memory_pool :: pool where
  "memory_pool = \<lparr>pool_Close_returns = (\<lambda>n. n = 0), pool_Acquire_ok = Not\<rparr>"

interpretation memory_pool: pool_laws memory_pool
  by unfold_locales (simp_all add: memory_pool_def)

definition closable_publish :: "(carrier, broker \<times> bool) publish" where
  "closable_publish tc t key b = (\<lambda>(k, shut).
     if shut then (Some (ErrorString ''io: read/write on closed pipe''), k, shut)
     else (case example_publish tc t key b k of (r, k') \<Rightarrow> (r, k', shut)))"

definition close_broker :: "broker \<times> bool \<Rightarrow> broker \<times> bool" where
  "close_broker k = (fst k, True)"

interpretation closable_broker: closable_publisher closable_publish "\<lambda>k. map event_of (b_log (fst k))" close_broker snd
  by unfold_locales
    (auto simp: closable_publish_def close_broker_def broker.producer.publish_ok split: if_splits prod.splits
      dest: broker.producer.publish_err)

text \<open>
  The relay is not waited for: \<^verbatim>\<open>run\<close> may close the producer between two publications of one batch.  Then the
  batch is not marked sent, so the event that is already on the bus will be published again by the next
  process, and \<^verbatim>\<open>run\<close> has returned while the relay's loop has not.
\<close>

fun shutdown_schedule ::
  "pool \<Rightarrow> (json option \<Rightarrow> 'c) \<Rightarrow> ('c, 'k) publish \<Rightarrow> ('k \<Rightarrow> 'k) \<Rightarrow> call_answer option list
     \<Rightarrow> 'k run_state \<Rightarrow> 'k run_state option" where
  "shutdown_schedule P pctx pub close [] s = Some s"
| "shutdown_schedule P pctx pub close (a # as) s =
     (case (case a of None \<Rightarrow> main_call P close s | Some x \<Rightarrow> relay_call P pctx pub (\<lambda>_. False) 0 x (rs_relay s) s) of
        None \<Rightarrow> None | Some s' \<Rightarrow> shutdown_schedule P pctx pub close as s')"

lemma shutdown_schedule_reaches:
  "shutdown_schedule P pctx pub close as s = Some s' \<Longrightarrow> (shutdown_step P pctx pub close)\<^sup>*\<^sup>* s s'"
  by (induction as arbitrary: s)
    (auto split: option.splits intro: converse_rtranclp_into_rtranclp shutdown_step.intros)

lemma producer_closed_during_batch:
  "\<exists>s. (shutdown_step memory_pool (\<lambda>_. []) closable_publish close_broker)\<^sup>*\<^sup>*
       (shutdown_start [Release RProducer, Release RRedis, Release RPostgres] example_outbox (\<lparr>b_log = [], b_script = []\<rparr>, False)) s
     \<and> rs_main s = [] \<and> rs_relay s = AtSelect \<and> unsent (rs_db s) = unsent example_outbox
     \<and> map event_of (b_log (fst (rs_bus s))) = [row_event (example_row 1 ''a'')]"
proof -
  obtain s where s: "shutdown_schedule memory_pool (\<lambda>_. []) closable_publish close_broker
      [Some CallOk, Some CallOk, Some CallOk, None, Some CallOk, None, None]
      (shutdown_start [Release RProducer, Release RRedis, Release RPostgres] example_outbox (\<lparr>b_log = [], b_script = []\<rparr>, False)) = Some s"
    "rs_main s = [] \<and> rs_relay s = AtSelect \<and> unsent (rs_db s) = unsent example_outbox
     \<and> map event_of (b_log (fst (rs_bus s))) = [row_event (example_row 1 ''a'')]"
    by (simp add: shutdown_start_def memory_pool_def closable_publish_def close_broker_def main_call_def example_outbox_simps)
  from shutdown_schedule_reaches [OF s(1)] s(2) show ?thesis by (intro exI [of _ s] conjI) simp_all
qed

text \<open>The rest of the order service's \<^verbatim>\<open>run\<close> after it has started the relay, when nothing fails.\<close>

definition example_rest :: "action list" where
  "example_rest = [Listen (addr_of_port (sv_OrderPort (cfg_Services example_config))), Shutdown, Release RProducer,
     Release RRedis, Release RPostgres, Release RTracer, Release RSignals]"

lemma example_order_run:
  "run_service OrderService example_viper topic_list_admin example_world []
     = (None, [Acquire RSignals, Acquire RTracer, SetTracerProvider, SetPropagator, Acquire RPostgres, Acquire RRedis,
         Acquire RProducer] @ Go RelayTask # example_rest, AllTopics)"
  by (simp add: run_order_def booting_def deferring_def performing_def holding_def ensuring_topics_def serving_def
      example_Load example_world_def telemetry_Init_def wrap_error_def postgres_New_def redisx_New_def example_rest_def
      EnsureTopics_def missing_topics_def topic_list_admin_def example_config_def AllTopics_def Let_def)

section \<open>Properties\<close>

text \<open>
  C11: shutting down loses no event: however the calls of the relay, the deferred calls of \<^verbatim>\<open>run\<close>, the signal
  and other writers of the outbox interleave, at every moment (so also when the process is killed) the
  table holds all its events and each row marked sent has its event on the bus; and once \<^verbatim>\<open>run\<close> has
  returned the relay holds no transaction and can change neither the table nor the bus.
\<close>

theorem shutdown_loses_no_event:
  assumes "closable_publisher pub sent close shut" and "pool_laws P" and "wf_db d"
    and "\<forall>x \<in> set (sent_rows d). row_event x \<in> set (sent k)"
    and "run_service svc V A w kafka = (r, pre @ Go RelayTask # rest, kafka')"
    and "(shutdown_step P pctx pub close)\<^sup>*\<^sup>* (shutdown_start rest d k) s"
  shows "prefix (map row_event (outbox d)) (map row_event (outbox (rs_db s)))
     \<and> (\<forall>x \<in> set (sent_rows (rs_db s)). row_event x \<in> set (sent (rs_bus s)))
     \<and> (rs_main s = [] \<longrightarrow> relay_conns (rs_relay s) = 0
          \<and> (\<forall>locked now a s'. relay_call P pctx pub locked now a (rs_relay s) s = Some s' \<longrightarrow>
               rs_db s' = rs_db s \<and> rs_bus s' = rs_bus s))"
proof -
  have start: "closable_publisher.shutdown_ok sent shut d (shutdown_start rest d k)"
    using assms(3,4) by (simp add: closable_publisher.shutdown_ok_def [OF assms(1)] events_kept_def shutdown_start_def)
  from closable_publisher.shutdown_reachable [OF assms(1,2,6) start]
  have ok: "events_kept d (rs_db s) (sent (rs_bus s))" "RPostgres \<in> set (rs_closed s) \<Longrightarrow> relay_conns (rs_relay s) = 0"
    by (simp_all add: closable_publisher.shutdown_ok_def [OF assms(1)])
  have "relay_conns (rs_relay s) = 0 \<and> RPostgres \<in> set (rs_closed s)" if "rs_main s = []"
  proof -
    have "Release RPostgres \<in> set (rs_main (shutdown_start rest d k))"
      using run_closes [OF assms(5)] by (simp add: shutdown_start_def)
    from main_closes [OF assms(6) this] that ok(2) show ?thesis by simp
  qed
  moreover have "rs_db s' = rs_db s \<and> rs_bus s' = rs_bus s"
    if "relay_conns (rs_relay s) = 0" "relay_call P pctx pub locked now a (rs_relay s) s = Some s'" for locked now a s'
    using that by (cases "rs_relay s"; cases a) (auto split: if_splits)
  ultimately show ?thesis using ok(1) unfolding events_kept_def by blast
qed

theorem shutdown_loses_no_event_witness:
  "\<exists>s. shutdown_schedule memory_pool (\<lambda>_. []) closable_publish close_broker
       [Some CallOk, Some CallOk, Some CallOk, None, None, None, Some CallOk, None, None, None, None]
       (shutdown_start example_rest example_outbox (\<lparr>b_log = [], b_script = []\<rparr>, False)) = Some s
     \<and> row_event ` set (sent_rows (rs_db s)) \<subseteq> set (map event_of (b_log (fst (rs_bus s)))) \<and> relay_conns (rs_relay s) = 0"
proof -
  obtain s where s: "shutdown_schedule memory_pool (\<lambda>_. []) closable_publish close_broker
       [Some CallOk, Some CallOk, Some CallOk, None, None, None, Some CallOk, None, None, None, None]
       (shutdown_start example_rest example_outbox (\<lparr>b_log = [], b_script = []\<rparr>, False)) = Some s" "rs_main s = []"
    by (simp add: shutdown_start_def memory_pool_def closable_publish_def close_broker_def main_call_def
        example_rest_def example_outbox_simps)
  have "\<forall>x \<in> set (sent_rows example_outbox). row_event x \<in> set (map event_of (b_log (fst (k, False))))" for k :: broker
    by (simp add: example_outbox_simps)
  from shutdown_loses_no_event [OF closable_broker.closable_publisher_axioms memory_pool.pool_laws_axioms
      example_outbox_wf this example_order_run shutdown_schedule_reaches [OF s(1)]] s
  show ?thesis by (intro exI [of _ s]) auto
qed

end
