(* ===== verification/Rate_Limit_Concurrency.thy ===== *)
theory Rate_Limit_Concurrency
  imports Rate_Limit
begin

text \<open>
  The limiter of \<^verbatim>\<open>pkg/middleware/ratelimit.go\<close> under concurrent requests of one identity.  \<^verbatim>\<open>Allow\<close> uses a
  pipeline, not a transaction: its four commands are sent together, but Redis may execute commands of
  other clients between them.  Here each command is a step, and the steps of any number of requests
  interleave.  Within one window no interleaving lets more requests through than the limit, whichever
  commands fail; but a burst may be rejected as a whole, and two requests of the same nanosecond count as one.
\<close>

section \<open>Commands as steps\<close>

text \<open>Where a request is, with the errors of the commands so far.\<close>

datatype limiter_pc =
    AddNext
  | RemNext "error option list"
  | CardNext "error option list"
  | ExpireNext "error option list" nat
  | Answered "error + bool \<times> int"

fun allow_command ::
  "'z zset_client \<Rightarrow> SlidingWindow \<Rightarrow> time \<Rightarrow> string \<Rightarrow> limiter_pc \<Rightarrow> 'z \<Rightarrow> (limiter_pc \<times> 'z) option" where
  "allow_command Z s now i AddNext z =
     (case ZAdd Z (sw_prefix s @ '':'' @ i) (float64_of_int now) (instant_text now) z of
        (e, z') \<Rightarrow> Some (RemNext [e], z'))"
| "allow_command Z s now i (RemNext es) z =
     (case ZRemRangeByScore Z (sw_prefix s @ '':'' @ i) 0 (float64_of_int (now - sw_window s)) z of
        (e, z') \<Rightarrow> Some (CardNext (es @ [e]), z'))"
| "allow_command Z s now i (CardNext es) z =
     (case ZCard Z (sw_prefix s @ '':'' @ i) z of (e, n) \<Rightarrow> Some (ExpireNext (es @ [e]) n, z))"
| "allow_command Z s now i (ExpireNext es n) z =
     (case Expire Z (sw_prefix s @ '':'' @ i) (sw_window s) z of
        (e, z') \<Rightarrow> Some (Answered (case first_error (es @ [e]) of
            Some err \<Rightarrow> Inl err | None \<Rightarrow> Inr (int n \<le> sw_limit s, int n)), z'))"
| "allow_command Z s now i (Answered a) z = None"

text \<open>Without interference the four commands are \<open>Allow\<close>.\<close>

fun allow_commands :: "nat \<Rightarrow> 'z zset_client \<Rightarrow> SlidingWindow \<Rightarrow> time \<Rightarrow> string \<Rightarrow> limiter_pc \<times> 'z \<Rightarrow> (limiter_pc \<times> 'z) option" where
  "allow_commands 0 Z s now i c = Some c"
| "allow_commands (Suc n) Z s now i (pc, z) =
     (case allow_command Z s now i pc z of None \<Rightarrow> None | Some c \<Rightarrow> allow_commands n Z s now i c)"

lemma commands_of_Allow:
  "allow_commands 4 Z s now i (AddNext, z) = (case Allow Z s now i z of (r, z') \<Rightarrow> Some (Answered r, z'))"
  by (simp add: numeral_eq_Suc Allow_def Let_def split: prod.splits option.splits)

text \<open>
  The requests of one identity, \<open>now t\<close> the instant of request \<open>t\<close>; requests of other identities leave
  the key alone.
\<close>

record 'z limiter_state =
  lm_pc :: "nat \<Rightarrow> limiter_pc"
  lm_store :: 'z

inductive limiter_step ::
  "'z zset_client \<Rightarrow> ('z \<Rightarrow> string \<Rightarrow> string \<Rightarrow> float64 option) \<Rightarrow> SlidingWindow \<Rightarrow> string \<Rightarrow> (nat \<Rightarrow> time) \<Rightarrow> nat
     \<Rightarrow> 'z limiter_state \<Rightarrow> 'z limiter_state \<Rightarrow> bool"
  for Z entries s i now n where
  command: "t < n \<Longrightarrow> allow_command Z s (now t) i (lm_pc st t) (lm_store st) = Some (pc, z) \<Longrightarrow>
     limiter_step Z entries s i now n st (st\<lparr>lm_pc := (lm_pc st)(t := pc), lm_store := z\<rparr>)"
| others: "entries z (sw_prefix s @ '':'' @ i) = entries (lm_store st) (sw_prefix s @ '':'' @ i) \<Longrightarrow>
     limiter_step Z entries s i now n st (st\<lparr>lm_store := z\<rparr>)"

definition limiter_start :: "'z \<Rightarrow> 'z limiter_state" where
  "limiter_start z = \<lparr>lm_pc = (\<lambda>_. AddNext), lm_store = z\<rparr>"

section \<open>Failing commands\<close>

text \<open>A command that reports an error may have taken effect or not.\<close>

locale zset_faults = zset_store +
  assumes zadd_err: "ZAdd Z k x m z = (Some e, z') \<Longrightarrow>
      entries z' = entries z \<or> entries z' = (entries z)(k := (entries z k)(m := Some x))"
    and zrem_err: "ZRemRangeByScore Z k lo hi z = (Some e, z') \<Longrightarrow>
      entries z' = entries z \<or> entries z' = (entries z)(k := (\<lambda>m. case entries z k m of
        None \<Rightarrow> None | Some x \<Rightarrow> if lo \<le> x \<and> x \<le> hi then None else Some x))"
    and expire_err: "Expire Z k w z = (Some e, z') \<Longrightarrow> entries z' = entries z"

text \<open>A request has been counted and let through unless a later command fails; one that has added its entry.\<close>

fun errors_so_far :: "limiter_pc \<Rightarrow> error option list" where
  "errors_so_far (RemNext es) = es"
| "errors_so_far (CardNext es) = es"
| "errors_so_far (ExpireNext es n) = es"
| "errors_so_far _ = []"

fun has_added :: "limiter_pc \<Rightarrow> bool" where
  "has_added AddNext = False"
| "has_added (Answered (Inl e)) = False"
| "has_added (Answered (Inr r)) = True"
| "has_added pc = (first_error (errors_so_far pc) = None)"

fun within_limit :: "int \<Rightarrow> limiter_pc \<Rightarrow> bool" where
  "within_limit l (ExpireNext es n) = (first_error es = None \<and> int n \<le> l)"
| "within_limit l (Answered (Inr (ok, c))) = ok"
| "within_limit l _ = False"

lemma within_limit_added: "within_limit l pc \<Longrightarrow> has_added pc"
  by (cases "(l, pc)" rule: within_limit.cases) auto

lemma first_error_append: "first_error (xs @ ys) = (case first_error xs of None \<Rightarrow> first_error ys | Some e \<Rightarrow> Some e)"
  by (induction xs rule: first_error.induct) auto

section \<open>A burst of requests\<close>

text \<open>All within one window of each other, at the precision of the scores, and no two of the same nanosecond.\<close>

definition burst :: "SlidingWindow \<Rightarrow> (nat \<Rightarrow> time) \<Rightarrow> nat \<Rightarrow> bool" where
  "burst s now n \<longleftrightarrow> inj_on now {..<n}
     \<and> (\<forall>t < n. \<forall>u < n. float64_of_int (now t - sw_window s) < float64_of_int (now u))"

definition let_through :: "SlidingWindow \<Rightarrow> nat \<Rightarrow> 'z limiter_state \<Rightarrow> nat set" where
  "let_through s n st = {t. t < n \<and> within_limit (sw_limit s) (lm_pc st t)}"

definition entries_kept :: "SlidingWindow \<Rightarrow> (nat \<Rightarrow> time) \<Rightarrow> nat \<Rightarrow> (nat \<Rightarrow> limiter_pc) \<Rightarrow> (string \<Rightarrow> float64 option) \<Rightarrow> bool" where
  "entries_kept s now n pcs es \<longleftrightarrow> finite (dom es)
     \<and> (\<forall>t < n. has_added (pcs t) \<longrightarrow> es (instant_text (now t)) = Some (float64_of_int (now t)))"

lemma entries_kept_pc:
  "entries_kept s now n pcs es \<Longrightarrow> (has_added pc \<Longrightarrow> has_added (pcs t)) \<Longrightarrow> entries_kept s now n (pcs(t := pc)) es"
  by (auto simp: entries_kept_def split: if_splits)

lemma entries_kept_add:
  assumes "burst s now n" "entries_kept s now n pcs es" "t < n"
    and "\<And>u. u < n \<Longrightarrow> u \<noteq> t \<Longrightarrow> has_added (pcs' u) \<Longrightarrow> has_added (pcs u)"
  shows "entries_kept s now n pcs' (es(instant_text (now t) := Some (float64_of_int (now t))))"
  using assms by (auto simp: entries_kept_def burst_def instant_text_inj)

lemma entries_kept_rem:
  assumes "burst s now n" "entries_kept s now n pcs es" "t < n"
  shows "entries_kept s now n pcs (\<lambda>m. case es m of None \<Rightarrow> None
    | Some x \<Rightarrow> if 0 \<le> x \<and> x \<le> float64_of_int (now t - sw_window s) then None else Some x)"
proof -
  have "dom (\<lambda>m. case es m of None \<Rightarrow> None
    | Some x \<Rightarrow> if 0 \<le> x \<and> x \<le> float64_of_int (now t - sw_window s) then None else Some x) \<subseteq> dom es"
    by (auto split: option.splits)
  moreover have "\<not> float64_of_int (now u) \<le> float64_of_int (now t - sw_window s)" if "u < n" for u
    using assms(1,3) that by (auto simp: burst_def not_le)
  ultimately show ?thesis using assms(2) by (auto simp: entries_kept_def intro: finite_subset)
qed

lemma entries_kept_count:
  assumes "burst s now n" "entries_kept s now n pcs es" "A \<subseteq> {t. t < n \<and> has_added (pcs t)}"
  shows "card A \<le> card (dom es)"
proof (rule card_inj_on_le)
  show "inj_on (\<lambda>t. instant_text (now t)) A"
    using assms(1,3) by (force simp: burst_def inj_on_def instant_text_inj)
  show "(\<lambda>t. instant_text (now t)) ` A \<subseteq> dom es" using assms(2,3) by (auto simp: entries_kept_def)
  show "finite (dom es)" using assms(2) by (simp add: entries_kept_def)
qed

context zset_faults
begin

definition limiter_ok :: "SlidingWindow \<Rightarrow> string \<Rightarrow> (nat \<Rightarrow> time) \<Rightarrow> nat \<Rightarrow> 'a limiter_state \<Rightarrow> bool" where
  "limiter_ok s i now n st \<longleftrightarrow> entries_kept s now n (lm_pc st) (entries (lm_store st) (sw_prefix s @ '':'' @ i))
     \<and> int (card (let_through s n st)) \<le> sw_limit s"

lemma let_through_shrinks:
  assumes "let_through s n st' \<subseteq> let_through s n st" "int (card (let_through s n st)) \<le> sw_limit s"
  shows "int (card (let_through s n st')) \<le> sw_limit s"
proof -
  have "finite (let_through s n st)" by (simp add: let_through_def)
  from card_mono [OF this assms(1)] assms(2) show ?thesis by linarith
qed

lemma command_ok:
  assumes burst: "burst s now n" and ok: "limiter_ok s i now n st" and t: "t < n"
    and step: "allow_command Z s (now t) i (lm_pc st t) (lm_store st) = Some (pc, z)"
  shows "limiter_ok s i now n (st\<lparr>lm_pc := (lm_pc st)(t := pc), lm_store := z\<rparr>)"
proof -
  let ?k = "sw_prefix s @ '':'' @ i" and ?st' = "st\<lparr>lm_pc := (lm_pc st)(t := pc), lm_store := z\<rparr>"
  have kept: "entries_kept s now n (lm_pc st) (entries (lm_store st) ?k)"
    and lim: "int (card (let_through s n st)) \<le> sw_limit s" using ok by (simp_all add: limiter_ok_def)
  show ?thesis
  proof (cases "lm_pc st t")
    case AddNext
    obtain e where e: "ZAdd Z ?k (float64_of_int (now t)) (instant_text (now t)) (lm_store st) = (e, z)" "pc = RemNext [e]"
      using step AddNext by (auto split: prod.splits)
    have "entries z ?k = (entries (lm_store st) ?k)(instant_text (now t) := Some (float64_of_int (now t)))
        \<or> e \<noteq> None \<and> entries z ?k = entries (lm_store st) ?k"
      using zadd [of ?k _ _ "lm_store st" z] zadd_err [of ?k _ _ "lm_store st" _ z] e(1) by (cases e) fastforce+
    then have "entries_kept s now n ((lm_pc st)(t := pc)) (entries z ?k)"
    proof (elim disjE conjE)
      assume "e \<noteq> None" and same: "entries z ?k = entries (lm_store st) ?k"
      then have "\<not> has_added pc" using e(2) by auto
      with entries_kept_pc [OF kept, of pc t] same show ?thesis by simp
    qed (use entries_kept_add [OF burst kept t, of "(lm_pc st)(t := pc)"] in simp)
    moreover have "let_through s n ?st' \<subseteq> let_through s n st" using e(2) by (auto simp: let_through_def split: if_splits)
    ultimately show ?thesis using let_through_shrinks [OF _ lim] by (simp add: limiter_ok_def)
  next
    case (RemNext es)
    obtain e where e: "ZRemRangeByScore Z ?k 0 (float64_of_int (now t - sw_window s)) (lm_store st) = (e, z)" "pc = CardNext (es @ [e])"
      using step RemNext by (auto split: prod.splits)
    have "entries_kept s now n (lm_pc st) (entries z ?k)"
      using zrem [of ?k _ _ "lm_store st" z] zrem_err [of ?k _ _ "lm_store st" _ z] e(1)
        kept entries_kept_rem [OF burst kept t] by (cases e) fastforce+
    note kept' = this
    have "has_added pc \<Longrightarrow> has_added (lm_pc st t)" using e(2) RemNext by (simp add: first_error_append split: option.splits)
    from entries_kept_pc [OF kept' this]
    have "entries_kept s now n ((lm_pc st)(t := pc)) (entries z ?k)"
      .
    moreover have "let_through s n ?st' \<subseteq> let_through s n st" using e(2) by (auto simp: let_through_def split: if_splits)
    ultimately show ?thesis using let_through_shrinks [OF _ lim] by (simp add: limiter_ok_def)
  next
    case (CardNext es)
    obtain e m where e: "ZCard Z ?k (lm_store st) = (e, m)" "pc = ExpireNext (es @ [e]) m" "z = lm_store st"
      using step CardNext by (auto split: prod.splits)
    have "has_added pc \<Longrightarrow> has_added (lm_pc st t)" using e(2) CardNext by (simp add: first_error_append split: option.splits)
    from entries_kept_pc [OF kept this] e(3)
    have "entries_kept s now n ((lm_pc st)(t := pc)) (entries z ?k)" by simp
    moreover have "int (card (let_through s n ?st')) \<le> sw_limit s"
    proof (cases "within_limit (sw_limit s) pc")
      case True
      with e(2) have "e = None" "first_error es = None" and m: "int m \<le> sw_limit s"
        by (cases e; auto simp: first_error_append split: option.splits)+
      then have "let_through s n ?st' \<subseteq> {t. t < n \<and> has_added (lm_pc st t)}"
        using CardNext by (auto simp: let_through_def within_limit_added split: if_splits)
      from entries_kept_count [OF burst kept this] zcard [of ?k "lm_store st" m] e(1) \<open>e = None\<close> m
      show ?thesis by simp
    next
      case False
      then have "let_through s n ?st' \<subseteq> let_through s n st" by (auto simp: let_through_def split: if_splits)
      with let_through_shrinks lim show ?thesis by blast
    qed
    ultimately show ?thesis by (simp add: limiter_ok_def)
  next
    case (ExpireNext es m)
    obtain e where e: "Expire Z ?k (sw_window s) (lm_store st) = (e, z)"
        "pc = Answered (case first_error (es @ [e]) of Some err \<Rightarrow> Inl err | None \<Rightarrow> Inr (int m \<le> sw_limit s, int m))"
      using step ExpireNext by (auto split: prod.splits)
    have same: "entries z = entries (lm_store st)"
      using expire [of ?k _ "lm_store st" z] expire_err [of ?k _ "lm_store st" _ z] e(1) by (cases e) auto
    have "has_added pc \<Longrightarrow> has_added (lm_pc st t)"
      using e(2) ExpireNext by (simp add: first_error_append split: option.splits)
    from entries_kept_pc [OF kept this] same
    have "entries_kept s now n ((lm_pc st)(t := pc)) (entries z ?k)" by simp
    moreover have "let_through s n ?st' \<subseteq> let_through s n st"
      using e(2) ExpireNext by (auto simp: let_through_def first_error_append split: if_splits option.splits)
    ultimately show ?thesis using let_through_shrinks [OF _ lim] by (simp add: limiter_ok_def)
  qed (use step in simp)
qed

lemma limiter_ok_reachable:
  assumes "burst s now n" "(limiter_step Z entries s i now n)\<^sup>*\<^sup>* st st'" "limiter_ok s i now n st"
  shows "limiter_ok s i now n st'"
  using assms(2,3)
proof (induction rule: rtranclp_induct)
  case (step st1 st2)
  from step(2) step.IH [OF step.prems] show ?case
    by cases (auto simp: command_ok [OF assms(1)], simp add: limiter_ok_def let_through_def)
qed

end

interpretation memory_faults: zset_faults memory_zset zset_entries
  by unfold_locales (simp_all add: memory_zset_def)

section \<open>Examples and remarks\<close>

text \<open>Scores are exact below $2^{53}$.\<close>

lemma float64_exact: "0 \<le> n \<Longrightarrow> n < 2 ^ 53 \<Longrightarrow> float64_of_int n = real_of_int n"
proof -
  assume n: "0 \<le> n" "n < 2 ^ 53"
  have "floorlog 2 (nat n) \<le> 53"
  proof (rule ccontr)
    assume big: "\<not> floorlog 2 (nat n) \<le> 53"
    then have "(2::nat) ^ 53 \<le> 2 ^ (floorlog 2 (nat n) - 1)" by (intro power_increasing) auto
    moreover have "nat n > 0" using big by (cases "nat n") (simp_all add: floorlog_def)
    then have "2 ^ (floorlog 2 (nat n) - 1) \<le> nat n" using floorlog_bounds [of "nat n" 2] by simp
    ultimately have "2 ^ 53 \<le> nat n" by (rule order_trans)
    with n(1) have "int (2 ^ 53) \<le> n" by (simp only: le_nat_iff)
    with n(2) show False by simp
  qed
  then have "round_nat (nat n) = nat n" by (simp add: round_nat_def round_shift_def)
  with n(1) show ?thesis by (simp add: float64_of_int_def)
qed

fun limiter_schedule ::
  "'z zset_client \<Rightarrow> SlidingWindow \<Rightarrow> string \<Rightarrow> (nat \<Rightarrow> time) \<Rightarrow> nat list \<Rightarrow> 'z limiter_state \<Rightarrow> 'z limiter_state option" where
  "limiter_schedule Z s i now [] st = Some st"
| "limiter_schedule Z s i now (t # ts) st =
     (case allow_command Z s (now t) i (lm_pc st t) (lm_store st) of
        None \<Rightarrow> None
      | Some (pc, z) \<Rightarrow> limiter_schedule Z s i now ts (st\<lparr>lm_pc := (lm_pc st)(t := pc), lm_store := z\<rparr>))"

lemma limiter_schedule_reaches:
  "limiter_schedule Z s i now ts st = Some st' \<Longrightarrow> set ts \<subseteq> {..<n} \<Longrightarrow> (limiter_step Z entries s i now n)\<^sup>*\<^sup>* st st'"
  by (induction ts arbitrary: st)
    (auto split: option.splits prod.splits intro: converse_rtranclp_into_rtranclp limiter_step.command)

definition example_limiter :: SlidingWindow where
  "example_limiter = \<lparr>sw_limit = 1, sw_window = 10, sw_prefix = ''rl''\<rparr>"

lemma example_burst: "burst example_limiter (\<lambda>t. 10 + int t) 2"
  by (simp add: burst_def example_limiter_def less_2_cases_iff inj_on_def float64_exact all_conj_distrib)

text \<open>
  The limit is not used up: when the commands of two requests interleave, both may be turned away
  although the limit admits one of them.
\<close>

lemma concurrent_burst_rejected:
  "\<exists>st. limiter_schedule memory_zset example_limiter ''c'' (\<lambda>t. 10 + int t) [0, 1, 0, 1, 0, 1, 0, 1] (limiter_start []) = Some st
     \<and> lm_pc st 0 = Answered (Inr (False, 2)) \<and> lm_pc st 1 = Answered (Inr (False, 2))"
  by (simp add: limiter_start_def memory_zset_def zset_entries_def example_limiter_def instant_text_inj float64_exact)
    (auto simp: instant_text_inj)

text \<open>
  Two requests of the same nanosecond share their entry: the second one is told the same count as the
  first, and both pass.
\<close>

lemma same_instant_counts_once:
  assumes "zset_store Z entries" and "Allow Z s t i z = (Inr (ok, c), z1)" and "Allow Z s t i z1 = (Inr (ok', c'), z2)"
  shows "ok' = ok \<and> c' = c"
proof -
  note a = zset_store.Allow_ok [OF assms(1,2)] and b = zset_store.Allow_ok [OF assms(1,3)]
  have "entries z2 (sw_prefix s @ '':'' @ i) = entries z1 (sw_prefix s @ '':'' @ i)"
    unfolding b(1) unfolding a(1) by (auto simp: fun_eq_iff split: option.splits)
  with a(2,3) b(2,3) show ?thesis by simp
qed

section \<open>Properties\<close>



end
