(* ===== verification/Spec2Isabelle.thy ===== *)
theory Spec2Isabelle
  imports Service_Apis Tracing Migrations Kafka_Partitions Hub_Concurrency Relay_Shutdown
    Rate_Limit_Concurrency
begin

text \<open>
  Verification of the Rush delivery engine (Go, under \<^verbatim>\<open>src/\<close>).

  \<^bold>\<open>The program.\<close>  Six services share one Postgres database, one Redis and one Kafka cluster.  Customers
  place orders and change their status through the order service (\<^verbatim>\<open>internal/order\<close>), which records
  every event in an outbox table within its transaction; a relay (\<^verbatim>\<open>internal/outbox\<close>) publishes the
  rows to Kafka (\<^verbatim>\<open>pkg/kafka\<close>).  The assignment service (\<^verbatim>\<open>internal/assignment\<close>) consumes
  \<^verbatim>\<open>order.placed\<close>, asks a Redis geo index for near riders and claims one, or cancels the order.  Riders
  register and go on and off shift at the rider service (\<^verbatim>\<open>internal/rider\<close>) and send positions over a
  WebSocket to the location service (\<^verbatim>\<open>internal/location\<close>), which updates the index and publishes them;
  the ETA service (\<^verbatim>\<open>internal/eta\<close>, \<^verbatim>\<open>pkg/geo\<close>) turns them into estimates, and the notification service
  (\<^verbatim>\<open>internal/notification\<close>) pushes all events to the customers' WebSockets.  Shared packages check
  tokens (\<^verbatim>\<open>pkg/auth\<close>), limit request rates (\<^verbatim>\<open>pkg/middleware\<close>), count events (\<^verbatim>\<open>pkg/metrics\<close>) and
  read the configuration (\<^verbatim>\<open>pkg/config\<close>).

  \<^bold>\<open>The theories.\<close>

  \<^item> \<open>Rush_Prelude\<close>: Go's errors, SQL's row operations on tables kept as lists, JSON values and the generic
    lemmas.  \<open>Rush_Json\<close>: decoding into structs and the text codecs of UUIDs and instants, as the
    parameter \<open>codec\<close> with the locale \<open>codec_laws\<close>.

  \<^item> \<open>Order_State_Machine\<close>: \<^verbatim>\<open>statemachine.go\<close>; the transition table implements the abstract relation
    \<open>lifecycle\<close> exactly, a delivered order has the one possible history, histories are bounded.

  \<^item> \<open>Rush_Database\<close>: the four tables of \<^verbatim>\<open>migrations/\<close> with their constraints (\<open>wf_db\<close>), and
    transactions whose statements may fail and whose commit may be lost (locale \<open>tx_contract\<close>).
    \<open>Migrations\<close>: the scripts in both directions and the SQL statements of all services; a script's down
    file undoes its up file, and every statement is well typed on the migrated schema, over the
    driver's type mapping (locale \<open>driver_laws\<close>).

  \<^item> \<open>Kafka_Bus\<close>: producer, consumer loop, topic creation and trace headers over \<^verbatim>\<open>kafka-go\<close> (locales
    \<open>kafka_writer\<close>, \<open>kafka_reader\<close>, \<open>kafka_admin\<close>, \<open>publisher\<close>, \<open>message_handler\<close>).  A running consumer is
    a fold of its handler over the log: each offset once and in order, failed ones included; over
    restarts of its group (locale \<open>kafka_group\<close>) nothing up to the committed offset is left unhandled.

  \<^item> \<open>Kafka_Partitions\<close>: the settings of \<^verbatim>\<open>NewProducer\<close> and \<^verbatim>\<open>NewConsumer\<close> and topics of any number of
    partitions (locales \<open>kafka_cluster\<close>, \<open>group_reader\<close>): the hash balancer and a single relay give every consumer
    the events of a key in the order of the outbox.

  \<^item> \<open>Outbox\<close>: \<^verbatim>\<open>Write\<close> and the relay.  No event is lost whatever fails, the table drains when nothing
    interferes, and one relay never reorders; two relays may.

  \<^item> \<open>Tracing\<close>: the trace context stored with an outbox row, restored by the relay, carried in the message
    headers and picked up by the consumer, over OpenTelemetry (locale \<open>otel_laws\<close>, which \<open>defaultPropagator\<close>
    satisfies by the laws of its two parts, locale \<open>propagation_laws\<close>): a request's trace follows its order
    into the assignment service and out again.

  \<^item> \<open>Metrics\<close>: counters, the status recorder, the HTTP middleware and the JSON responses.

  \<^item> \<open>Websocket\<close>: the heartbeat of both WebSocket services, as timed events on a connection: a client that
    answers its pings in time is read as long as it wants, a silent one is dropped within \<open>pongWait\<close>.

  \<^item> \<open>Order_Service\<close>: repository, service and handlers.  A placement is atomic, a status change is one
    lifecycle step with its audit event and its outbox row or nothing, and the responses tell which.
    The read and the write of a status change are separate, so concurrent changes may overtake.

  \<^item> \<open>Geo_Index\<close> (the Redis geo commands, locale \<open>geo_index\<close>) and \<open>Assignment\<close>: no rider is won twice, an
    assignment that reports its outcome has resolved the order, and it prefers the nearest.

  \<^item> \<open>Rider_Service\<close>, \<open>Location\<close>, \<open>Eta\<close>, \<open>Notification\<close>: their handlers, services and consumers, with the
    effect of each on the stores, the bus and the connections (locale \<open>ws_contract\<close>).  A subscribed
    customer gets exactly the assignments of the order, and a subscription ends with its connection.

  \<^item> \<open>Hub_Concurrency\<close>: the hub's operations as the steps of their goroutines, in any interleaving: the lock
    keeps the map free of races and nobody is stuck, and all runs amount to the operations one after the other.

  \<^item> \<open>Auth\<close>, \<open>Rate_Limit\<close>, \<open>Order_Api\<close>: tokens over \<^verbatim>\<open>golang-jwt\<close> (locale \<open>jwt_laws\<close>), the sliding window
    over a Redis sorted set (locale \<open>zset_store\<close>), and the HTTP stack of the order service: the
    database changes only behind a valid token, and every request is counted once.

  \<^item> \<open>Rate_Limit_Concurrency\<close>: the limiter's pipeline command by command (locale \<open>zset_faults\<close>): no interleaving
    of concurrent requests lets more of them through than the limit.

  \<^item> \<open>Service_Apis\<close>: the HTTP interfaces of the rider, location and notification services; rider requests
    never touch orders, and a customer's request leaves no subscription behind.

  \<^item> \<open>Configuration\<close>: \<^verbatim>\<open>Load\<close> over \<^verbatim>\<open>viper\<close> (locale \<open>viper_laws\<close>): environment before file before default.

  \<^item> \<open>Service_Runtime\<close>: connections and \<^verbatim>\<open>run\<close> of the six commands as traces of actions:
    resources are released on every path, consumers start after their topics exist, and no two
    share a group.

  \<^item> \<open>Relay_Shutdown\<close>: the relay call by call while \<^verbatim>\<open>run\<close> closes its producer and its pool (locales
    \<open>closable_publisher\<close>, \<open>pool_laws\<close>): the calls make up \<open>dispatch\<close>, and no event is lost at any moment.

  \<^item> \<open>Delivery_System\<close>: the services together.  A step is one transaction of any service or one call to
    Redis or Kafka; invariants hold along every interleaving.  The parameter \<open>stale\<close> says which earlier
    database a status change may have read: consistency holds for any, the lifecycle and the
    audit trail when nothing comes between read and write.

  \<^item> \<open>Order_Flow\<close>: one order from its placement through the relay and the bus to the assignment service, when
    no call fails: it ends with a rider or cancelled.

  \<^bold>\<open>Conventions.\<close>  A handler maps its input and the state to its answer and the new state.  What
  the outside world answers (a failing statement, a lost commit, a locked row, a failing Redis call,
  the clock, other actors between two transactions) is an argument of each operation, and theorems
  quantify over it.  Libraries are parameters, with their documented behaviour as the assumptions of a
  locale, and every locale is interpreted on an executable instance (\<open>canonical_codec\<close>, \<open>broker_write\<close>,
  \<open>list_geo\<close>, \<open>memory_zset\<close>, \<open>plain_jwt\<close>, \<open>memory_ws\<close>, \<open>w3c_otel\<close>, \<open>settings_viper\<close>, \<open>pgx_accepts\<close>,
  \<open>memory_partition\<close>, \<open>member_reader\<close>, \<open>closable_publish\<close>, \<open>memory_pool\<close>).

  \<^bold>\<open>Bounds and fuel.\<close>  The consumer loop has a number of rounds, the relay a list of ticks, a WebSocket
  connection a finite list of what arrives, after which its last read ends at the deadline; theorems hold for all of them, and the draining theorem gives the number
  of ticks that is enough.  A token's lifetime is an \<^verbatim>\<open>int64\<close> of nanoseconds and wraps around; the limiter's
  scores are rounded to \<^verbatim>\<open>float64\<close>; elsewhere floats are the reals they denote.

  \<^bold>\<open>Not modelled.\<close>  Log lines, recording and exporting spans (only their contexts are) and panics: they do not
  come back into the program.  Write deadlines and other time-outs show only as failing calls.  The
  goroutines of one service are interleaved by transactions, library calls and accesses to the hub's map,
  not within these; a transaction is one step, so there are no isolation anomalies inside it, and
  rebalancing a consumer group appears only as the restart of its members.  Tests and deployment files
  are not part of the program.
\<close>

end
